(* ===== verification/Prelude.thy ===== *)
theory Prelude
  imports Main "HOL-Library.AList" "HOL-Library.Char_ord" "HOL-Library.List_Lexorder"
    "HOL-Library.Word" "HOL-Library.Multiset"
begin

text \<open>
  What the components share: Go's integer and string types, its error values with the
  wrapping that \<open>errors.Is\<close> looks through, the outcome of code that may panic, Go maps as
  association lists (whose order stands for the unspecified iteration order), and the
  generic lemmas on lists, sorting and dictionaries that the component proofs use.
\<close>

section \<open>Go types\<close>

type_synonym int64 = "64 word"
type_synonym gostring = string

text \<open>A Go map: an association list with distinct keys; the list order is the order in which
  \<open>range\<close> happens to visit the entries.\<close>

type_synonym 'v dict = "(gostring \<times> 'v) list"

definition dict_ok :: "'v dict \<Rightarrow> bool" where
  "dict_ok d \<longleftrightarrow> distinct (map fst d)"

abbreviation dict_get :: "'v dict \<Rightarrow> gostring \<Rightarrow> 'v option" where
  "dict_get \<equiv> map_of"

abbreviation dict_put :: "'v dict \<Rightarrow> gostring \<Rightarrow> 'v \<Rightarrow> 'v dict" where
  "dict_put d k v \<equiv> AList.update k v d"

text \<open>Code that dereferences a nil pointer panics; everything else returns.\<close>

datatype 'a outcome = Done 'a | Panic

section \<open>Error values\<close>

text \<open>The package-level error variables of the repository.\<close>

datatype sentinel =
    ErrMetricNotFound | ErrIncorrectAccess
  | ErrStore | ErrLoad
  | ErrUnsupportedMetricType | ErrMetricValueNotProvided
  | ErrIncorrectMetricType | ErrUnknownMetricType | ErrWrongStagingState
  | ErrSignatureInvalid

fun sentinel_text :: "sentinel \<Rightarrow> gostring" where
  "sentinel_text ErrMetricNotFound = ''metric not found in storage''"
| "sentinel_text ErrIncorrectAccess = ''wrong access method used for metric''"
| "sentinel_text ErrStore = ''error storing metrics to file''"
| "sentinel_text ErrLoad = ''error loading metrics from file''"
| "sentinel_text ErrUnsupportedMetricType = ''unsupported metric type''"
| "sentinel_text ErrMetricValueNotProvided = ''metric value not provided''"
| "sentinel_text ErrIncorrectMetricType = ''incorrect metric type''"
| "sentinel_text ErrUnknownMetricType = ''unknown metric type''"
| "sentinel_text ErrWrongStagingState = ''incorrect operation for current staging state''"
| "sentinel_text ErrSignatureInvalid = ''request signature invalid''"

text \<open>
  An error is one of these variables, an error of a library (its text), the result of
  \<open>fmt.Errorf\<close> with one \<open>%w\<close> operand (its rendered text and the operand), a
  \<open>retrying.RetryableError\<close> around an error, or an error of the database server (its code
  and its text).
\<close>

datatype goerror =
    Sentinel sentinel
  | Foreign gostring
  | Wrapped gostring goerror
  | Retryable goerror
  | PgError gostring gostring

fun error_text :: "goerror \<Rightarrow> gostring" where
  "error_text (Sentinel s) = sentinel_text s"
| "error_text (Foreign t) = t"
| "error_text (Wrapped t e) = t"
| "error_text (Retryable e) = error_text e"
| "error_text (PgError code t) = t"

text \<open>\<open>fmt.Errorf("<pre>%w<post>", e)\<close>.\<close>

definition errorf :: "gostring \<Rightarrow> goerror \<Rightarrow> gostring \<Rightarrow> goerror" where
  "errorf pre e post = Wrapped (pre @ error_text e @ post) e"

text \<open>
  \<open>errors.Is(e, s)\<close> for a package-level variable \<open>s\<close>: compare, then unwrap. A
  \<open>RetryableError\<close> value does not unwrap, because its \<open>Unwrap\<close> method has a pointer
  receiver and \<open>NewRetryableError\<close> returns a value.
\<close>

fun errors_is :: "goerror \<Rightarrow> sentinel \<Rightarrow> bool" where
  "errors_is (Sentinel t) s \<longleftrightarrow> t = s"
| "errors_is (Foreign t) s \<longleftrightarrow> False"
| "errors_is (Wrapped t e) s \<longleftrightarrow> errors_is e s"
| "errors_is (Retryable e) s \<longleftrightarrow> False"
| "errors_is (PgError code t) s \<longleftrightarrow> False"

lemma errors_is_errorf [simp]: "errors_is (errorf a e b) s = errors_is e s"
  by (simp add: errorf_def)

lemma error_text_errorf [simp]: "error_text (errorf a e b) = a @ error_text e @ b"
  by (simp add: errorf_def)

section \<open>Durations\<close>

text \<open>\<open>time.Duration(n) * time.Second\<close>, which wraps, and \<open>time.NewTicker\<close> of it, which panics unless
  it is positive.\<close>

definition seconds :: "int \<Rightarrow> int64" where
  "seconds n = word_of_int n * 1000000000"

definition ticker_panics :: "int \<Rightarrow> bool" where
  "ticker_panics n \<longleftrightarrow> sint (seconds n) \<le> 0"

text \<open>\<open>strings.Trim(s, "\"")\<close>: quotes at both ends go.\<close>

definition trim_quotes :: "gostring \<Rightarrow> gostring" where
  "trim_quotes s = rev (dropWhile (\<lambda>c. c = CHR 0x22) (rev (dropWhile (\<lambda>c. c = CHR 0x22) s)))"

section \<open>Dictionaries\<close>

lemma dict_ok_Nil [simp]: "dict_ok []"
  by (simp add: dict_ok_def)

lemma dict_ok_put [simp]: "dict_ok d \<Longrightarrow> dict_ok (dict_put d k v)"
  by (simp add: dict_ok_def distinct_update)

lemma dict_get_put [simp]: "dict_get (dict_put d k v) = (dict_get d)(k \<mapsto> v)"
  by (rule update_conv')

lemma dict_keys_put: "set (map fst (dict_put d k v)) = insert k (set (map fst d))"
  by (simp add: dom_update)

lemma dict_get_in_set: "dict_get d k = Some v \<Longrightarrow> (k, v) \<in> set d"
  by (rule map_of_SomeD)

lemma dict_set_get: "dict_ok d \<Longrightarrow> (k, v) \<in> set d \<longleftrightarrow> dict_get d k = Some v"
  by (auto simp: dict_ok_def dest: map_of_SomeD)

section \<open>Sums over a list\<close>

text \<open>Replacing one element changes a sum by the difference of the two summands.\<close>

lemma sum_list_map_update:
  fixes f :: "'a \<Rightarrow> 'b::comm_monoid_add"
  shows "i < length xs \<Longrightarrow> sum_list (map f (xs[i := y])) + f (xs ! i) = sum_list (map f xs) + f y"
proof (induction xs arbitrary: i)
  case (Cons x xs)
  then show ?case
  proof (cases i)
    case (Suc k)
    then have "sum_list (map f (xs[k := y])) + f (xs ! k) = sum_list (map f xs) + f y" using Cons by simp
    then have "f x + (sum_list (map f (xs[k := y])) + f (xs ! k)) = f x + (sum_list (map f xs) + f y)" by simp
    then show ?thesis using Suc by (simp only: list_update.simps nat.case list.map sum_list.Cons nth_Cons_Suc add.assoc)
  qed (simp add: ac_simps)
qed simp

lemma sum_list_map_0:
  fixes f :: "'a \<Rightarrow> 'b::comm_monoid_add"
  shows "(\<And>x. x \<in> set xs \<Longrightarrow> f x = 0) \<Longrightarrow> sum_list (map f xs) = 0"
  by (induction xs) simp_all

section \<open>Sorting\<close>

text \<open>Sorting by a key that is injective on the list has one result, whatever the
  algorithm and the order of the input.\<close>

lemma sorted_by_key_unique:
  assumes "mset xs = mset ys" and "distinct (map f xs)"
    and "sorted (map f xs)" and "sorted (map f ys)"
  shows "xs = ys"
proof (rule map_sorted_distinct_set_unique)
  have "set xs = set ys" using assms(1) by (rule mset_eq_setD)
  then show "set xs = set ys" and "inj_on f (set xs \<union> set ys)"
    using assms(2) by (auto simp: distinct_map)
  have "mset (map f xs) = mset (map f ys)" using assms(1) by simp
  then show "distinct (map f ys)" using assms(2) by (metis mset_eq_imp_distinct_iff)
qed (use assms in auto)

end
