(* ===== verification/GoFloat.thy ===== *)
theory GoFloat
  imports Complex_Main Prelude "HOL-Library.Log_Nat"
begin

text \<open>
  Go's \<open>float64\<close>: an IEEE 754 binary64 value, kept as its 64 bits. A finite magnitude is
  read as a whole number of units of \<open>2 ^ -1074\<close> (the smallest subnormal), so that sums,
  quotients and decimal numbers are exact fractions of naturals before the one rounding
  (to nearest, ties to even) that produces the bits of the result. The lemmas show that
  rounding is exact on representable values, hence that \<open>(0 + v) / 1\<close> is \<open>v\<close>.
\<close>

type_synonym float64 = "64 word"

section \<open>Bits\<close>

text \<open>The sign bit, and the 63 bits of exponent and fraction as one number. The magnitude
  of an infinity is \<open>f64_inf_mag\<close>; larger magnitudes are NaNs.\<close>

definition f64_neg :: "float64 \<Rightarrow> bool" where
  "f64_neg x \<longleftrightarrow> unat x div 2 ^ 63 = 1"

definition f64_mag :: "float64 \<Rightarrow> nat" where
  "f64_mag x = unat x mod 2 ^ 63"

definition f64_pack :: "bool \<Rightarrow> nat \<Rightarrow> float64" where
  "f64_pack s m = word_of_nat ((if s then 2 ^ 63 else 0) + m)"

definition f64_inf_mag :: nat where
  "f64_inf_mag = 2047 * 2 ^ 52"

definition f64_is_nan :: "float64 \<Rightarrow> bool" where
  "f64_is_nan x \<longleftrightarrow> f64_inf_mag < f64_mag x"

definition f64_is_inf :: "float64 \<Rightarrow> bool" where
  "f64_is_inf x \<longleftrightarrow> f64_mag x = f64_inf_mag"

definition f64_finite :: "float64 \<Rightarrow> bool" where
  "f64_finite x \<longleftrightarrow> f64_mag x < f64_inf_mag"

definition f64_zero :: float64 where
  "f64_zero = f64_pack False 0"

definition f64_nan :: float64 where
  "f64_nan = f64_pack False (f64_inf_mag + 2 ^ 51 + 1)"

definition f64_inf :: "bool \<Rightarrow> float64" where
  "f64_inf s = f64_pack s f64_inf_mag"

section \<open>Value and rounding\<close>

text \<open>The value of a finite magnitude in units of \<open>2 ^ -1074\<close>.\<close>

definition f64_units :: "nat \<Rightarrow> nat" where
  "f64_units m =
     (let e = m div 2 ^ 52; f = m mod 2 ^ 52
      in if e = 0 then f else (f + 2 ^ 52) * 2 ^ (e - 1))"

text \<open>The magnitude nearest to the fraction \<open>a / b\<close> of units: drop \<open>j\<close> low bits so that at
  most 53 remain, round half to even; a carry out of the fraction moves into the exponent
  by itself, and anything past the largest finite magnitude is infinite.\<close>

definition f64_half_even :: "nat \<Rightarrow> nat \<Rightarrow> nat" where
  "f64_half_even n d =
     (let q = n div d; r = n mod d
      in if d < 2 * r \<or> (2 * r = d \<and> odd q) then q + 1 else q)"

definition f64_round :: "nat \<Rightarrow> nat \<Rightarrow> nat" where
  "f64_round a b =
     (let j = floorlog 2 (a div b) - 53
      in min f64_inf_mag (j * 2 ^ 52 + f64_half_even a (b * 2 ^ j)))"

section \<open>Arithmetic\<close>

definition f64_signed :: "float64 \<Rightarrow> int" where
  "f64_signed x = (if f64_neg x then - int (f64_units (f64_mag x)) else int (f64_units (f64_mag x)))"

definition f64_add :: "float64 \<Rightarrow> float64 \<Rightarrow> float64" where
  "f64_add x y =
     (if f64_is_nan x \<or> f64_is_nan y then f64_nan
      else if f64_is_inf x then
        (if f64_is_inf y \<and> f64_neg x \<noteq> f64_neg y then f64_nan else x)
      else if f64_is_inf y then y
      else (let s = f64_signed x + f64_signed y
            in if s = 0 then f64_pack (f64_neg x \<and> f64_neg y) 0
               else f64_pack (s < 0) (f64_round (nat \<bar>s\<bar>) 1)))"

definition f64_div :: "float64 \<Rightarrow> float64 \<Rightarrow> float64" where
  "f64_div x y =
     (let s = (f64_neg x \<noteq> f64_neg y)
      in if f64_is_nan x \<or> f64_is_nan y then f64_nan
         else if f64_is_inf x then (if f64_is_inf y then f64_nan else f64_inf s)
         else if f64_is_inf y then f64_pack s 0
         else if f64_mag y = 0 then (if f64_mag x = 0 then f64_nan else f64_inf s)
         else f64_pack s (f64_round (f64_units (f64_mag x) * 2 ^ 1074) (f64_units (f64_mag y))))"

text \<open>The conversion \<open>float64(n)\<close> of an unsigned integer or a length.\<close>

definition f64_of_nat :: "nat \<Rightarrow> float64" where
  "f64_of_nat n = f64_pack False (f64_round (n * 2 ^ 1074) 1)"

section \<open>Lemmas\<close>

lemma f64_mag_less: "f64_mag x < 2 ^ 63"
  by (simp add: f64_mag_def)

lemma f64_pack_eq [simp]: "f64_pack (f64_neg x) (f64_mag x) = x"
proof -
  have lt: "unat x < 2 ^ 64" using unsigned_less [of x] by simp
  then have "unat x div 2 ^ 63 < 2" by (simp add: less_mult_imp_div_less)
  then have "(if f64_neg x then 2 ^ 63 else 0) = unat x div 2 ^ 63 * 2 ^ 63"
    by (auto simp: f64_neg_def less_2_cases_iff)
  then have "(if f64_neg x then 2 ^ 63 else 0) + f64_mag x = unat x"
    by (simp only: f64_mag_def) (simp add: div_mult_mod_eq)
  then show ?thesis by (simp add: f64_pack_def)
qed

lemma unat_f64_pack:
  "m < 2 ^ 63 \<Longrightarrow> unat (f64_pack s m) = (if s then 2 ^ 63 else 0) + m"
proof -
  assume "m < 2 ^ 63"
  then have "(if s then 2 ^ 63 else 0) + m < 2 ^ LENGTH(64)" by simp
  then show ?thesis
    unfolding f64_pack_def by (simp only: unsigned_of_nat take_bit_nat_eq_self of_nat_id)
qed

lemma f64_neg_pack [simp]: "m < 2 ^ 63 \<Longrightarrow> f64_neg (f64_pack s m) = s"
  by (auto simp: f64_neg_def unat_f64_pack)

lemma f64_mag_pack [simp]: "m < 2 ^ 63 \<Longrightarrow> f64_mag (f64_pack s m) = m"
  by (auto simp: f64_mag_def unat_f64_pack)

lemma f64_half_even_1 [simp]: "f64_half_even n (Suc 0) = n"
  by (simp add: f64_half_even_def)

lemma f64_half_even_exact: "0 < d \<Longrightarrow> f64_half_even (n * d) d = n"
  by (simp add: f64_half_even_def)

lemma f64_round_le: "f64_round a b \<le> f64_inf_mag"
  by (simp add: f64_round_def Let_def)

lemma f64_inf_mag_less: "f64_inf_mag < 2 ^ 63"
  by (simp add: f64_inf_mag_def)

lemma f64_round_less [simp]: "f64_round a b < 2 ^ 63"
  using f64_round_le [of a b] f64_inf_mag_less by simp

lemma f64_pack_round [simp]:
  "f64_neg (f64_pack s (f64_round a b)) = s" "f64_mag (f64_pack s (f64_round a b)) = f64_round a b"
  by (simp_all only: f64_neg_pack f64_mag_pack f64_round_less)

text \<open>Rounding gives back every representable value.\<close>

lemma f64_round_units:
  assumes "m \<le> f64_inf_mag"
  shows "f64_round (f64_units m) 1 = m"
proof (cases "m div 2 ^ 52 = 0")
  case True
  then have m: "m < 2 ^ 52" by (simp add: div_eq_0_iff)
  then have "f64_units m = m" by (simp add: f64_units_def)
  moreover have "floorlog 2 m \<le> 52" using m by (intro floorlog_leI) auto
  ultimately show ?thesis using assms by (simp add: f64_round_def)
next
  case False
  define e f where "e = m div 2 ^ 52" and "f = m mod 2 ^ 52"
  have f: "f < 2 ^ 52" by (simp add: f_def)
  have u: "f64_units m = (f + 2 ^ 52) * 2 ^ (e - 1)"
    using False by (simp add: f64_units_def e_def f_def)
  have "floorlog 2 (f + 2 ^ 52) \<le> 53" using f by (intro floorlog_leI) auto
  moreover have "53 \<le> floorlog 2 (f + 2 ^ 52)"
    using floorlog_geI [of 2 53 "f + 2 ^ 52"] by simp
  ultimately have "floorlog 2 (f64_units m) - 53 = e - 1"
    using u by simp
  moreover have "f64_half_even (f64_units m) (2 ^ (e - 1)) = f + 2 ^ 52"
    unfolding u by (rule f64_half_even_exact) simp
  moreover have "(e - 1) * 2 ^ 52 + (f + 2 ^ 52) = m"
  proof -
    have "(e - 1) * 2 ^ 52 + 2 ^ 52 = e * 2 ^ 52"
      using False by (cases e) (simp_all add: e_def)
    moreover have "e * 2 ^ 52 + f = m" by (simp only: e_def f_def div_mult_mod_eq)
    ultimately show ?thesis by linarith
  qed
  ultimately show ?thesis using assms by (simp add: f64_round_def Let_def)
qed

text \<open>Scaling numerator and denominator alike changes nothing.\<close>

lemma f64_half_even_scale: "0 < c \<Longrightarrow> f64_half_even (n * c) (d * c) = f64_half_even n d"
  by (simp add: f64_half_even_def Let_def mult.assoc [symmetric] flip: mult_mod_left)

lemma f64_round_scale:
  assumes "0 < c" shows "f64_round (a * c) (b * c) = f64_round a b"
proof -
  have "f64_half_even (a * c) (b * c * 2 ^ j) = f64_half_even a (b * 2 ^ j)" for j
    using f64_half_even_scale [OF assms, of a "b * 2 ^ j"] by (simp add: ac_simps)
  then show ?thesis using assms by (simp add: f64_round_def)
qed

text \<open>The average of a single finite value is that value.\<close>

lemma f64_units_of_1 [simp]: "f64_mag (f64_of_nat 1) = 1023 * 2 ^ 52"
proof -
  have "f64_units (1023 * 2 ^ 52) = 2 ^ 1074"
    by (simp add: f64_units_def flip: power_add)
  then have "f64_round (2 ^ 1074) 1 = 1023 * 2 ^ 52"
    using f64_round_units [of "1023 * 2 ^ 52"] by (simp add: f64_inf_mag_def)
  then show ?thesis by (simp add: f64_of_nat_def)
qed

lemma f64_units_0 [simp]: "f64_units 0 = 0"
  by (simp add: f64_units_def)

lemma f64_round_0 [simp]: "f64_round 0 b = 0"
  by (simp add: f64_round_def f64_half_even_def floorlog_def)

lemma f64_units_eq_0 [simp]: "f64_units m = 0 \<longleftrightarrow> m = 0"
proof
  assume "f64_units m = 0"
  then have "m div 2 ^ 52 = 0 \<and> m mod 2 ^ 52 = 0"
    by (simp add: f64_units_def Let_def split: if_splits)
  then show "m = 0" by (metis div_mult_mod_eq mult_zero_left add_0)
qed simp

lemma f64_finite_simps:
  "f64_finite x \<Longrightarrow> \<not> f64_is_nan x" "f64_finite x \<Longrightarrow> \<not> f64_is_inf x"
  by (simp_all add: f64_finite_def f64_is_nan_def f64_is_inf_def)

lemma f64_finite_zero [simp]: "f64_finite f64_zero"
  by (simp add: f64_finite_def f64_zero_def f64_inf_mag_def)

lemma f64_zero_simps [simp]: "f64_neg f64_zero = False" "f64_mag f64_zero = 0"
  by (simp_all add: f64_zero_def)

lemma f64_add_0:
  assumes "f64_finite v" and "v \<noteq> f64_pack True 0"
  shows "f64_add f64_zero v = v"
proof (cases "f64_mag v = 0")
  case True
  then have "\<not> f64_neg v" using assms(2) f64_pack_eq [of v] by auto
  then have "v = f64_pack False 0" using True f64_pack_eq [of v] by simp
  then show ?thesis using assms(1)
    by (simp add: f64_add_def f64_finite_simps f64_signed_def)
next
  case False
  have r: "f64_round (f64_units (f64_mag v)) 1 = f64_mag v"
    using assms(1) by (intro f64_round_units) (simp add: f64_finite_def)
  have s: "f64_signed f64_zero + f64_signed v = f64_signed v" and "f64_signed v \<noteq> 0"
    and "nat \<bar>f64_signed v\<bar> = f64_units (f64_mag v)" and "f64_signed v < 0 \<longleftrightarrow> f64_neg v"
    using False f64_units_eq_0 [of "f64_mag v"] by (auto simp: f64_signed_def simp del: f64_units_eq_0)
  then show ?thesis using assms(1) r
    by (simp add: f64_add_def f64_finite_simps)
qed

lemma f64_finite_1: "f64_finite (f64_of_nat 1)"
  by (simp only: f64_finite_def f64_units_of_1) (simp add: f64_inf_mag_def)

lemma f64_div_1:
  assumes "f64_finite v"
  shows "f64_div v (f64_of_nat 1) = v"
proof -
  have one: "\<not> f64_neg (f64_of_nat 1)" "f64_units (f64_mag (f64_of_nat 1)) = 2 ^ 1074"
    by (simp add: f64_of_nat_def del: One_nat_def)
      (simp only: f64_units_of_1, simp add: f64_units_def flip: power_add)
  have "f64_round (f64_units (f64_mag v) * 2 ^ 1074) (1 * 2 ^ 1074) = f64_mag v"
    using assms by (subst f64_round_scale) (simp_all add: f64_round_units f64_finite_def del: One_nat_def)
  then show ?thesis
    using assms f64_finite_1 one
    by (simp add: f64_div_def f64_finite_simps del: One_nat_def)
qed

end
