(* ===== verification/GoStrconv.thy ===== *)
theory GoStrconv
  imports GoFloat
begin

text \<open>
  What the code uses of Go's \<open>strconv\<close>: \<open>FormatInt(_, 10)\<close>, \<open>ParseInt(_, 10, 64)\<close>,
  \<open>FormatFloat(_, 'f', -1, 64)\<close> and \<open>ParseFloat(_, 64)\<close>, as executable definitions over
  byte strings. The lemmas are the two round trips: parsing what was formatted gives the
  same 64 bits back (for every int64, and for every double that is not a NaN).
\<close>

section \<open>Decimal naturals\<close>

definition digit_char :: "nat \<Rightarrow> char" where
  "digit_char d = char_of (48 + d)"

definition char_code :: "char \<Rightarrow> nat" where
  "char_code c = of_char c"

definition is_digit :: "char \<Rightarrow> bool" where
  "is_digit c \<longleftrightarrow> 48 \<le> char_code c \<and> char_code c \<le> 57"

definition digit_val :: "char \<Rightarrow> nat" where
  "digit_val c = char_code c - 48"

fun dec_string :: "nat \<Rightarrow> gostring" where
  "dec_string n = (if n < 10 then [digit_char n] else dec_string (n div 10) @ [digit_char (n mod 10)])"

declare dec_string.simps [simp del]

definition dec_value :: "gostring \<Rightarrow> nat" where
  "dec_value s = foldl (\<lambda>n c. n * 10 + digit_val c) 0 s"

lemma digit_char_simps [simp]:
  "d < 10 \<Longrightarrow> is_digit (digit_char d)" "d < 10 \<Longrightarrow> digit_val (digit_char d) = d"
  by (simp_all add: is_digit_def digit_val_def digit_char_def char_code_def)

lemma dec_string_digits: "\<forall>c \<in> set (dec_string n). is_digit c"
proof (induction n rule: dec_string.induct)
  case (1 n)
  then show ?case by (subst dec_string.simps) auto
qed

lemma dec_string_not_Nil [simp]: "dec_string n \<noteq> []"
  by (subst dec_string.simps) simp

lemma dec_value_snoc: "dec_value (s @ [c]) = dec_value s * 10 + digit_val c"
  by (simp add: dec_value_def)

lemma dec_value_dec_string [simp]: "dec_value (dec_string n) = n"
proof (induction n rule: dec_string.induct)
  case (1 n)
  show ?case
  proof (cases "n < 10")
    case True
    then show ?thesis by (subst dec_string.simps) (simp add: dec_value_def)
  next
    case False
    then show ?thesis using 1 by (subst dec_string.simps) (simp add: dec_value_snoc)
  qed
qed

section \<open>Integers\<close>

definition format_int :: "int64 \<Rightarrow> gostring" where
  "format_int w = (if sint w < 0 then CHR ''-'' # dec_string (nat (- sint w)) else dec_string (nat (sint w)))"

definition parse_uint :: "gostring \<Rightarrow> nat option" where
  "parse_uint s = (if s \<noteq> [] \<and> list_all is_digit s then Some (dec_value s) else None)"

definition split_sign :: "gostring \<Rightarrow> bool \<times> gostring" where
  "split_sign s = (case s of [] \<Rightarrow> (False, [])
     | c # cs \<Rightarrow> if c = CHR ''-'' then (True, cs) else if c = CHR ''+'' then (False, cs) else (False, s))"

text \<open>The result is \<open>None\<close> for a syntax error and for a value outside int64 alike.\<close>

definition parse_int :: "gostring \<Rightarrow> int64 option" where
  "parse_int s =
     (case split_sign s of (neg, t) \<Rightarrow>
        (case parse_uint t of None \<Rightarrow> None
         | Some n \<Rightarrow>
             if \<not> neg \<and> 2 ^ 63 \<le> n then None
             else if neg \<and> 2 ^ 63 < n then None
             else Some (word_of_int (if neg then - int n else int n))))"

lemma parse_uint_dec_string [simp]: "parse_uint (dec_string n) = Some n"
  using dec_string_digits [of n] by (simp add: parse_uint_def list_all_iff)

lemma split_sign_digits: "s \<noteq> [] \<Longrightarrow> list_all is_digit s \<Longrightarrow> split_sign s = (False, s)"
  by (cases s) (auto simp: split_sign_def is_digit_def char_code_def)

lemma split_sign_dec_string [simp]: "split_sign (dec_string n) = (False, dec_string n)"
  using dec_string_digits [of n] by (intro split_sign_digits) (auto simp: list_all_iff)

lemma int64_range: "- (2 ^ 63) \<le> sint (w :: int64)" "sint (w :: int64) < 2 ^ 63"
  using sint_greater_eq [of w] sint_less [of w] by simp_all

lemma parse_int_format_int [simp]: "parse_int (format_int w) = Some w"
proof (cases "sint w < 0")
  case True
  have "nat (- sint w) \<le> 2 ^ 63" using int64_range [of w] by (simp add: nat_le_iff)
  then show ?thesis using True
    by (simp add: format_int_def parse_int_def split_sign_def)
next
  case False
  have "nat (sint w) < 2 ^ 63" using int64_range [of w] by (simp add: nat_less_iff)
  then show ?thesis using False by (simp add: format_int_def parse_int_def)
qed

section \<open>Formatting doubles\<close>

text \<open>The magnitude nearest to \<open>m * b ^ e\<close>.\<close>

definition f64_scaled :: "nat \<Rightarrow> nat \<Rightarrow> int \<Rightarrow> nat" where
  "f64_scaled b m e =
     (if 0 \<le> e then f64_round (m * b ^ nat e * 2 ^ 1074) 1
      else f64_round (m * 2 ^ 1074) (b ^ nat (- e)))"

text \<open>
  The shortest decimal: the largest power of ten of which some multiple still reads back as
  the magnitude \<open>m\<close>; of the two multiples around the value the one that reads back, and the
  nearer of the two when both do. Precision 0 is the exact expansion of the value.
\<close>

definition f64_decimal_at :: "nat \<Rightarrow> int \<Rightarrow> nat option" where
  "f64_decimal_at m e =
     (let n = (if 0 \<le> e then f64_units m else f64_units m * 10 ^ nat (- e));
          d = (if 0 \<le> e then 10 ^ nat e * 2 ^ 1074 else 2 ^ 1074);
          lo = n div d;
          lo_ok = (f64_scaled 10 lo e = m); hi_ok = (f64_scaled 10 (lo + 1) e = m)
      in if lo_ok \<and> (\<not> hi_ok \<or> 2 * (n mod d) < d) then Some lo
         else if hi_ok then Some (lo + 1) else None)"

primrec f64_shortest :: "nat \<Rightarrow> nat \<Rightarrow> nat \<times> int" where
  "f64_shortest m 0 = (f64_units m * 5 ^ 1074, - 1074)"
| "f64_shortest m (Suc i) =
     (case f64_decimal_at m (int i - 1073) of Some d \<Rightarrow> (d, int i - 1073)
      | None \<Rightarrow> f64_shortest m i)"

definition pad_zeros :: "nat \<Rightarrow> gostring \<Rightarrow> gostring" where
  "pad_zeros k s = replicate (k - length s) (CHR ''0'') @ s"

definition plain_decimal :: "nat \<times> int \<Rightarrow> gostring" where
  "plain_decimal de = (case de of (d, e) \<Rightarrow>
     if 0 \<le> e then (if d = 0 then ''0'' else dec_string d @ replicate (nat e) (CHR ''0''))
     else (let k = nat (- e)
           in dec_string (d div 10 ^ k) @ CHR ''.'' # pad_zeros k (dec_string (d mod 10 ^ k))))"

definition format_float :: "float64 \<Rightarrow> gostring" where
  "format_float x =
     (if f64_is_nan x then ''NaN''
      else (if f64_neg x then ''-'' else if f64_is_inf x then ''+'' else []) @
           (if f64_is_inf x then ''Inf''
            else if f64_mag x = 0 then ''0''
            else plain_decimal (f64_shortest (f64_mag x) 1383)))"

section \<open>Parsing doubles\<close>

definition lower :: "char \<Rightarrow> char" where
  "lower c = (if 65 \<le> char_code c \<and> char_code c \<le> 90 then char_of (char_code c + 32) else c)"

definition is_hex_letter :: "char \<Rightarrow> bool" where
  "is_hex_letter c \<longleftrightarrow> 97 \<le> char_code (lower c) \<and> char_code (lower c) \<le> 102"

text \<open>Go's \<open>underscoreOK\<close>: the last character seen is one of \<open>^ 0 _ !\<close>.\<close>

fun underscore_scan :: "bool \<Rightarrow> char \<Rightarrow> gostring \<Rightarrow> bool" where
  "underscore_scan hex saw [] \<longleftrightarrow> saw \<noteq> CHR ''_''"
| "underscore_scan hex saw (c # cs) \<longleftrightarrow>
     (if is_digit c \<or> (hex \<and> is_hex_letter c) then underscore_scan hex (CHR ''0'') cs
      else if c = CHR ''_'' then saw = CHR ''0'' \<and> underscore_scan hex (CHR ''_'') cs
      else saw \<noteq> CHR ''_'' \<and> underscore_scan hex (CHR ''!'') cs)"

definition underscore_ok :: "gostring \<Rightarrow> bool" where
  "underscore_ok s =
     (case snd (split_sign s) of
        z # b # cs \<Rightarrow>
          if z = CHR ''0'' \<and> lower b \<in> {CHR ''b'', CHR ''o'', CHR ''x''}
          then underscore_scan (lower b = CHR ''x'') (CHR ''0'') cs
          else underscore_scan False (CHR ''^'') (z # b # cs)
      | t \<Rightarrow> underscore_scan False (CHR ''^'') t)"

text \<open>The mantissa: its value, the number of digits after the point, whether a digit was
  seen, and what is left.\<close>

fun scan_mantissa :: "bool \<Rightarrow> gostring \<Rightarrow> nat \<Rightarrow> int \<Rightarrow> bool \<Rightarrow> bool \<Rightarrow> nat \<times> int \<times> bool \<times> gostring" where
  "scan_mantissa hex [] m k dot dig = (m, k, dig, [])"
| "scan_mantissa hex (c # cs) m k dot dig =
     (if c = CHR ''_'' then scan_mantissa hex cs m k dot dig
      else if c = CHR ''.'' then
        (if dot then (m, k, dig, c # cs) else scan_mantissa hex cs m k True dig)
      else if is_digit c then
        scan_mantissa hex cs (m * (if hex then 16 else 10) + digit_val c) (if dot then k + 1 else k) dot True
      else if hex \<and> is_hex_letter c then
        scan_mantissa hex cs (m * 16 + (char_code (lower c) - 87)) (if dot then k + 1 else k) dot True
      else (m, k, dig, c # cs))"

text \<open>The exponent digits stop counting once the value has passed 10000.\<close>

fun scan_exponent :: "gostring \<Rightarrow> int \<Rightarrow> int \<times> gostring" where
  "scan_exponent [] e = (e, [])"
| "scan_exponent (c # cs) e =
     (if is_digit c then scan_exponent cs (if e < 10000 then e * 10 + int (digit_val c) else e)
      else if c = CHR ''_'' then scan_exponent cs e
      else (e, c # cs))"

definition parse_exponent :: "bool \<Rightarrow> gostring \<Rightarrow> (int \<times> gostring) option" where
  "parse_exponent hex s =
     (case s of [] \<Rightarrow> if hex then None else Some (0, [])
      | c # cs \<Rightarrow>
          if lower c = (if hex then CHR ''p'' else CHR ''e'') then
            (case split_sign cs of (neg, t) \<Rightarrow>
               (case t of [] \<Rightarrow> None
                | d # ds \<Rightarrow> if is_digit d then
                     (case scan_exponent t 0 of (e, r) \<Rightarrow> Some (if neg then - e else e, r))
                   else None))
          else if hex then None else Some (0, s))"

definition parse_special :: "gostring \<Rightarrow> float64 option" where
  "parse_special s =
     (case split_sign s of (neg, t) \<Rightarrow>
        if map lower t \<in> {''inf'', ''infinity''} then Some (f64_inf neg)
        else if map lower s = ''nan'' then Some f64_nan else None)"

definition parse_number :: "gostring \<Rightarrow> float64 option" where
  "parse_number s =
     (case split_sign s of (neg, t) \<Rightarrow>
      (let hex = (2 < length t \<and> hd t = CHR ''0'' \<and> lower (t ! 1) = CHR ''x'');
           u = (if hex then drop 2 t else t)
       in case scan_mantissa hex u 0 0 False False of (m, k, dig, r) \<Rightarrow>
          if \<not> dig then None
          else (case parse_exponent hex r of None \<Rightarrow> None
            | Some (e, rest) \<Rightarrow>
                if rest \<noteq> [] \<or> (CHR ''_'' \<in> set s \<and> \<not> underscore_ok s) then None
                else (let mag = (if hex then f64_scaled 2 m (e - 4 * k) else f64_scaled 10 m (e - k))
                      in if mag = f64_inf_mag then None else Some (f64_pack neg mag)))))"

definition parse_float :: "gostring \<Rightarrow> float64 option" where
  "parse_float s = (case parse_special s of Some x \<Rightarrow> Some x | None \<Rightarrow> parse_number s)"

section \<open>Formatting then parsing\<close>

text \<open>Every decimal the search returns reads back as the magnitude it was found for.\<close>

lemma f64_decimal_at_scaled: "f64_decimal_at m e = Some d \<Longrightarrow> f64_scaled 10 d e = m"
  by (auto simp: f64_decimal_at_def Let_def split: if_splits)

lemma f64_round_decimal: "f64_round (u * 5 ^ k * 2 ^ k) (10 ^ k) = f64_round u 1"
proof -
  have "(10 :: nat) ^ k = 5 ^ k * 2 ^ k" using power_mult_distrib [of "5 :: nat" 2 k] by simp
  then have "u * 5 ^ k * 2 ^ k = u * 10 ^ k" by (simp only: mult.assoc)
  moreover have "f64_round (u * 10 ^ k) (1 * 10 ^ k) = f64_round u 1"
    by (rule f64_round_scale) simp
  ultimately show ?thesis by (simp only: mult_1)
qed

lemma f64_exact_decimal:
  assumes "m \<le> f64_inf_mag"
  shows "f64_scaled 10 (f64_units m * 5 ^ 1074) (- 1074) = m"
proof -
  have neg: "\<not> (0 :: int) \<le> - 1074" and nat: "nat (- (- 1074)) = 1074" by simp_all
  show ?thesis
    by (simp only: f64_scaled_def neg nat if_False f64_round_decimal f64_round_units [OF assms])
qed

lemma f64_shortest_scaled:
  assumes "m \<le> f64_inf_mag"
  shows "f64_shortest m i = (d, e) \<Longrightarrow> f64_scaled 10 d e = m"
proof (induction i)
  case 0
  then have "d = f64_units m * 5 ^ 1074" and "e = - 1074"
    by (simp_all only: f64_shortest.simps prod.inject)
  then show ?case using f64_exact_decimal [OF assms] by (simp only:)
next
  case (Suc i)
  then show ?case by (auto split: option.splits dest: f64_decimal_at_scaled)
qed

text \<open>Scanning a run of digits.\<close>

lemma scan_mantissa_digits:
  "list_all is_digit s \<Longrightarrow>
   scan_mantissa False (s @ r) m k dot dig =
     scan_mantissa False r (foldl (\<lambda>n c. n * 10 + digit_val c) m s)
       (if dot then k + int (length s) else k) dot (dig \<or> s \<noteq> [])"
proof (induction s arbitrary: m k dig)
  case (Cons c s)
  then have "c \<noteq> CHR ''_''" and "c \<noteq> CHR ''.''" by (auto simp: is_digit_def char_code_def)
  with Cons show ?case by (simp add: add.assoc)
qed simp

lemma dec_value_append:
  "foldl (\<lambda>n c. n * 10 + digit_val c) m s = m * 10 ^ length s + dec_value s"
proof (induction s arbitrary: m rule: rev_induct)
  case (snoc c s)
  have "foldl (\<lambda>n c. n * 10 + digit_val c) m (s @ [c]) =
      (m * 10 ^ length s + dec_value s) * 10 + digit_val c" using snoc by simp
  then show ?case by (simp add: dec_value_snoc algebra_simps)
qed (simp add: dec_value_def)

lemma is_digit_0 [simp]: "is_digit (CHR ''0'')" "digit_val (CHR ''0'') = 0"
  by (simp_all add: is_digit_def digit_val_def char_code_def)

lemma dec_value_replicate_0: "dec_value (replicate n (CHR ''0'')) = 0"
  by (induction n) (simp_all add: dec_value_def)

lemma dec_value_pad [simp]: "dec_value (pad_zeros k s) = dec_value s"
  using dec_value_append [of 0 "replicate (k - length s) (CHR ''0'') @ s"]
    dec_value_append [of "dec_value (replicate (k - length s) (CHR ''0''))" s]
  by (simp add: pad_zeros_def dec_value_def) (simp add: dec_value_replicate_0 flip: dec_value_def)

lemma length_dec_string: "0 < k \<Longrightarrow> n < 10 ^ k \<Longrightarrow> length (dec_string n) \<le> k"
proof (induction n arbitrary: k rule: dec_string.induct)
  case (1 n)
  show ?case
  proof (cases "n < 10")
    case True
    then show ?thesis using "1.prems" by (subst dec_string.simps) simp
  next
    case False
    then obtain j where j: "k = Suc j" "0 < j" using "1.prems"
      by (metis less_Suc0 not0_implies_Suc not_less_eq power_Suc0_right)
    then have "n div 10 < 10 ^ j" using "1.prems"(2) by (simp add: less_mult_imp_div_less mult.commute)
    then have "length (dec_string (n div 10)) \<le> j" using False j "1.IH" by simp
    then show ?thesis using False j by (subst dec_string.simps) simp
  qed
qed

lemma pad_zeros_props:
  assumes "0 < k" and "n < 10 ^ k"
  shows "length (pad_zeros k (dec_string n)) = k" "list_all is_digit (pad_zeros k (dec_string n))"
  using length_dec_string [OF assms] dec_string_digits [of n]
  by (auto simp: pad_zeros_def list_all_iff)

text \<open>Scanning a plain decimal reads the digits back, with the point in place.\<close>

lemma scan_plain_decimal:
  assumes "0 < d"
  shows "\<exists>m k. scan_mantissa False (plain_decimal (d, e)) 0 0 False False = (m, k, True, [])
           \<and> f64_scaled 10 m (- k) = f64_scaled 10 d e"
proof (cases "0 \<le> e")
  case True
  let ?s = "dec_string d @ replicate (nat e) (CHR ''0'')"
  have "list_all is_digit ?s" using dec_string_digits [of d] by (auto simp: list_all_iff)
  then have "scan_mantissa False ?s 0 0 False False = (dec_value ?s, 0, True, [])"
    using scan_mantissa_digits [of ?s "[]" 0 0 False False] by (simp add: dec_value_def)
  moreover have "dec_value ?s = d * 10 ^ nat e"
    using dec_value_append [of "dec_value (dec_string d)" "replicate (nat e) (CHR ''0'')"]
    by (simp add: dec_value_replicate_0)
      (simp add: dec_value_def dec_value_dec_string [unfolded dec_value_def])
  ultimately show ?thesis using True assms by (simp add: plain_decimal_def f64_scaled_def)
next
  case False
  define k where "k = nat (- e)"
  have k: "0 < k" "e = - int k" using False by (simp_all add: k_def)
  let ?i = "dec_string (d div 10 ^ k)" and ?f = "pad_zeros k (dec_string (d mod 10 ^ k))"
  have f: "length ?f = k" "list_all is_digit ?f" using k(1) by (intro pad_zeros_props; simp)+
  have i: "list_all is_digit ?i" using dec_string_digits by (simp add: list_all_iff)
  have "plain_decimal (d, e) = ?i @ CHR ''.'' # ?f"
    using False by (simp add: plain_decimal_def k_def Let_def)
  moreover have "foldl (\<lambda>n c. n * 10 + digit_val c) (d div 10 ^ k) ?f = d"
    using f(1) by (simp add: dec_value_append) (simp only: div_mult_mod_eq)
  ultimately have "scan_mantissa False (plain_decimal (d, e)) 0 0 False False = (d, int k, True, [])"
    using scan_mantissa_digits [OF i, of "CHR ''.'' # ?f" 0 0 False False]
      scan_mantissa_digits [OF f(2), of "[]" "d div 10 ^ k" 0 True True] f(1) k(1)
    by (simp flip: dec_value_def)
  then show ?thesis using k(2) by auto
qed

text \<open>The characters of a formatted finite value: never a name and never a prefix.\<close>

definition plain_text :: "gostring \<Rightarrow> bool" where
  "plain_text t \<longleftrightarrow> t \<noteq> [] \<and> is_digit (hd t) \<and> (\<forall>c \<in> set t. is_digit c \<or> c = CHR ''.'')"

lemma plain_text_plain_decimal: "plain_text (plain_decimal (d, e))"
proof -
  have 1: "\<forall>c \<in> set (dec_string n). is_digit c" for n by (rule dec_string_digits)
  then have "is_digit (hd (dec_string n))" for n using hd_in_set dec_string_not_Nil by blast
  then show ?thesis using 1
    by (auto simp: plain_text_def plain_decimal_def pad_zeros_def Let_def)
qed

lemma plain_text_char: "is_digit c \<or> c = CHR ''.'' \<Longrightarrow>
    lower c = c \<and> c \<noteq> CHR ''x'' \<and> c \<noteq> CHR ''_'' \<and> c \<noteq> CHR ''i'' \<and> c \<noteq> CHR ''n''
     \<and> c \<noteq> CHR ''-'' \<and> c \<noteq> CHR ''+''"
  by (auto simp: lower_def is_digit_def char_code_def)

lemma plain_text_parse:
  assumes t: "plain_text t" and s: "s = (if neg then CHR ''-'' # t else t)"
  shows "split_sign s = (neg, t)" "parse_special s = None" "CHR ''_'' \<notin> set s"
    "\<not> (2 < length t \<and> hd t = CHR ''0'' \<and> lower (t ! 1) = CHR ''x'')"
proof -
  obtain c cs where c: "t = c # cs" using t by (auto simp: plain_text_def neq_Nil_conv)
  have all: "x \<in> set t \<Longrightarrow> lower x = x \<and> x \<noteq> CHR ''x'' \<and> x \<noteq> CHR ''_'' \<and> x \<noteq> CHR ''i'' \<and> x \<noteq> CHR ''n''
     \<and> x \<noteq> CHR ''-'' \<and> x \<noteq> CHR ''+''" for x
    using t plain_text_char by (auto simp: plain_text_def)
  show 1: "split_sign s = (neg, t)" using s c all by (auto simp: split_sign_def)
  have "hd (map lower t) = c" and "map lower t \<noteq> []" using c all by auto
  moreover have "lower (CHR ''-'') = CHR ''-''" by (simp add: lower_def char_code_def)
  ultimately show "parse_special s = None" using s c all [of c] 1
    by (auto simp: parse_special_def)
  show "CHR ''_'' \<notin> set s" using s all by auto
  show "\<not> (2 < length t \<and> hd t = CHR ''0'' \<and> lower (t ! 1) = CHR ''x'')"
    using all [OF nth_mem [of 1 t]] by auto
qed

lemma parse_plain_decimal:
  assumes "0 < d" and "f64_scaled 10 d e < f64_inf_mag"
  shows "parse_float ((if neg then ''-'' else []) @ plain_decimal (d, e))
           = Some (f64_pack neg (f64_scaled 10 d e))"
proof -
  let ?t = "plain_decimal (d, e)" let ?s = "(if neg then CHR ''-'' # ?t else ?t)"
  obtain m k where "scan_mantissa False ?t 0 0 False False = (m, k, True, [])"
    and "f64_scaled 10 m (- k) = f64_scaled 10 d e"
    using scan_plain_decimal [OF assms(1)] by blast
  moreover note plain_text_parse [where neg = neg, OF plain_text_plain_decimal [of d e] refl]
  ultimately have "parse_float ?s = Some (f64_pack neg (f64_scaled 10 d e))"
    using assms(2) by (auto simp: parse_float_def parse_number_def Let_def parse_exponent_def)
  then show ?thesis by (simp split: if_splits)
qed

lemma parse_float_format_float:
  assumes "\<not> f64_is_nan x"
  shows "parse_float (format_float x) = Some x"
proof (cases "f64_is_inf x")
  case True
  then have "f64_inf (f64_neg x) = x" using f64_pack_eq [of x] by (simp add: f64_inf_def f64_is_inf_def)
  moreover have "format_float x = (if f64_neg x then ''-Inf'' else ''+Inf'')"
    using assms True by (simp add: format_float_def)
  moreover have "parse_special ''-Inf'' = Some (f64_inf True)" "parse_special ''+Inf'' = Some (f64_inf False)"
    by (simp_all add: parse_special_def split_sign_def lower_def char_code_def char_of_def bit_iff_odd)
  ultimately show ?thesis by (cases "f64_neg x") (simp_all add: parse_float_def)
next
  case False
  then have fin: "f64_mag x < f64_inf_mag" using assms by (auto simp: f64_is_nan_def f64_is_inf_def)
  show ?thesis
  proof (cases "f64_mag x = 0")
    case True
    have "plain_text ''0''" by (simp add: plain_text_def)
    note plain_text_parse [where neg = "f64_neg x", OF this refl]
    moreover have "f64_scaled 10 0 0 = 0" by (simp add: f64_scaled_def)
    moreover have "f64_pack (f64_neg x) 0 = x" using f64_pack_eq [of x] True by simp
    ultimately show ?thesis using True False assms
      by (auto simp: format_float_def parse_float_def parse_number_def parse_exponent_def
            f64_inf_mag_def)
  next
    case nz: False
    obtain d e where de: "f64_shortest (f64_mag x) 1383 = (d, e)" by (cases "f64_shortest (f64_mag x) 1383")
    then have sc: "f64_scaled 10 d e = f64_mag x" using f64_shortest_scaled fin by simp
    have "d \<noteq> 0" using sc nz by (intro notI) (simp add: f64_scaled_def split: if_splits)
    then show ?thesis using parse_plain_decimal [of d e "f64_neg x"] sc fin assms False nz de
      by (simp add: format_float_def split: if_splits)
  qed
qed

end
