(* ===== verification/GoDigest.thy ===== *)
theory GoDigest
  imports Prelude
begin

text \<open>
  What the code uses of \<open>crypto/md5\<close> and \<open>crypto/sha256\<close>: the digest of a whole byte
  string, on 32-bit words as RFC 1321 and FIPS 180-4 define them. The properties rest on the
  length of a digest only.
\<close>

unbundle bit_operations_syntax

type_synonym u32 = "32 word"

section \<open>Bytes and words\<close>

definition byte :: "nat \<Rightarrow> char" where
  "byte n = char_of (n mod 256)"

definition be_bytes :: "u32 \<Rightarrow> gostring" where
  "be_bytes w = map (\<lambda>i. byte (unat w div 256 ^ i)) [3, 2, 1, 0]"

definition le_bytes :: "u32 \<Rightarrow> gostring" where
  "le_bytes w = map (\<lambda>i. byte (unat w div 256 ^ i)) [0, 1, 2, 3]"

fun be_words :: "gostring \<Rightarrow> u32 list" where
  "be_words (a # b # c # d # r) =
     word_of_nat (((of_char a * 256 + of_char b) * 256 + of_char c) * 256 + of_char d) # be_words r"
| "be_words _ = []"

fun le_words :: "gostring \<Rightarrow> u32 list" where
  "le_words (a # b # c # d # r) =
     word_of_nat (((of_char d * 256 + of_char c) * 256 + of_char b) * 256 + of_char a) # le_words r"
| "le_words _ = []"

text \<open>The padding: a one bit, zeros up to 8 bytes short of a block, the length in bits.\<close>

definition pad_message :: "gostring \<Rightarrow> gostring \<Rightarrow> gostring" where
  "pad_message s len8 = s @ byte 128 # replicate ((119 - length s mod 64) mod 64) (byte 0) @ len8"

definition len_bytes :: "nat \<Rightarrow> nat list \<Rightarrow> gostring" where
  "len_bytes n is = map (\<lambda>i. byte (8 * n div 256 ^ i)) is"

text \<open>The message in blocks of 16 words; the fuel is the number of words, more than the
  number of blocks.\<close>

primrec blocks :: "nat \<Rightarrow> u32 list \<Rightarrow> u32 list list" where
  "blocks 0 ws = []"
| "blocks (Suc n) ws = (if length ws < 16 then [] else take 16 ws # blocks n (drop 16 ws))"

section \<open>MD5\<close>

definition md5_k :: "u32 list" where
  "md5_k = [
     3614090360, 3905402710, 606105819, 3250441966, 4118548399, 1200080426, 2821735955,
     4249261313, 1770035416, 2336552879, 4294925233, 2304563134, 1804603682, 4254626195,
     2792965006, 1236535329, 4129170786, 3225465664, 643717713, 3921069994, 3593408605, 38016083,
     3634488961, 3889429448, 568446438, 3275163606, 4107603335, 1163531501, 2850285829,
     4243563512, 1735328473, 2368359562, 4294588738, 2272392833, 1839030562, 4259657740,
     2763975236, 1272893353, 4139469664, 3200236656, 681279174, 3936430074, 3572445317, 76029189,
     3654602809, 3873151461, 530742520, 3299628645, 4096336452, 1126891415, 2878612391,
     4237533241, 1700485571, 2399980690, 4293915773, 2240044497, 1873313359, 4264355552,
     2734768916, 1309151649, 4149444226, 3174756917, 718787259, 3951481745]"

definition md5_s :: "nat list" where
  "md5_s = concat (replicate 4 [7, 12, 17, 22]) @ concat (replicate 4 [5, 9, 14, 20])
     @ concat (replicate 4 [4, 11, 16, 23]) @ concat (replicate 4 [6, 10, 15, 21])"

definition md5_f :: "nat \<Rightarrow> u32 \<Rightarrow> u32 \<Rightarrow> u32 \<Rightarrow> u32 \<times> nat" where
  "md5_f i b c d =
     (if i < 16 then ((b AND c) OR (NOT b AND d), i)
      else if i < 32 then ((d AND b) OR (NOT d AND c), (5 * i + 1) mod 16)
      else if i < 48 then (b XOR c XOR d, (3 * i + 5) mod 16)
      else (c XOR (b OR NOT d), (7 * i) mod 16))"

fun md5_rounds :: "u32 list \<Rightarrow> nat list \<Rightarrow> u32 \<times> u32 \<times> u32 \<times> u32 \<Rightarrow> u32 \<times> u32 \<times> u32 \<times> u32" where
  "md5_rounds ms [] st = st"
| "md5_rounds ms (i # is) (a, b, c, d) =
     (case md5_f i b c d of (f, g) \<Rightarrow>
        md5_rounds ms is
          (d, b + word_rotl (md5_s ! i) (a + f + md5_k ! i + ms ! g), b, c))"

fun md5_blocks :: "u32 list list \<Rightarrow> u32 \<times> u32 \<times> u32 \<times> u32 \<Rightarrow> u32 \<times> u32 \<times> u32 \<times> u32" where
  "md5_blocks [] st = st"
| "md5_blocks (m # ms) (a, b, c, d) =
     (case md5_rounds m [0..<64] (a, b, c, d) of (a', b', c', d') \<Rightarrow>
        md5_blocks ms (a + a', b + b', c + c', d + d'))"

definition md5 :: "gostring \<Rightarrow> gostring" where
  "md5 s =
     (let ws = le_words (pad_message s (len_bytes (length s) [0, 1, 2, 3, 4, 5, 6, 7]))
      in case md5_blocks (blocks (length ws) ws) (1732584193, 4023233417, 2562383102, 271733878) of
           (a, b, c, d) \<Rightarrow> le_bytes a @ le_bytes b @ le_bytes c @ le_bytes d)"

section \<open>SHA-256\<close>

definition sha256_k :: "u32 list" where
  "sha256_k = [
     1116352408, 1899447441, 3049323471, 3921009573, 961987163, 1508970993, 2453635748,
     2870763221, 3624381080, 310598401, 607225278, 1426881987, 1925078388, 2162078206,
     2614888103, 3248222580, 3835390401, 4022224774, 264347078, 604807628, 770255983, 1249150122,
     1555081692, 1996064986, 2554220882, 2821834349, 2952996808, 3210313671, 3336571891,
     3584528711, 113926993, 338241895, 666307205, 773529912, 1294757372, 1396182291, 1695183700,
     1986661051, 2177026350, 2456956037, 2730485921, 2820302411, 3259730800, 3345764771,
     3516065817, 3600352804, 4094571909, 275423344, 430227734, 506948616, 659060556, 883997877,
     958139571, 1322822218, 1537002063, 1747873779, 1955562222, 2024104815, 2227730452,
     2361852424, 2428436474, 2756734187, 3204031479, 3329325298]"

definition sha256_h :: "u32 list" where
  "sha256_h = [
     1779033703, 3144134277, 1013904242, 2773480762, 1359893119, 2600822924, 528734635, 1541459225]"

text \<open>The schedule, newest word first.\<close>

primrec sha256_extend :: "nat \<Rightarrow> u32 list \<Rightarrow> u32 list" where
  "sha256_extend 0 ws = ws"
| "sha256_extend (Suc n) ws =
     (let w15 = ws ! 14; w2 = ws ! 1;
          s0 = word_rotr 7 w15 XOR word_rotr 18 w15 XOR drop_bit 3 w15;
          s1 = word_rotr 17 w2 XOR word_rotr 19 w2 XOR drop_bit 10 w2
      in sha256_extend n ((ws ! 15 + s0 + ws ! 6 + s1) # ws))"

fun sha256_rounds :: "(u32 \<times> u32) list \<Rightarrow> u32 list \<Rightarrow> u32 list" where
  "sha256_rounds ((k, w) # r) [a, b, c, d, e, f, g, h] =
     (let s1 = word_rotr 6 e XOR word_rotr 11 e XOR word_rotr 25 e;
          ch = (e AND f) XOR (NOT e AND g);
          t1 = h + s1 + ch + k + w;
          s0 = word_rotr 2 a XOR word_rotr 13 a XOR word_rotr 22 a;
          maj = (a AND b) XOR (a AND c) XOR (b AND c)
      in sha256_rounds r [t1 + s0 + maj, a, b, c, d + t1, e, f, g])"
| "sha256_rounds _ st = st"

fun sha256_blocks :: "u32 list list \<Rightarrow> u32 list \<Rightarrow> u32 list" where
  "sha256_blocks [] st = st"
| "sha256_blocks (m # ms) st =
     sha256_blocks ms
       (map2 (+) st (sha256_rounds (zip sha256_k (rev (sha256_extend 48 (rev m)))) st))"

definition sha256 :: "gostring \<Rightarrow> gostring" where
  "sha256 s =
     (let ws = be_words (pad_message s (len_bytes (length s) [7, 6, 5, 4, 3, 2, 1, 0]))
      in concat (map be_bytes (sha256_blocks (blocks (length ws) ws) sha256_h)))"

section \<open>Lengths\<close>

lemma length_be_bytes [simp]: "length (be_bytes w) = 4"
  by (simp add: be_bytes_def)

lemma length_le_bytes [simp]: "length (le_bytes w) = 4"
  by (simp add: le_bytes_def)

lemma length_md5 [simp]: "length (md5 s) = 16"
  by (simp add: md5_def Let_def split: prod.splits)

lemma length_sha256_rounds: "length (sha256_rounds kws st) = length st"
  by (induction kws st rule: sha256_rounds.induct) (simp_all add: Let_def)

lemma length_sha256_blocks: "length (sha256_blocks ms st) = length st"
  by (induction ms st rule: sha256_blocks.induct) (simp_all add: length_sha256_rounds)

lemma length_sha256 [simp]: "length (sha256 s) = 32"
proof -
  have "length (concat (map be_bytes ws)) = 4 * length ws" for ws by (induction ws) simp_all
  then show ?thesis
    by (simp add: sha256_def Let_def length_sha256_blocks sha256_h_def)
qed

end
