(* ===== verification/Metrics.thy ===== *)
theory Metrics
  imports GoStrconv GoDigest
begin

text \<open>
  The metric value of \<open>internal/model/metrics.go\<close>: the \<open>Metrics\<close> struct (a nil \<open>Delta\<close> or
  \<open>Value\<close> pointer is \<open>None\<close>), its constructors, the two updates and the renderings. The
  lemmas say what each operation leaves in every field, and that the stored hash is always
  the hash of the other fields.
\<close>

definition Counter :: gostring where
  "Counter = ''counter''"

definition Gauge :: gostring where
  "Gauge = ''gauge''"

record metrics =
  m_ID :: gostring
  m_MType :: gostring
  m_Delta :: "int64 option"
  m_Value :: "float64 option"
  m_Hash :: gostring

section \<open>Hash\<close>

text \<open>\<open>strings.Join(parts, sep)\<close>.\<close>

fun strings_join :: "gostring list \<Rightarrow> gostring \<Rightarrow> gostring" where
  "strings_join [] sep = []"
| "strings_join [p] sep = p"
| "strings_join (p # q # ps) sep = p @ sep @ strings_join (q # ps) sep"

definition hash_parts :: "metrics \<Rightarrow> gostring list" where
  "hash_parts m =
     [m_ID m, m_MType m,
      (case m_Delta m of None \<Rightarrow> ''nil'' | Some d \<Rightarrow> format_int d),
      (case m_Value m of None \<Rightarrow> ''nil'' | Some v \<Rightarrow> format_float v)]"

definition updateHash :: "metrics \<Rightarrow> metrics" where
  "updateHash m = m\<lparr>m_Hash := md5 (strings_join (hash_parts m) ''#'')\<rparr>"

section \<open>Constructors\<close>

definition NewMetrics :: "gostring \<Rightarrow> gostring \<Rightarrow> int64 option \<Rightarrow> float64 option \<Rightarrow> metrics" where
  "NewMetrics i t d v =
     updateHash \<lparr>m_ID = i, m_MType = t, m_Delta = d, m_Value = v, m_Hash = []\<rparr>"

definition NewGaugeMetrics :: "gostring \<Rightarrow> metrics" where
  "NewGaugeMetrics i =
     updateHash \<lparr>m_ID = i, m_MType = Gauge, m_Delta = None, m_Value = None, m_Hash = []\<rparr>"

definition NewCounterMetrics :: "gostring \<Rightarrow> metrics" where
  "NewCounterMetrics i =
     updateHash \<lparr>m_ID = i, m_MType = Counter, m_Delta = None, m_Value = None, m_Hash = []\<rparr>"

definition NewGaugeMetricsWithValue :: "gostring \<Rightarrow> float64 \<Rightarrow> metrics" where
  "NewGaugeMetricsWithValue i v =
     updateHash \<lparr>m_ID = i, m_MType = Gauge, m_Delta = None, m_Value = Some v, m_Hash = []\<rparr>"

definition NewCounterMetricsWithDelta :: "gostring \<Rightarrow> int64 \<Rightarrow> metrics" where
  "NewCounterMetricsWithDelta i d =
     updateHash \<lparr>m_ID = i, m_MType = Counter, m_Delta = Some d, m_Value = None, m_Hash = []\<rparr>"

section \<open>Updates\<close>

definition Metrics_SetGauge :: "metrics \<Rightarrow> float64 \<Rightarrow> metrics" where
  "Metrics_SetGauge m v = updateHash (m\<lparr>m_Value := Some v\<rparr>)"

definition Metrics_AddCounter :: "metrics \<Rightarrow> int64 \<Rightarrow> metrics" where
  "Metrics_AddCounter m d =
     updateHash (case m_Delta m of None \<Rightarrow> m\<lparr>m_Delta := Some d\<rparr>
                 | Some old \<Rightarrow> m\<lparr>m_Delta := Some (old + d)\<rparr>)"

definition StringValue :: "metrics \<Rightarrow> gostring" where
  "StringValue m =
     (if m_MType m = Counter then
        (case m_Delta m of None \<Rightarrow> ''N/A'' | Some d \<Rightarrow> format_int d)
      else if m_MType m = Gauge then
        (case m_Value m of None \<Rightarrow> ''N/A'' | Some v \<Rightarrow> format_float v)
      else ''N/A'')"

section \<open>Lemmas\<close>

named_theorems metrics_defs \<open>the definitions of the metric operations\<close>

lemmas [metrics_defs] = NewMetrics_def NewGaugeMetrics_def NewCounterMetrics_def
  NewGaugeMetricsWithValue_def NewCounterMetricsWithDelta_def Metrics_SetGauge_def Metrics_AddCounter_def

lemma Counter_neq_Gauge [simp]: "Counter \<noteq> Gauge" "Gauge \<noteq> Counter"
  by (simp_all add: Counter_def Gauge_def)

lemma Counter_Gauge_not_Nil [simp]: "Counter \<noteq> []" "Gauge \<noteq> []"
  by (simp_all add: Counter_def Gauge_def)

lemma updateHash_fields [simp]:
  "m_ID (updateHash m) = m_ID m" "m_MType (updateHash m) = m_MType m"
  "m_Delta (updateHash m) = m_Delta m" "m_Value (updateHash m) = m_Value m"
  by (simp_all add: updateHash_def)

lemma new_metrics_fields [simp]:
  "m_ID (NewMetrics i t d v) = i" "m_MType (NewMetrics i t d v) = t"
  "m_Delta (NewMetrics i t d v) = d" "m_Value (NewMetrics i t d v) = v"
  by (simp_all add: metrics_defs)

lemma new_gauge_fields [simp]:
  "m_ID (NewGaugeMetricsWithValue i v) = i" "m_MType (NewGaugeMetricsWithValue i v) = Gauge"
  "m_Delta (NewGaugeMetricsWithValue i v) = None" "m_Value (NewGaugeMetricsWithValue i v) = Some v"
  by (simp_all add: metrics_defs)

lemma new_counter_fields [simp]:
  "m_ID (NewCounterMetricsWithDelta i d) = i" "m_MType (NewCounterMetricsWithDelta i d) = Counter"
  "m_Delta (NewCounterMetricsWithDelta i d) = Some d" "m_Value (NewCounterMetricsWithDelta i d) = None"
  by (simp_all add: metrics_defs)

lemma set_gauge_fields [simp]:
  "m_ID (Metrics_SetGauge m v) = m_ID m" "m_MType (Metrics_SetGauge m v) = m_MType m"
  "m_Delta (Metrics_SetGauge m v) = m_Delta m" "m_Value (Metrics_SetGauge m v) = Some v"
  by (simp_all add: metrics_defs)

text \<open>A counter that holds nothing counts as 0.\<close>

definition delta_or_0 :: "int64 option \<Rightarrow> int64" where
  "delta_or_0 d = (case d of None \<Rightarrow> 0 | Some x \<Rightarrow> x)"

lemma delta_or_0_simps [simp]: "delta_or_0 None = 0" "delta_or_0 (Some x) = x"
  by (simp_all add: delta_or_0_def)

lemma add_counter_fields [simp]:
  "m_ID (Metrics_AddCounter m d) = m_ID m" "m_MType (Metrics_AddCounter m d) = m_MType m"
  "m_Delta (Metrics_AddCounter m d) = Some (delta_or_0 (m_Delta m) + d)"
  "m_Value (Metrics_AddCounter m d) = m_Value m"
  by (simp_all add: metrics_defs split: option.splits)

text \<open>The hash is always that of the other fields.\<close>

definition hash_ok :: "metrics \<Rightarrow> bool" where
  "hash_ok m \<longleftrightarrow> m_Hash m = md5 (strings_join (hash_parts m) ''#'')"

lemma hash_ok_updateHash [simp]: "hash_ok (updateHash m)"
  by (simp add: hash_ok_def updateHash_def hash_parts_def)

lemma hash_ok_ops [simp]:
  "hash_ok (NewMetrics i t d v)" "hash_ok (NewGaugeMetricsWithValue i u)"
  "hash_ok (NewCounterMetricsWithDelta i c)" "hash_ok (Metrics_SetGauge m u)"
  "hash_ok (Metrics_AddCounter m c)"
  by (simp_all add: metrics_defs)

text \<open>Two metrics with consistent hashes and the same four fields are the same metric.\<close>

lemma metrics_eqI:
  assumes "hash_ok m" "hash_ok n" "m_ID m = m_ID n" "m_MType m = m_MType n"
    "m_Delta m = m_Delta n" "m_Value m = m_Value n"
  shows "m = (n :: metrics)"
  using assms by (cases m, cases n) (simp add: hash_ok_def hash_parts_def)

lemma NewMetrics_eta: "hash_ok m \<Longrightarrow> NewMetrics (m_ID m) (m_MType m) (m_Delta m) (m_Value m) = m"
  by (rule metrics_eqI) simp_all

text \<open>Increments compose: adding twice is adding the (wrapping) sum.\<close>

lemma add_counter_twice: "Metrics_AddCounter (Metrics_AddCounter m c) d = Metrics_AddCounter m (c + d)"
  by (rule metrics_eqI) (simp_all add: add.assoc)

lemma set_gauge_twice: "Metrics_SetGauge (Metrics_SetGauge m v) w = Metrics_SetGauge m w"
  by (rule metrics_eqI) simp_all

end
