(* ===== verification/Accumulator.thy ===== *)
theory Accumulator
  imports Metrics
begin

text \<open>
  \<open>internal/agent/accumulation\<close>: the accumulator that collects the polled values of one
  metric between reports (\<open>accumulator.go\<close>) and the agent's table of accumulators
  (\<open>storage.go\<close>). Staging takes the collected values out for sending; a commit forgets them,
  a rollback puts them back in front of what was polled meanwhile. The lemmas give the
  invariant of an accumulator and the ledger: whatever the order of polls, stagings, commits
  and rollbacks, every polled value is pending or in exactly one committed report.
\<close>

record accumulator =
  ma_ID :: gostring
  ma_MType :: gostring
  ma_Delta :: "int64 option"
  ma_Values :: "float64 list"
  ma_isStaged :: bool
  ma_stagedDelta :: int64
  ma_stagedValues :: "float64 list"

definition NewMetricAccumulator :: "gostring \<Rightarrow> accumulator" where
  "NewMetricAccumulator i =
     \<lparr>ma_ID = i, ma_MType = [], ma_Delta = None, ma_Values = [], ma_isStaged = False,
      ma_stagedDelta = 0, ma_stagedValues = []\<rparr>"

definition AccumulateCounter :: "int64 \<Rightarrow> accumulator \<Rightarrow> goerror option \<times> accumulator" where
  "AccumulateCounter inc a =
     (let a = (if length (ma_MType a) = 0 then a\<lparr>ma_MType := Counter\<rparr> else a)
      in if ma_MType a \<noteq> Counter then
           (Some (errorf [] (Sentinel ErrIncorrectMetricType) ('': expected counter, got '' @ ma_MType a)), a)
         else (None, case ma_Delta a of None \<Rightarrow> a\<lparr>ma_Delta := Some inc\<rparr>
                     | Some d \<Rightarrow> a\<lparr>ma_Delta := Some (d + inc)\<rparr>))"

definition AccumulateGauge :: "float64 \<Rightarrow> accumulator \<Rightarrow> goerror option \<times> accumulator" where
  "AccumulateGauge v a =
     (let a = (if length (ma_MType a) = 0 then a\<lparr>ma_MType := Gauge\<rparr> else a)
      in if ma_MType a \<noteq> Gauge then
           (Some (errorf [] (Sentinel ErrIncorrectMetricType) ('': expected gauge, got '' @ ma_MType a)), a)
         else (None, a\<lparr>ma_Values := ma_Values a @ [v]\<rparr>))"

definition stageCounterChanges :: "accumulator \<Rightarrow> metrics option \<times> accumulator" where
  "stageCounterChanges a =
     (case ma_Delta a of
        None \<Rightarrow> (None, a)
      | Some d \<Rightarrow>
          (Some (NewMetrics (ma_ID a) (ma_MType a) (Some d) None),
           a\<lparr>ma_isStaged := True, ma_stagedDelta := d, ma_Delta := None\<rparr>))"

text \<open>The reported gauge is the sum of the values, from \<open>0\<close> and in order, over their number.\<close>

definition average :: "float64 list \<Rightarrow> float64" where
  "average vs = f64_div (foldl f64_add f64_zero vs) (f64_of_nat (length vs))"

definition stageGaugeChanges :: "accumulator \<Rightarrow> metrics option \<times> accumulator" where
  "stageGaugeChanges a =
     (if length (ma_Values a) = 0 then (None, a)
      else (Some (NewMetrics (ma_ID a) (ma_MType a) None (Some (average (ma_Values a)))),
            a\<lparr>ma_isStaged := True, ma_stagedValues := ma_Values a, ma_Values := []\<rparr>))"

definition StageChanges :: "accumulator \<Rightarrow> (goerror + metrics option) \<times> accumulator" where
  "StageChanges a =
     (if ma_isStaged a then (Inl (Sentinel ErrWrongStagingState), a)
      else if ma_MType a = Counter then (case stageCounterChanges a of (m, a') \<Rightarrow> (Inr m, a'))
      else if ma_MType a = Gauge then (case stageGaugeChanges a of (m, a') \<Rightarrow> (Inr m, a'))
      else (Inl (Sentinel ErrUnknownMetricType), a))"

definition rollbackStagedCounter :: "accumulator \<Rightarrow> accumulator" where
  "rollbackStagedCounter a =
     (let a = a\<lparr>ma_isStaged := False\<rparr>;
          a = (case ma_Delta a of None \<Rightarrow> a\<lparr>ma_Delta := Some (ma_stagedDelta a)\<rparr>
               | Some d \<Rightarrow> a\<lparr>ma_Delta := Some (d + ma_stagedDelta a)\<rparr>)
      in a\<lparr>ma_stagedDelta := 0\<rparr>)"

definition rollbackStagedGauge :: "accumulator \<Rightarrow> accumulator" where
  "rollbackStagedGauge a =
     a\<lparr>ma_isStaged := False, ma_Values := ma_stagedValues a @ ma_Values a, ma_stagedValues := []\<rparr>"

definition RollbackStaged :: "accumulator \<Rightarrow> goerror option \<times> accumulator" where
  "RollbackStaged a =
     (if \<not> ma_isStaged a then (None, a)
      else (None, if ma_MType a = Counter then rollbackStagedCounter a
                  else if ma_MType a = Gauge then rollbackStagedGauge a
                  else a\<lparr>ma_isStaged := False\<rparr>))"

definition CommitStaged :: "accumulator \<Rightarrow> goerror option \<times> accumulator" where
  "CommitStaged a =
     (if \<not> ma_isStaged a then (Some (Sentinel ErrWrongStagingState), a)
      else (None, (if ma_MType a = Counter then a\<lparr>ma_stagedDelta := 0\<rparr>
                   else if ma_MType a = Gauge then a\<lparr>ma_stagedValues := []\<rparr> else a)\<lparr>ma_isStaged := False\<rparr>))"

section \<open>The table of accumulators\<close>

record acc_storage =
  accums :: "accumulator dict"

definition NewAccumulatorStorage :: acc_storage where
  "NewAccumulatorStorage = \<lparr>accums = []\<rparr>"

definition GetOrNew :: "gostring \<Rightarrow> acc_storage \<Rightarrow> accumulator \<times> acc_storage" where
  "GetOrNew i st =
     (case dict_get (accums st) i of
        None \<Rightarrow> (NewMetricAccumulator i, st\<lparr>accums := dict_put (accums st) i (NewMetricAccumulator i)\<rparr>)
      | Some a \<Rightarrow> (a, st))"

definition acc_Get :: "gostring \<Rightarrow> acc_storage \<Rightarrow> accumulator option" where
  "acc_Get i st = dict_get (accums st) i"

definition GetAll :: "acc_storage \<Rightarrow> accumulator list" where
  "GetAll st = map snd (accums st)"

definition acc_Length :: "acc_storage \<Rightarrow> nat" where
  "acc_Length st = length (accums st)"

text \<open>The callers change an accumulator through the pointer they got: the entry is replaced.\<close>

definition acc_store :: "gostring \<Rightarrow> accumulator \<Rightarrow> acc_storage \<Rightarrow> acc_storage" where
  "acc_store i a st = st\<lparr>accums := dict_put (accums st) i a\<rparr>"

section \<open>The invariant of an accumulator\<close>

text \<open>An accumulator has no type until the first poll and one type from then on; it collects
  values of its type only, and holds staged values only while it is staged.\<close>

definition acc_ok :: "accumulator \<Rightarrow> bool" where
  "acc_ok a \<longleftrightarrow>
     (ma_MType a = [] \<longrightarrow> ma_Delta a = None \<and> ma_Values a = [] \<and> \<not> ma_isStaged a) \<and>
     (ma_MType a = Counter \<longrightarrow> ma_Values a = [] \<and> ma_stagedValues a = []) \<and>
     (ma_MType a = Gauge \<longrightarrow> ma_Delta a = None \<and> ma_stagedDelta a = 0 \<and>
        (ma_isStaged a \<longrightarrow> ma_stagedValues a \<noteq> [])) \<and>
     (\<not> ma_isStaged a \<longrightarrow> ma_stagedDelta a = 0 \<and> ma_stagedValues a = []) \<and>
     (ma_MType a = [] \<or> ma_MType a = Counter \<or> ma_MType a = Gauge)"

named_theorems acc_defs \<open>the operations of an accumulator\<close>

lemmas [acc_defs] = NewMetricAccumulator_def AccumulateCounter_def AccumulateGauge_def StageChanges_def
  stageCounterChanges_def stageGaugeChanges_def RollbackStaged_def rollbackStagedCounter_def
  rollbackStagedGauge_def CommitStaged_def

lemma acc_ok_new [simp]: "acc_ok (NewMetricAccumulator i)"
  by (simp add: acc_ok_def acc_defs)

lemma acc_ok_counter: "acc_ok a \<Longrightarrow> acc_ok (snd (AccumulateCounter inc a))"
  by (auto simp: acc_ok_def acc_defs Let_def split: option.splits)

lemma acc_ok_gauge: "acc_ok a \<Longrightarrow> acc_ok (snd (AccumulateGauge v a))"
  by (auto simp: acc_ok_def acc_defs Let_def)

lemma acc_ok_stage: "acc_ok a \<Longrightarrow> acc_ok (snd (StageChanges a))"
  by (auto simp: acc_ok_def acc_defs split: option.splits)

lemma acc_ok_rollback: "acc_ok a \<Longrightarrow> acc_ok (snd (RollbackStaged a))"
  by (auto simp: acc_ok_def acc_defs Let_def split: option.splits)

lemma acc_ok_commit: "acc_ok a \<Longrightarrow> acc_ok (snd (CommitStaged a))"
  by (auto simp: acc_ok_def acc_defs)

lemmas acc_ok_ops = acc_ok_counter acc_ok_gauge acc_ok_stage acc_ok_rollback acc_ok_commit

lemma acc_ID_ops [simp]:
  "ma_ID (snd (AccumulateCounter inc a)) = ma_ID a" "ma_ID (snd (AccumulateGauge v a)) = ma_ID a"
  "ma_ID (snd (StageChanges a)) = ma_ID a" "ma_ID (snd (RollbackStaged a)) = ma_ID a"
  "ma_ID (snd (CommitStaged a)) = ma_ID a"
  by (auto simp: acc_defs Let_def split: option.splits)

section \<open>Pending values\<close>

text \<open>What an accumulator still owes the server: the staged and the collected increments, and
  the staged and the collected values in the order of the polls.\<close>

definition pending_delta :: "accumulator \<Rightarrow> int64" where
  "pending_delta a = ma_stagedDelta a + delta_or_0 (ma_Delta a)"

definition pending_values :: "accumulator \<Rightarrow> float64 list" where
  "pending_values a = ma_stagedValues a @ ma_Values a"

lemma pending_new [simp]:
  "pending_delta (NewMetricAccumulator i) = 0" "pending_values (NewMetricAccumulator i) = []"
  by (simp_all add: pending_delta_def pending_values_def acc_defs)

lemma pending_counter:
  "pending_delta (snd (AccumulateCounter inc a)) =
     pending_delta a + (if fst (AccumulateCounter inc a) = None then inc else 0)"
  "pending_values (snd (AccumulateCounter inc a)) = pending_values a"
  by (auto simp: pending_delta_def pending_values_def AccumulateCounter_def Let_def split: option.splits)

lemma pending_gauge:
  "pending_values (snd (AccumulateGauge v a)) =
     pending_values a @ (if fst (AccumulateGauge v a) = None then [v] else [])"
  "pending_delta (snd (AccumulateGauge v a)) = pending_delta a"
  by (auto simp: pending_delta_def pending_values_def AccumulateGauge_def Let_def)

lemma pending_stage:
  assumes "acc_ok a"
  shows "pending_delta (snd (StageChanges a)) = pending_delta a"
    "pending_values (snd (StageChanges a)) = pending_values a"
  using assms
  by (auto simp: acc_ok_def pending_delta_def pending_values_def StageChanges_def stageCounterChanges_def
      stageGaugeChanges_def split: option.splits)

lemma pending_rollback:
  assumes "acc_ok a"
  shows "pending_delta (snd (RollbackStaged a)) = pending_delta a"
    "pending_values (snd (RollbackStaged a)) = pending_values a"
  using assms
  by (auto simp: acc_ok_def pending_delta_def pending_values_def RollbackStaged_def rollbackStagedCounter_def
      rollbackStagedGauge_def Let_def split: option.splits)

lemma pending_commit:
  assumes "acc_ok a" and "fst (CommitStaged a) = None"
  shows "pending_delta a = ma_stagedDelta a + pending_delta (snd (CommitStaged a))"
    "pending_values a = ma_stagedValues a @ pending_values (snd (CommitStaged a))"
  using assms
  by (auto simp: acc_ok_def pending_delta_def pending_values_def CommitStaged_def split: if_splits)

section \<open>The ledger of an accumulator\<close>

text \<open>
  A history of one accumulator: polls, stagings, commits and rollbacks, in the order in which
  they got its mutex. Beside the accumulator runs a ledger, which changes nothing and records
  what was polled without an error, the report that the last successful staging handed out,
  and the reports that were committed (with the values a committed gauge stands for).
\<close>

datatype acc_event = PollCounter int64 | PollGauge float64 | Stage | Commit | Rollback

record ledger =
  ld_acc :: accumulator
  ld_inflight :: "metrics option"
  ld_sent :: "metrics list"
  ld_sent_values :: "float64 list list"
  ld_polled :: int64
  ld_polled_values :: "float64 list"

definition new_ledger :: "gostring \<Rightarrow> ledger" where
  "new_ledger i =
     \<lparr>ld_acc = NewMetricAccumulator i, ld_inflight = None, ld_sent = [], ld_sent_values = [],
      ld_polled = 0, ld_polled_values = []\<rparr>"

fun ledger_step :: "acc_event \<Rightarrow> ledger \<Rightarrow> ledger" where
  "ledger_step (PollCounter d) l =
     (case AccumulateCounter d (ld_acc l) of
        (None, a) \<Rightarrow> l\<lparr>ld_acc := a, ld_polled := ld_polled l + d\<rparr>
      | (Some _, a) \<Rightarrow> l\<lparr>ld_acc := a\<rparr>)"
| "ledger_step (PollGauge v) l =
     (case AccumulateGauge v (ld_acc l) of
        (None, a) \<Rightarrow> l\<lparr>ld_acc := a, ld_polled_values := ld_polled_values l @ [v]\<rparr>
      | (Some _, a) \<Rightarrow> l\<lparr>ld_acc := a\<rparr>)"
| "ledger_step Stage l =
     (case StageChanges (ld_acc l) of
        (Inr (Some m), a) \<Rightarrow> l\<lparr>ld_acc := a, ld_inflight := Some m\<rparr>
      | (_, a) \<Rightarrow> l\<lparr>ld_acc := a\<rparr>)"
| "ledger_step Commit l =
     (case CommitStaged (ld_acc l) of
        (None, a) \<Rightarrow>
          l\<lparr>ld_acc := a, ld_inflight := None,
            ld_sent := ld_sent l @ (case ld_inflight l of None \<Rightarrow> [] | Some m \<Rightarrow> [m]),
            ld_sent_values := ld_sent_values l @ [ma_stagedValues (ld_acc l)]\<rparr>
      | (Some _, a) \<Rightarrow> l\<lparr>ld_acc := a\<rparr>)"
| "ledger_step Rollback l =
     l\<lparr>ld_acc := snd (RollbackStaged (ld_acc l)), ld_inflight := None\<rparr>"

definition ledger_run :: "acc_event list \<Rightarrow> ledger \<Rightarrow> ledger" where
  "ledger_run es l = fold ledger_step es l"

text \<open>The report in flight is the one of the staged values.\<close>

definition inflight_ok :: "ledger \<Rightarrow> bool" where
  "inflight_ok l \<longleftrightarrow>
     (case ld_inflight l of
        None \<Rightarrow> \<not> ma_isStaged (ld_acc l)
      | Some m \<Rightarrow> ma_isStaged (ld_acc l) \<and> m_ID m = ma_ID (ld_acc l) \<and> m_MType m = ma_MType (ld_acc l) \<and>
          (m_MType m = Counter \<longrightarrow> m_Delta m = Some (ma_stagedDelta (ld_acc l)) \<and> m_Value m = None) \<and>
          (m_MType m = Gauge \<longrightarrow> m_Delta m = None \<and> m_Value m = Some (average (ma_stagedValues (ld_acc l)))))"

definition ledger_ok :: "ledger \<Rightarrow> bool" where
  "ledger_ok l \<longleftrightarrow>
     acc_ok (ld_acc l) \<and> inflight_ok l \<and>
     ld_polled l = (\<Sum>m\<leftarrow>ld_sent l. delta_or_0 (m_Delta m)) + pending_delta (ld_acc l) \<and>
     ld_polled_values l = concat (ld_sent_values l) @ pending_values (ld_acc l) \<and>
     list_all2 (\<lambda>m vs. m_Value m = (if m_MType m = Gauge then Some (average vs) else None) \<and> m_ID m = ma_ID (ld_acc l))
       (ld_sent l) (ld_sent_values l)"

lemma ledger_ok_new: "ledger_ok (new_ledger i)"
  by (simp add: ledger_ok_def new_ledger_def inflight_ok_def) (simp add: NewMetricAccumulator_def)

text \<open>Polling leaves the staged values, the type of a staged accumulator and its id alone.\<close>

lemma poll_counter_frame:
  assumes "acc_ok a" and "AccumulateCounter d a = (r, a')"
  shows "ma_isStaged a' = ma_isStaged a" "ma_stagedDelta a' = ma_stagedDelta a"
    "ma_stagedValues a' = ma_stagedValues a" "ma_ID a' = ma_ID a"
    "ma_isStaged a \<Longrightarrow> ma_MType a' = ma_MType a"
  using assms by (auto simp: acc_ok_def AccumulateCounter_def Let_def split: option.splits if_splits)

lemma poll_gauge_frame:
  assumes "acc_ok a" and "AccumulateGauge v a = (r, a')"
  shows "ma_isStaged a' = ma_isStaged a" "ma_stagedDelta a' = ma_stagedDelta a"
    "ma_stagedValues a' = ma_stagedValues a" "ma_ID a' = ma_ID a"
    "ma_isStaged a \<Longrightarrow> ma_MType a' = ma_MType a"
  using assms by (auto simp: acc_ok_def AccumulateGauge_def Let_def split: option.splits if_splits)

lemma inflight_poll:
  assumes "inflight_ok l" and "ma_isStaged a = ma_isStaged (ld_acc l)"
    and "ma_stagedDelta a = ma_stagedDelta (ld_acc l)" and "ma_stagedValues a = ma_stagedValues (ld_acc l)"
    and "ma_ID a = ma_ID (ld_acc l)" and "ma_isStaged (ld_acc l) \<Longrightarrow> ma_MType a = ma_MType (ld_acc l)"
    and "ld_inflight k = ld_inflight l" "ld_acc k = a"
  shows "inflight_ok k"
  using assms by (auto simp: inflight_ok_def split: option.splits)

lemma ledger_ok_poll_counter:
  assumes "ledger_ok l"
  shows "ledger_ok (ledger_step (PollCounter d) l)"
proof -
  obtain r a where a: "AccumulateCounter d (ld_acc l) = (r, a)" by fastforce
  have ok: "acc_ok (ld_acc l)" "inflight_ok l" using assms by (simp_all add: ledger_ok_def)
  have "inflight_ok (ledger_step (PollCounter d) l)"
    using a by (intro inflight_poll [OF ok(2) poll_counter_frame [OF ok(1) a]]) (auto split: option.split)
  then show ?thesis
    using assms a acc_ok_counter [OF ok(1), of d] pending_counter [of d "ld_acc l"] poll_counter_frame(4) [OF ok(1) a]
    by (cases r) (simp_all add: ledger_ok_def ac_simps)
qed

lemma ledger_ok_poll_gauge:
  assumes "ledger_ok l"
  shows "ledger_ok (ledger_step (PollGauge v) l)"
proof -
  obtain r a where a: "AccumulateGauge v (ld_acc l) = (r, a)" by fastforce
  have ok: "acc_ok (ld_acc l)" "inflight_ok l" using assms by (simp_all add: ledger_ok_def)
  have "inflight_ok (ledger_step (PollGauge v) l)"
    using a by (intro inflight_poll [OF ok(2) poll_gauge_frame [OF ok(1) a]]) (auto split: option.split)
  then show ?thesis
    using assms a acc_ok_gauge [OF ok(1), of v] pending_gauge [of v "ld_acc l"] poll_gauge_frame(4) [OF ok(1) a]
    by (cases r) (simp_all add: ledger_ok_def ac_simps)
qed

lemma stage_cases:
  assumes "acc_ok a"
  obtains e where "StageChanges a = (Inl e, a)"
  | "StageChanges a = (Inr None, a)" "\<not> ma_isStaged a"
  | m where "StageChanges a = (Inr (Some m), snd (StageChanges a))" "\<not> ma_isStaged a"
      "ma_isStaged (snd (StageChanges a))" "m_ID m = ma_ID a" "m_MType m = ma_MType a"
      "ma_MType (snd (StageChanges a)) = ma_MType a"
      "m_MType m = Counter \<Longrightarrow> m_Delta m = Some (ma_stagedDelta (snd (StageChanges a))) \<and> m_Value m = None"
      "m_MType m = Gauge \<Longrightarrow> m_Delta m = None \<and> m_Value m = Some (average (ma_stagedValues (snd (StageChanges a))))"
  using assms
  by (fastforce simp: StageChanges_def stageCounterChanges_def stageGaugeChanges_def split: option.splits if_splits)

lemma staged_delta:
  "acc_ok a \<Longrightarrow> StageChanges a = (Inr (Some m), a') \<Longrightarrow> delta_or_0 (m_Delta m) = ma_stagedDelta a'"
  by (auto simp: acc_ok_def StageChanges_def stageCounterChanges_def stageGaugeChanges_def
      split: option.splits if_splits)

lemma ledger_ok_stage: "ledger_ok l \<Longrightarrow> ledger_ok (ledger_step Stage l)"
proof -
  assume l: "ledger_ok l"
  then have ok: "acc_ok (ld_acc l)" by (simp add: ledger_ok_def)
  from ok show ?thesis
  proof (cases rule: stage_cases)
    case (3 m)
    have "ledger_step Stage l = l\<lparr>ld_acc := snd (StageChanges (ld_acc l)), ld_inflight := Some m\<rparr>"
      by (subst ledger_step.simps, subst 3(1)) simp
    then show ?thesis using l 3(2-) acc_ok_stage [OF ok] pending_stage [OF ok] acc_ID_ops(3) [of "ld_acc l"]
      by (simp add: ledger_ok_def inflight_ok_def)
  qed (use l in \<open>simp_all add: ledger_ok_def\<close>)
qed

lemma rollback_not_staged [simp]: "\<not> ma_isStaged (snd (RollbackStaged a))"
  and commit_not_staged [simp]: "\<not> ma_isStaged (snd (CommitStaged a))"
  by (auto simp: RollbackStaged_def rollbackStagedCounter_def rollbackStagedGauge_def CommitStaged_def Let_def
      split: option.splits)

lemma ledger_ok_rollback: "ledger_ok l \<Longrightarrow> ledger_ok (ledger_step Rollback l)"
  using acc_ok_rollback [of "ld_acc l"] pending_rollback [of "ld_acc l"] acc_ID_ops(4) [of "ld_acc l"]
  by (simp add: ledger_ok_def inflight_ok_def)

lemma ledger_ok_commit: "ledger_ok l \<Longrightarrow> ledger_ok (ledger_step Commit l)"
proof -
  assume l: "ledger_ok l"
  let ?a = "ld_acc l"
  have ok: "acc_ok ?a" using l by (simp add: ledger_ok_def)
  show ?thesis
  proof (cases "ma_isStaged ?a")
    case False
    then have "ledger_step Commit l = l" by (simp add: CommitStaged_def)
    then show ?thesis using l by simp
  next
    case True
    then have c: "fst (CommitStaged ?a) = None" by (simp add: CommitStaged_def)
    obtain m where m: "ld_inflight l = Some m" "m_ID m = ma_ID ?a" "m_MType m = ma_MType ?a"
        "m_MType m = Counter \<longrightarrow> m_Delta m = Some (ma_stagedDelta ?a) \<and> m_Value m = None"
        "m_MType m = Gauge \<longrightarrow> m_Delta m = None \<and> m_Value m = Some (average (ma_stagedValues ?a))"
      using l True by (auto simp: ledger_ok_def inflight_ok_def split: option.splits)
    have s: "ledger_step Commit l = l\<lparr>ld_acc := snd (CommitStaged ?a), ld_inflight := None,
        ld_sent := ld_sent l @ [m], ld_sent_values := ld_sent_values l @ [ma_stagedValues ?a]\<rparr>"
      using c m(1) by (cases "CommitStaged ?a") simp
    have d: "delta_or_0 (m_Delta m) = ma_stagedDelta ?a"
      and v: "m_Value m = (if m_MType m = Gauge then Some (average (ma_stagedValues ?a)) else None)"
      using m True ok by (auto simp: acc_ok_def)
    show ?thesis unfolding s
      using l acc_ok_commit [OF ok] pending_commit [OF ok c] acc_ID_ops(5) [of ?a] m d v
      by (simp add: ledger_ok_def inflight_ok_def ac_simps list_all2_appendI)
  qed
qed

lemma ledger_ok_step: "ledger_ok l \<Longrightarrow> ledger_ok (ledger_step e l)"
  by (cases e) (simp_all only: ledger_ok_poll_counter ledger_ok_poll_gauge ledger_ok_stage ledger_ok_rollback
      ledger_ok_commit)

lemma ledger_ok_run: "ledger_ok l \<Longrightarrow> ledger_ok (ledger_run es l)"
  unfolding ledger_run_def by (induction es arbitrary: l) (simp_all add: ledger_ok_step)

lemma acc_ID_pair:
  "StageChanges a = (r, a') \<Longrightarrow> ma_ID a' = ma_ID a" "CommitStaged a = (q, a') \<Longrightarrow> ma_ID a' = ma_ID a"
  using acc_ID_ops(3) [of a] acc_ID_ops(5) [of a] by (metis snd_conv)+

lemma ledger_ID_step: "ledger_ok l \<Longrightarrow> ma_ID (ld_acc (ledger_step e l)) = ma_ID (ld_acc l)"
  by (cases e) (auto simp: ledger_ok_def poll_counter_frame poll_gauge_frame acc_ID_pair
      split: prod.splits option.splits sum.splits)

lemma ledger_ID_run: "ledger_ok l \<Longrightarrow> ma_ID (ld_acc (ledger_run es l)) = ma_ID (ld_acc l)"
  unfolding ledger_run_def by (induction es arbitrary: l) (simp_all add: ledger_ok_step ledger_ID_step)

section \<open>Properties of an accumulator\<close>

text \<open>C18. Conservation of counters. After any sequence of polls, stagings, commits and rollbacks,
  the increments that were polled are the increments of the committed reports plus those
  still pending, modulo \<open>2 ^ 64\<close>: none is lost and none is reported twice.\<close>

theorem counter_ledger:
  "ld_polled (ledger_run es (new_ledger i)) =
     (\<Sum>m\<leftarrow>ld_sent (ledger_run es (new_ledger i)). delta_or_0 (m_Delta m)) +
     pending_delta (ld_acc (ledger_run es (new_ledger i)))"
  using ledger_ok_run [OF ledger_ok_new, of es i] by (simp add: ledger_ok_def)

text \<open>C19. Conservation of gauges. The values polled are, in order, the values the committed reports
  stand for followed by the pending ones; and every committed gauge report carries the average
  of its values.\<close>

theorem gauge_ledger:
  "ld_polled_values (ledger_run es (new_ledger i)) =
     concat (ld_sent_values (ledger_run es (new_ledger i))) @ pending_values (ld_acc (ledger_run es (new_ledger i))) \<and>
   list_all2 (\<lambda>m vs. m_ID m = i \<and> m_Value m = (if m_MType m = Gauge then Some (average vs) else None))
     (ld_sent (ledger_run es (new_ledger i))) (ld_sent_values (ledger_run es (new_ledger i)))"
proof -
  have k: "ledger_ok (ledger_run es (new_ledger i))" by (rule ledger_ok_run [OF ledger_ok_new])
  have "ma_ID (ld_acc (ledger_run es (new_ledger i))) = i"
    using ledger_ID_run [OF ledger_ok_new, of es i] by (simp add: new_ledger_def NewMetricAccumulator_def)
  then show ?thesis using k by (simp add: ledger_ok_def conj_commute)
qed

text \<open>Invariant of an accumulator over any history: it is untyped and empty until its first
  poll, keeps one type and its id from then on, collects values of that type only, and holds
  staged values only while it is staged.\<close>

theorem accumulator_invariant:
  "acc_ok (ld_acc (ledger_run es (new_ledger i))) \<and> ma_ID (ld_acc (ledger_run es (new_ledger i))) = i"
proof -
  have "ledger_ok (ledger_run es (new_ledger i))" by (rule ledger_ok_run [OF ledger_ok_new])
  then show ?thesis
    using ledger_ID_run [OF ledger_ok_new, of es i] by (simp add: ledger_ok_def new_ledger_def NewMetricAccumulator_def)
qed

text \<open>A report that failed is undone completely: staging and then rolling back gives the
  accumulator that was there before.\<close>

theorem stage_rollback_inverse:
  assumes "acc_ok a" and "\<not> ma_isStaged a"
  shows "RollbackStaged (snd (StageChanges a)) = (None, a)"
  using assms
  by (cases a) (auto simp: acc_ok_def acc_defs Let_def split: option.split)

lemma stage_rollback_inverse_witness:
  "RollbackStaged (snd (StageChanges (snd (AccumulateCounter 7 (NewMetricAccumulator ''c''))))) =
     (None, snd (AccumulateCounter 7 (NewMetricAccumulator ''c'')))"
  by (rule stage_rollback_inverse [OF acc_ok_counter [OF acc_ok_new]]) (simp add: acc_defs)

text \<open>A gauge polled once between two reports is reported with exactly the polled bits (any
  finite value but the negative zero), although the report goes through a sum and a division.\<close>

theorem single_gauge_exact:
  assumes "f64_finite v" and "v \<noteq> f64_pack True 0"
  shows "fst (StageChanges (snd (AccumulateGauge v (NewMetricAccumulator i)))) =
    Inr (Some (NewMetrics i Gauge None (Some v)))"
proof -
  have "average [v] = v" using assms f64_add_0 f64_div_1 by (simp add: average_def)
  then show ?thesis by (simp add: acc_defs)
qed

lemma single_gauge_exact_witness:
  "fst (StageChanges (snd (AccumulateGauge (f64_of_nat 1) (NewMetricAccumulator ''g'')))) =
    Inr (Some (NewMetrics ''g'' Gauge None (Some (f64_of_nat 1))))"
proof (rule single_gauge_exact)
  show "f64_finite (f64_of_nat 1)" by (rule f64_finite_1)
  have "f64_mag (f64_of_nat 1) \<noteq> f64_mag (f64_pack True 0)"
    by (simp only: f64_units_of_1 f64_mag_pack zero_less_power) simp
  then show "f64_of_nat 1 \<noteq> f64_pack True 0" by metis
qed

end
