(* ===== verification/Reporting.thy ===== *)
theory Reporting
  imports Metrics
begin

text \<open>
  \<open>internal/agent/reporting\<close>: the two executors that hand the staged metrics of one report to
  a sender (\<open>sending.MetricSender\<close>, a table of methods over the sender's state). The batch
  executor makes one call; the worker pool is a concurrent program over two buffered channels,
  modelled as a step relation over the moves of its goroutines. Both keep the contract
  \<open>report_executor\<close>: every metric ends in exactly one of the two id lists of the result, the
  success list names exactly the metrics the sender took, and the call returns.
\<close>

section \<open>Results\<close>

record result =
  SuccessIDs :: "gostring list"
  FailureIDs :: "gostring list"

definition SuccessResult :: "gostring list \<Rightarrow> result" where
  "SuccessResult ids = \<lparr>SuccessIDs = ids, FailureIDs = []\<rparr>"

definition FailureResult :: "gostring list \<Rightarrow> result" where
  "FailureResult ids = \<lparr>SuccessIDs = [], FailureIDs = ids\<rparr>"

definition Append :: "result \<Rightarrow> result \<Rightarrow> result" where
  "Append r ar = \<lparr>SuccessIDs = SuccessIDs r @ SuccessIDs ar, FailureIDs = FailureIDs r @ FailureIDs ar\<rparr>"

lemma result_fields [simp]:
  "SuccessIDs (SuccessResult ids) = ids" "FailureIDs (SuccessResult ids) = []"
  "SuccessIDs (FailureResult ids) = []" "FailureIDs (FailureResult ids) = ids"
  "SuccessIDs (Append r q) = SuccessIDs r @ SuccessIDs q" "FailureIDs (Append r q) = FailureIDs r @ FailureIDs q"
  by (simp_all add: SuccessResult_def FailureResult_def Append_def)

section \<open>The sender and the batch executor\<close>

record 'n sender_ops =
  op_SendMetric :: "metrics \<Rightarrow> 'n \<Rightarrow> goerror option \<times> 'n"
  op_SendMetricArray :: "metrics list \<Rightarrow> 'n \<Rightarrow> goerror option \<times> 'n"

text \<open>Beside the sender's state, an executor carries a history: the metrics the sender took
  without an error. No operation reads it.\<close>

record 'n batch_executor =
  be_net :: 'n
  be_acked :: "metrics list"

definition NewBatchExecutor :: "'n \<Rightarrow> 'n batch_executor" where
  "NewBatchExecutor n = \<lparr>be_net = n, be_acked = []\<rparr>"

definition batch_Execute ::
    "'n sender_ops \<Rightarrow> metrics list \<Rightarrow> 'n batch_executor \<Rightarrow> result \<times> 'n batch_executor" where
  "batch_Execute sops ms e =
     (let ids = map m_ID ms
      in case op_SendMetricArray sops ms (be_net e) of
           (Some err, n) \<Rightarrow> (FailureResult ids, e\<lparr>be_net := n\<rparr>)
         | (None, n) \<Rightarrow> (SuccessResult ids, e\<lparr>be_net := n, be_acked := be_acked e @ ms\<rparr>))"

definition batch_Shutdown :: "'n batch_executor \<Rightarrow> 'n batch_executor" where
  "batch_Shutdown e = e"

section \<open>The worker pool\<close>

text \<open>A worker waits for a task, holds a task, holds a result to deliver, or has left its loop.\<close>

datatype worker = WIdle | WGot metrics | WDone result | WExit

datatype thread = Feeder | Collector | Worker nat

text \<open>
  The two channels have capacity \<open>rate\<close>. \<open>pl_feed\<close> is what the goroutine of \<open>Execute\<close> has
  not sent to \<open>tasks\<close> yet, \<open>pl_expect\<close> the iterations its own loop has left, \<open>pl_result\<close> the
  result collected so far. \<open>pl_panicked\<close> is the crash of the program by a send to a closed
  channel or by a nil result received from one. \<open>pl_acked\<close> is the history.
\<close>

record 'n pool =
  pl_rate :: nat
  pl_net :: 'n
  pl_tasks :: "metrics list"
  pl_results :: "result list"
  pl_workers :: "worker list"
  pl_feed :: "metrics list"
  pl_expect :: nat
  pl_result :: result
  pl_tasks_closed :: bool
  pl_results_closed :: bool
  pl_panicked :: bool
  pl_acked :: "metrics list"

definition NewWorkerPoolExecutor :: "nat \<Rightarrow> 'n \<Rightarrow> 'n pool" where
  "NewWorkerPoolExecutor rate n =
     \<lparr>pl_rate = rate, pl_net = n, pl_tasks = [], pl_results = [], pl_workers = replicate rate WIdle,
      pl_feed = [], pl_expect = 0, pl_result = \<lparr>SuccessIDs = [], FailureIDs = []\<rparr>,
      pl_tasks_closed = False, pl_results_closed = False, pl_panicked = False, pl_acked = []\<rparr>"

definition feeder_move :: "'n pool \<Rightarrow> 'n pool option" where
  "feeder_move st =
     (case pl_feed st of
        [] \<Rightarrow> None
      | m # rest \<Rightarrow>
          if pl_tasks_closed st then Some (st\<lparr>pl_panicked := True\<rparr>)
          else if length (pl_tasks st) < pl_rate st then
            Some (st\<lparr>pl_feed := rest, pl_tasks := pl_tasks st @ [m]\<rparr>)
          else None)"

definition collector_move :: "'n pool \<Rightarrow> 'n pool option" where
  "collector_move st =
     (if pl_expect st = 0 then None
      else case pl_results st of
             [] \<Rightarrow> if pl_results_closed st then Some (st\<lparr>pl_panicked := True\<rparr>) else None
           | r # rest \<Rightarrow>
               Some (st\<lparr>pl_results := rest, pl_expect := pl_expect st - 1, pl_result := Append (pl_result st) r\<rparr>))"

definition worker_move :: "'n sender_ops \<Rightarrow> nat \<Rightarrow> 'n pool \<Rightarrow> 'n pool option" where
  "worker_move sops i st =
     (if length (pl_workers st) \<le> i then None
      else case pl_workers st ! i of
             WIdle \<Rightarrow>
               (case pl_tasks st of
                  [] \<Rightarrow> if pl_tasks_closed st then Some (st\<lparr>pl_workers := (pl_workers st)[i := WExit]\<rparr>) else None
                | m # rest \<Rightarrow> Some (st\<lparr>pl_tasks := rest, pl_workers := (pl_workers st)[i := WGot m]\<rparr>))
           | WGot m \<Rightarrow>
               (case op_SendMetric sops m (pl_net st) of
                  (Some err, n) \<Rightarrow>
                    Some (st\<lparr>pl_net := n, pl_workers := (pl_workers st)[i := WDone (FailureResult [m_ID m])]\<rparr>)
                | (None, n) \<Rightarrow>
                    Some (st\<lparr>pl_net := n, pl_workers := (pl_workers st)[i := WDone (SuccessResult [m_ID m])],
                      pl_acked := pl_acked st @ [m]\<rparr>))
           | WDone r \<Rightarrow>
               if pl_results_closed st then Some (st\<lparr>pl_panicked := True\<rparr>)
               else if length (pl_results st) < pl_rate st then
                 Some (st\<lparr>pl_results := pl_results st @ [r], pl_workers := (pl_workers st)[i := WIdle]\<rparr>)
               else None
           | WExit \<Rightarrow> None)"

text \<open>One move of a goroutine; \<open>None\<close> when it is blocked or has ended.\<close>

definition pool_move :: "'n sender_ops \<Rightarrow> thread \<Rightarrow> 'n pool \<Rightarrow> 'n pool option" where
  "pool_move sops t st =
     (if pl_panicked st then None
      else case t of Feeder \<Rightarrow> feeder_move st | Collector \<Rightarrow> collector_move st | Worker i \<Rightarrow> worker_move sops i st)"

text \<open>The start of \<open>Execute\<close>: the feeding goroutine gets the metrics, the loop its bound.\<close>

definition pool_Execute :: "metrics list \<Rightarrow> 'n pool \<Rightarrow> 'n pool" where
  "pool_Execute ms st =
     st\<lparr>pl_feed := ms, pl_expect := length ms, pl_result := \<lparr>SuccessIDs = [], FailureIDs = []\<rparr>\<rparr>"

definition pool_Shutdown :: "'n pool \<Rightarrow> 'n pool" where
  "pool_Shutdown st = st\<lparr>pl_tasks_closed := True, pl_results_closed := True\<rparr>"

text \<open>Every interleaving of the goroutines is a sequence of such moves.\<close>

inductive pool_step :: "'n sender_ops \<Rightarrow> 'n pool \<Rightarrow> 'n pool \<Rightarrow> bool" for sops where
  some_move: "pool_move sops t st = Some st' \<Longrightarrow> pool_step sops st st'"

inductive_cases pool_stepE: "pool_step sops st st'"

inductive pool_steps :: "'n sender_ops \<Rightarrow> nat \<Rightarrow> 'n pool \<Rightarrow> 'n pool \<Rightarrow> bool" for sops where
  no_steps: "pool_steps sops 0 st st"
| one_more: "pool_steps sops n st st' \<Longrightarrow> pool_step sops st' st'' \<Longrightarrow> pool_steps sops (Suc n) st st''"

text \<open>A scheduler that runs the goroutines it is told; a blocked one is skipped.\<close>

fun pool_schedule :: "'n sender_ops \<Rightarrow> thread list \<Rightarrow> 'n pool \<Rightarrow> 'n pool" where
  "pool_schedule sops [] st = st"
| "pool_schedule sops (t # ts) st =
     pool_schedule sops ts (case pool_move sops t st of None \<Rightarrow> st | Some st' \<Rightarrow> st')"

section \<open>The invariant of a running report\<close>

fun worker_ids :: "worker \<Rightarrow> gostring multiset" where
  "worker_ids (WGot m) = {#m_ID m#}"
| "worker_ids (WDone r) = mset (SuccessIDs r) + mset (FailureIDs r)"
| "worker_ids _ = {#}"

fun worker_acks :: "worker \<Rightarrow> gostring multiset" where
  "worker_acks (WDone r) = mset (SuccessIDs r)"
| "worker_acks _ = {#}"

fun worker_metrics :: "worker \<Rightarrow> metrics multiset" where
  "worker_metrics (WGot m) = {#m#}"
| "worker_metrics _ = {#}"

fun worker_load :: "worker \<Rightarrow> nat" where
  "worker_load (WGot m) = 1"
| "worker_load (WDone r) = 1"
| "worker_load _ = 0"

fun worker_work :: "worker \<Rightarrow> nat" where
  "worker_work (WGot m) = 3"
| "worker_work (WDone r) = 2"
| "worker_work _ = 0"

definition result_ids :: "result \<Rightarrow> gostring multiset" where
  "result_ids r = mset (SuccessIDs r) + mset (FailureIDs r)"

text \<open>The ids that are on their way (each metric of the report at one place), the ids counted
  as success so far, the metrics not answered yet, the number of results still to collect, and
  the number of moves that remain.\<close>

definition pool_ids :: "'n pool \<Rightarrow> gostring multiset" where
  "pool_ids st =
     image_mset m_ID (mset (pl_feed st)) + image_mset m_ID (mset (pl_tasks st)) +
     (\<Sum>w\<leftarrow>pl_workers st. worker_ids w) + (\<Sum>r\<leftarrow>pl_results st. result_ids r) + result_ids (pl_result st)"

definition pool_acks :: "'n pool \<Rightarrow> gostring multiset" where
  "pool_acks st =
     (\<Sum>w\<leftarrow>pl_workers st. worker_acks w) + (\<Sum>r\<leftarrow>pl_results st. mset (SuccessIDs r)) +
     mset (SuccessIDs (pl_result st))"

definition pool_metrics :: "'n pool \<Rightarrow> metrics multiset" where
  "pool_metrics st = mset (pl_feed st) + mset (pl_tasks st) + (\<Sum>w\<leftarrow>pl_workers st. worker_metrics w)"

definition pool_load :: "'n pool \<Rightarrow> nat" where
  "pool_load st =
     length (pl_feed st) + length (pl_tasks st) + (\<Sum>w\<leftarrow>pl_workers st. worker_load w) + length (pl_results st)"

definition pool_work :: "'n pool \<Rightarrow> nat" where
  "pool_work st =
     5 * length (pl_feed st) + 4 * length (pl_tasks st) + (\<Sum>w\<leftarrow>pl_workers st. worker_work w) +
     length (pl_results st)"

definition pool_open :: "'n pool \<Rightarrow> bool" where
  "pool_open st \<longleftrightarrow>
     0 < pl_rate st \<and> length (pl_workers st) = pl_rate st \<and> WExit \<notin> set (pl_workers st) \<and>
     \<not> pl_tasks_closed st \<and> \<not> pl_results_closed st \<and> \<not> pl_panicked st"

text \<open>\<open>acked\<close> is the history of the metrics taken before the report.\<close>

definition pool_inv :: "metrics list \<Rightarrow> metrics list \<Rightarrow> 'n pool \<Rightarrow> bool" where
  "pool_inv ms acked st \<longleftrightarrow>
     pool_open st \<and> pool_ids st = mset (map m_ID ms) \<and> pl_expect st = pool_load st \<and>
     (\<exists>new. pl_acked st = acked @ new \<and> mset new + pool_metrics st \<subseteq># mset ms \<and>
        mset (map m_ID new) = pool_acks st)"

text \<open>Between two reports every channel is empty and every worker waits.\<close>

definition pool_ready :: "'n pool \<Rightarrow> bool" where
  "pool_ready st \<longleftrightarrow>
     pool_open st \<and> pl_feed st = [] \<and> pl_tasks st = [] \<and> pl_results st = [] \<and> pl_expect st = 0 \<and>
     (\<forall>w \<in> set (pl_workers st). w = WIdle)"

lemma worker_update:
  assumes "i < length ws"
  shows "(\<Sum>w\<leftarrow>ws[i := x]. worker_ids w) + worker_ids (ws ! i) = (\<Sum>w\<leftarrow>ws. worker_ids w) + worker_ids x"
    "(\<Sum>w\<leftarrow>ws[i := x]. worker_acks w) + worker_acks (ws ! i) = (\<Sum>w\<leftarrow>ws. worker_acks w) + worker_acks x"
    "(\<Sum>w\<leftarrow>ws[i := x]. worker_metrics w) + worker_metrics (ws ! i) = (\<Sum>w\<leftarrow>ws. worker_metrics w) + worker_metrics x"
    "(\<Sum>w\<leftarrow>ws[i := x]. worker_load w) + worker_load (ws ! i) = (\<Sum>w\<leftarrow>ws. worker_load w) + worker_load x"
    "(\<Sum>w\<leftarrow>ws[i := x]. worker_work w) + worker_work (ws ! i) = (\<Sum>w\<leftarrow>ws. worker_work w) + worker_work x"
  using assms by (simp_all add: sum_list_map_update)

lemma pool_inv_start:
  assumes "pool_ready st"
  shows "pool_inv ms (pl_acked st) (pool_Execute ms st)" "pool_work (pool_Execute ms st) = 5 * length ms"
proof -
  have z: "(\<Sum>w\<leftarrow>pl_workers st. worker_ids w) = {#}" "(\<Sum>w\<leftarrow>pl_workers st. worker_acks w) = {#}"
    "(\<Sum>w\<leftarrow>pl_workers st. worker_metrics w) = {#}" "(\<Sum>w\<leftarrow>pl_workers st. worker_load w) = 0"
    "(\<Sum>w\<leftarrow>pl_workers st. worker_work w) = 0"
    using assms by (auto simp: pool_ready_def intro!: sum_list_map_0)
  show "pool_inv ms (pl_acked st) (pool_Execute ms st)" "pool_work (pool_Execute ms st) = 5 * length ms"
    using assms by (simp_all add: z pool_ready_def pool_inv_def pool_open_def pool_Execute_def pool_ids_def pool_acks_def
        pool_metrics_def pool_load_def pool_work_def result_ids_def)
qed

section \<open>Every move keeps the invariant\<close>

lemma pool_inv_feeder:
  assumes "pool_inv ms a st" and "feeder_move st = Some st'"
  shows "pool_inv ms a st' \<and> pool_work st = Suc (pool_work st')"
proof -
  obtain m rest where m: "pl_feed st = m # rest" "st' = st\<lparr>pl_feed := rest, pl_tasks := pl_tasks st @ [m]\<rparr>"
    using assms by (auto simp: feeder_move_def pool_inv_def pool_open_def split: list.splits if_splits)
  then show ?thesis using assms(1)
    by (simp add: pool_inv_def pool_open_def pool_ids_def pool_acks_def pool_metrics_def pool_load_def pool_work_def)
qed

lemma pool_inv_collector:
  assumes "pool_inv ms a st" and "collector_move st = Some st'"
  shows "pool_inv ms a st' \<and> pool_work st = Suc (pool_work st')"
proof -
  obtain r rest where r: "pl_results st = r # rest"
      "st' = st\<lparr>pl_results := rest, pl_expect := pl_expect st - 1, pl_result := Append (pl_result st) r\<rparr>"
    using assms by (auto simp: collector_move_def pool_inv_def pool_open_def split: list.splits if_splits)
  then show ?thesis using assms(1)
    by (simp add: pool_inv_def pool_open_def pool_ids_def pool_acks_def pool_metrics_def pool_load_def pool_work_def
        result_ids_def ac_simps)
qed

text \<open>The moves of a worker: take a task, have it sent, deliver the result.\<close>

lemma worker_move_cases:
  assumes "pool_inv ms a st" and "worker_move sops i st = Some st'"
  obtains (take) m rest where "i < length (pl_workers st)" "pl_workers st ! i = WIdle" "pl_tasks st = m # rest"
      "st' = st\<lparr>pl_tasks := rest, pl_workers := (pl_workers st)[i := WGot m]\<rparr>"
  | (failed) m e n where "i < length (pl_workers st)" "pl_workers st ! i = WGot m"
      "op_SendMetric sops m (pl_net st) = (Some e, n)"
      "st' = st\<lparr>pl_net := n, pl_workers := (pl_workers st)[i := WDone (FailureResult [m_ID m])]\<rparr>"
  | (taken) m n where "i < length (pl_workers st)" "pl_workers st ! i = WGot m"
      "op_SendMetric sops m (pl_net st) = (None, n)"
      "st' = st\<lparr>pl_net := n, pl_workers := (pl_workers st)[i := WDone (SuccessResult [m_ID m])],
         pl_acked := pl_acked st @ [m]\<rparr>"
  | (deliver) r where "i < length (pl_workers st)" "pl_workers st ! i = WDone r"
      "st' = st\<lparr>pl_results := pl_results st @ [r], pl_workers := (pl_workers st)[i := WIdle]\<rparr>"
  using assms
  by (fastforce simp: worker_move_def pool_inv_def pool_open_def
      split: worker.splits list.splits if_splits prod.splits option.splits)

lemma pool_inv_worker:
  assumes "pool_inv ms a st" and "worker_move sops i st = Some st'"
  shows "pool_inv ms a st' \<and> pool_work st = Suc (pool_work st')"
  using assms
proof (cases rule: worker_move_cases)
  case (take m rest)
  have "WExit \<notin> set ((pl_workers st)[i := WGot m])"
    using assms(1) set_update_subset_insert [of "pl_workers st" i "WGot m"]
    by (auto simp: pool_inv_def pool_open_def)
  then show ?thesis using assms(1) take worker_update [OF take(1), of "WGot m"]
    by (simp add: pool_inv_def pool_open_def pool_ids_def pool_acks_def pool_metrics_def pool_load_def pool_work_def ac_simps)
next
  case (failed m e n)
  let ?w = "WDone (FailureResult [m_ID m])"
  have "WExit \<notin> set ((pl_workers st)[i := ?w])"
    using assms(1) set_update_subset_insert [of "pl_workers st" i ?w] by (auto simp: pool_inv_def pool_open_def)
  moreover have "(\<Sum>w\<leftarrow>pl_workers st. worker_metrics w) = add_mset m (\<Sum>w\<leftarrow>(pl_workers st)[i := ?w]. worker_metrics w)"
    using worker_update(3) [OF failed(1), of ?w] failed(2) by simp
  ultimately show ?thesis using assms(1) failed worker_update [OF failed(1), of ?w]
    by (auto simp: pool_inv_def pool_open_def pool_ids_def pool_acks_def pool_metrics_def pool_load_def pool_work_def
        ac_simps dest: mset_subset_eq_insertD subset_mset.less_imp_le)
next
  case (taken m n)
  let ?w = "WDone (SuccessResult [m_ID m])"
  have "WExit \<notin> set ((pl_workers st)[i := ?w])"
    using assms(1) set_update_subset_insert [of "pl_workers st" i ?w] by (auto simp: pool_inv_def pool_open_def)
  moreover have "(\<Sum>w\<leftarrow>pl_workers st. worker_metrics w) = add_mset m (\<Sum>w\<leftarrow>(pl_workers st)[i := ?w]. worker_metrics w)"
    using worker_update(3) [OF taken(1), of ?w] taken(2) by simp
  ultimately show ?thesis using assms(1) taken worker_update [OF taken(1), of ?w]
    by (auto simp: pool_inv_def pool_open_def pool_ids_def pool_acks_def pool_metrics_def pool_load_def pool_work_def
        ac_simps)
next
  case (deliver r)
  have "WExit \<notin> set ((pl_workers st)[i := WIdle])"
    using assms(1) set_update_subset_insert [of "pl_workers st" i WIdle] by (auto simp: pool_inv_def pool_open_def)
  moreover have "(\<Sum>w\<leftarrow>pl_workers st. worker_ids w) = result_ids r + (\<Sum>w\<leftarrow>(pl_workers st)[i := WIdle]. worker_ids w)"
    "(\<Sum>w\<leftarrow>pl_workers st. worker_acks w) = mset (SuccessIDs r) + (\<Sum>w\<leftarrow>(pl_workers st)[i := WIdle]. worker_acks w)"
    using worker_update(1,2) [OF deliver(1), of WIdle] deliver(2) by (simp_all add: result_ids_def ac_simps)
  ultimately show ?thesis using assms(1) deliver worker_update(3-5) [OF deliver(1), of WIdle]
    by (simp add: pool_inv_def pool_open_def pool_ids_def pool_acks_def pool_metrics_def pool_load_def pool_work_def
        ac_simps)
qed

lemma pool_inv_step:
  assumes "pool_inv ms a st" and "pool_step sops st st'"
  shows "pool_inv ms a st'" "pool_work st = Suc (pool_work st')"
  using assms(2) pool_inv_feeder [OF assms(1)] pool_inv_collector [OF assms(1)] pool_inv_worker [OF assms(1)]
  by (auto elim!: pool_stepE simp: pool_move_def split: if_splits thread.splits)

lemma pool_inv_steps:
  "pool_steps sops n st st' \<Longrightarrow> pool_inv ms a st \<Longrightarrow> pool_inv ms a st' \<and> pool_work st = n + pool_work st'"
  by (induction rule: pool_steps.induct) (auto dest: pool_inv_step)

section \<open>A report always finishes\<close>

lemma worker_load_0: "worker_load w = 0 \<Longrightarrow> w \<noteq> WExit \<Longrightarrow> w = WIdle"
  by (cases w) simp_all

lemma pool_finished:
  assumes "pool_inv ms a st" and "pl_expect st = 0"
  shows "pool_ready st"
    "mset (SuccessIDs (pl_result st)) + mset (FailureIDs (pl_result st)) = mset (map m_ID ms)"
    "\<exists>new. pl_acked st = a @ new \<and> mset new \<subseteq># mset ms \<and> mset (map m_ID new) = mset (SuccessIDs (pl_result st))"
proof -
  have l: "pl_feed st = []" "pl_tasks st = []" "pl_results st = []" "\<forall>w \<in> set (pl_workers st). worker_load w = 0"
    using assms by (simp_all add: pool_inv_def pool_load_def)
  moreover have o: "pool_open st" using assms(1) by (simp add: pool_inv_def)
  ultimately have idle: "\<forall>w \<in> set (pl_workers st). w = WIdle"
    using worker_load_0 unfolding pool_open_def by metis
  then show "pool_ready st" using l o assms(2) by (simp add: pool_ready_def)
  have "(\<Sum>w\<leftarrow>pl_workers st. worker_ids w) = {#}" "(\<Sum>w\<leftarrow>pl_workers st. worker_acks w) = {#}"
    "(\<Sum>w\<leftarrow>pl_workers st. worker_metrics w) = {#}"
    using idle by (auto intro!: sum_list_map_0)
  then show "mset (SuccessIDs (pl_result st)) + mset (FailureIDs (pl_result st)) = mset (map m_ID ms)"
    "\<exists>new. pl_acked st = a @ new \<and> mset new \<subseteq># mset ms \<and> mset (map m_ID new) = mset (SuccessIDs (pl_result st))"
    using assms(1) l by (simp_all add: pool_inv_def pool_ids_def pool_acks_def pool_metrics_def result_ids_def)
qed

text \<open>While results are missing, some goroutine can move: no deadlock.\<close>

lemma pool_progress:
  assumes inv: "pool_inv ms a st" and e: "pl_expect st \<noteq> 0"
  shows "\<exists>st'. pool_step sops st st'"
proof -
  have o: "pool_open st" using inv by (simp add: pool_inv_def)
  have w: "\<exists>st'. pool_step sops st st'" if "worker_move sops i st \<noteq> None" for i
    using that o pool_step.some_move [of sops "Worker i" st] by (auto simp: pool_move_def pool_open_def)
  consider (collect) "pl_results st \<noteq> []"
    | (busy) i where "pl_results st = []" "i < length (pl_workers st)" "pl_workers st ! i \<noteq> WIdle"
    | (take) "pl_results st = []" "\<forall>i < length (pl_workers st). pl_workers st ! i = WIdle" "pl_tasks st \<noteq> []"
    | (feed) "pl_results st = []" "\<forall>i < length (pl_workers st). pl_workers st ! i = WIdle" "pl_tasks st = []"
    by blast
  then show ?thesis
  proof cases
    case collect
    then have "collector_move st \<noteq> None" using e by (auto simp: collector_move_def split: list.split)
    then show ?thesis using o pool_step.some_move [of sops Collector st] by (auto simp: pool_move_def pool_open_def)
  next
    case busy
    then have "pl_workers st ! i \<noteq> WExit" using o nth_mem [OF busy(2)] unfolding pool_open_def by metis
    then have "worker_move sops i st \<noteq> None" using busy o
      by (auto simp: worker_move_def pool_open_def split: worker.split prod.split option.split)
    then show ?thesis by (rule w)
  next
    case take
    then have "worker_move sops 0 st \<noteq> None" using o
      by (auto simp: worker_move_def pool_open_def split: list.split)
    then show ?thesis by (rule w)
  next
    case feed
    then have "(\<Sum>w\<leftarrow>pl_workers st. worker_load w) = 0"
      by (intro sum_list_map_0) (auto simp: in_set_conv_nth)
    then have "pl_feed st \<noteq> []" using feed inv e by (auto simp: pool_inv_def pool_load_def)
    then have "feeder_move st \<noteq> None" using feed o by (auto simp: feeder_move_def pool_open_def split: list.split)
    then show ?thesis using o pool_step.some_move [of sops Feeder st] by (auto simp: pool_move_def pool_open_def)
  qed
qed

lemma pool_steps_front: "pool_steps sops n st' st'' \<Longrightarrow> pool_step sops st st' \<Longrightarrow> pool_steps sops (Suc n) st st''"
  by (induction rule: pool_steps.induct) (auto intro: pool_steps.intros)

lemma worker_work_load: "worker_load w \<le> worker_work w"
  by (cases w) simp_all

lemma pool_load_work: "pool_load st \<le> pool_work st"
proof -
  have "(\<Sum>w\<leftarrow>pl_workers st. worker_load w) \<le> (\<Sum>w\<leftarrow>pl_workers st. worker_work w)"
    by (intro sum_list_mono worker_work_load)
  then show ?thesis by (simp add: pool_load_def pool_work_def)
qed

lemma pool_work_expect: "pool_inv ms a st \<Longrightarrow> pl_expect st = 0 \<Longrightarrow> pool_work st = 0"
proof -
  assume "pool_inv ms a st" "pl_expect st = 0"
  then have "pool_ready st" by (rule pool_finished(1))
  then show "pool_work st = 0" by (auto simp: pool_ready_def pool_work_def intro!: sum_list_map_0)
qed

lemma pool_completes: "pool_inv ms a st \<Longrightarrow> \<exists>st'. pool_steps sops (pool_work st) st st' \<and> pl_expect st' = 0"
proof (induction "pool_work st" arbitrary: st)
  case 0
  then have "pl_expect st = 0" using pool_load_work [of st] by (simp add: pool_inv_def)
  then show ?case using 0 pool_steps.no_steps by (metis)
next
  case (Suc n)
  have "pl_expect st \<noteq> 0" using Suc.hyps(2) pool_work_expect [OF Suc.prems] by auto
  then obtain st1 where s: "pool_step sops st st1" using pool_progress [OF Suc.prems] by blast
  then have "n = pool_work st1" "pool_inv ms a st1" using pool_inv_step [OF Suc.prems s] Suc.hyps(2) by simp_all
  then obtain st' where "pool_steps sops n st1 st'" "pl_expect st' = 0" using Suc.hyps(1) by blast
  then show ?case using pool_steps_front [OF _ s] Suc.hyps(2) by metis
qed

section \<open>The contract of an executor\<close>

text \<open>\<open>executes e ms r e'\<close>: a call of \<open>Execute\<close> with the metrics \<open>ms\<close> can return \<open>r\<close>.\<close>

locale report_executor =
  fixes executes :: "'e \<Rightarrow> metrics list \<Rightarrow> result \<Rightarrow> 'e \<Rightarrow> bool" and ready :: "'e \<Rightarrow> bool"
    and acked :: "'e \<Rightarrow> metrics list"
  assumes stays_ready: "ready e \<Longrightarrow> executes e ms r e' \<Longrightarrow> ready e'"
    and answers: "ready e \<Longrightarrow> executes e ms r e' \<Longrightarrow>
          mset (SuccessIDs r) + mset (FailureIDs r) = mset (map m_ID ms)"
    and accounts: "ready e \<Longrightarrow> executes e ms r e' \<Longrightarrow>
          \<exists>new. acked e' = acked e @ new \<and> mset new \<subseteq># mset ms \<and> mset (map m_ID new) = mset (SuccessIDs r)"
    and returns: "ready e \<Longrightarrow> \<exists>r e'. executes e ms r e'"

definition batch_executes ::
    "'n sender_ops \<Rightarrow> 'n batch_executor \<Rightarrow> metrics list \<Rightarrow> result \<Rightarrow> 'n batch_executor \<Rightarrow> bool" where
  "batch_executes sops e ms r e' \<longleftrightarrow> batch_Execute sops ms e = (r, e')"

definition pool_executes ::
    "'n sender_ops \<Rightarrow> 'n pool \<Rightarrow> metrics list \<Rightarrow> result \<Rightarrow> 'n pool \<Rightarrow> bool" where
  "pool_executes sops st ms r st' \<longleftrightarrow>
     (\<exists>n. pool_steps sops n (pool_Execute ms st) st') \<and> pl_expect st' = 0 \<and> r = pl_result st'"

interpretation batch: report_executor "batch_executes sops" "\<lambda>_. True" be_acked for sops
  by unfold_locales (auto simp: batch_executes_def batch_Execute_def Let_def split: prod.splits option.splits)

lemma pool_executes_inv:
  assumes "pool_ready st" and "pool_executes sops st ms r st'"
  shows "pool_inv ms (pl_acked st) st'" "pl_expect st' = 0" "r = pl_result st'"
proof -
  obtain n where "pool_steps sops n (pool_Execute ms st) st'" and e: "pl_expect st' = 0" "r = pl_result st'"
    using assms(2) by (auto simp: pool_executes_def)
  then show "pool_inv ms (pl_acked st) st'" using pool_inv_steps pool_inv_start(1) [OF assms(1)] by blast
  show "pl_expect st' = 0" "r = pl_result st'" by (fact e)+
qed

lemma pool_executes_done:
  assumes "pool_ready st" and "pool_executes sops st ms r st'"
  shows "pool_ready st'" "mset (SuccessIDs r) + mset (FailureIDs r) = mset (map m_ID ms)"
    "\<exists>new. pl_acked st' = pl_acked st @ new \<and> mset new \<subseteq># mset ms \<and> mset (map m_ID new) = mset (SuccessIDs r)"
  using pool_finished [OF pool_executes_inv(1,2) [OF assms]] pool_executes_inv(3) [OF assms] by simp_all

lemma pool_executes_some:
  assumes "pool_ready st"
  shows "\<exists>r st'. pool_executes sops st ms r st'"
proof -
  obtain st' where "pool_steps sops (pool_work (pool_Execute ms st)) (pool_Execute ms st) st'" "pl_expect st' = 0"
    using pool_completes [OF pool_inv_start(1) [OF assms]] by blast
  then show ?thesis by (auto simp: pool_executes_def)
qed

interpretation workers: report_executor "pool_executes sops" pool_ready pl_acked for sops
  by unfold_locales (fact pool_executes_done pool_executes_some)+

lemma pool_ready_new: "0 < rate \<Longrightarrow> pool_ready (NewWorkerPoolExecutor rate n)"
  by (simp add: pool_ready_def pool_open_def NewWorkerPoolExecutor_def)

text \<open>After \<open>Shutdown\<close> the workers leave their loops and nothing panics.\<close>

definition pool_quiet :: "'n pool \<Rightarrow> bool" where
  "pool_quiet st \<longleftrightarrow>
     pl_feed st = [] \<and> pl_tasks st = [] \<and> pl_expect st = 0 \<and> pl_tasks_closed st \<and> \<not> pl_panicked st \<and>
     set (pl_workers st) \<subseteq> {WIdle, WExit}"

lemma quiet_worker:
  assumes "pool_quiet st" and "worker_move sops i st = Some st'"
  shows "pool_quiet st'"
proof -
  have i: "i < length (pl_workers st)" using assms(2) by (auto simp: worker_move_def split: if_splits)
  then have "pl_workers st ! i \<in> {WIdle, WExit}" using assms(1) nth_mem [OF i] unfolding pool_quiet_def by blast
  then have "st' = st\<lparr>pl_workers := (pl_workers st)[i := WExit]\<rparr>"
    using i assms by (auto simp: worker_move_def pool_quiet_def)
  moreover have "set ((pl_workers st)[i := WExit]) \<subseteq> {WIdle, WExit}"
    using assms(1) set_update_subset_insert [of "pl_workers st" i WExit] unfolding pool_quiet_def by blast
  ultimately show ?thesis using assms(1) by (simp add: pool_quiet_def)
qed

lemma quiet_step: "pool_step sops st st' \<Longrightarrow> pool_quiet st \<Longrightarrow> pool_quiet st'"
proof (induction rule: pool_step.induct)
  case (some_move t st st')
  then show ?case using quiet_worker [of st sops _ st']
    by (cases t) (simp_all add: pool_move_def feeder_move_def collector_move_def pool_quiet_def split: if_splits)
qed

lemma quiet_steps: "pool_steps sops n st st' \<Longrightarrow> pool_quiet st \<Longrightarrow> pool_quiet st'"
  by (induction rule: pool_steps.induct) (simp_all add: quiet_step)

lemma quiet_shutdown: "pool_ready st \<Longrightarrow> pool_quiet (pool_Shutdown st)"
  by (auto simp: pool_ready_def pool_open_def pool_Shutdown_def pool_quiet_def)

text \<open>What the scheduler does is a run of the pool.\<close>

lemma pool_schedule_steps: "\<exists>n. pool_steps sops n st (pool_schedule sops ts st)"
proof (induction ts arbitrary: st)
  case Nil
  then show ?case using pool_steps.no_steps by fastforce
next
  case (Cons t ts)
  show ?case
  proof (cases "pool_move sops t st")
    case (Some st')
    obtain n where "pool_steps sops n st' (pool_schedule sops ts st')" using Cons by blast
    then show ?thesis using Some pool_steps_front pool_step.some_move by fastforce
  qed (use Cons in simp)
qed

section \<open>Properties of the executors\<close>

text \<open>The batch executor reports every metric as sent, when the sender took the whole array, or
  every metric as failed; it never splits a report.\<close>

theorem batch_all_or_nothing:
  "(case batch_Execute sops ms e of (r, e') \<Rightarrow>
     if fst (op_SendMetricArray sops ms (be_net e)) = None
     then SuccessIDs r = map m_ID ms \<and> FailureIDs r = [] \<and> be_acked e' = be_acked e @ ms
     else SuccessIDs r = [] \<and> FailureIDs r = map m_ID ms \<and> be_acked e' = be_acked e)"
  by (auto simp: batch_Execute_def Let_def split: prod.split option.split)

text \<open>C10. The answer of the worker pool, for every interleaving of its goroutines: when \<open>Execute\<close>
  returns, each metric of the report is in exactly one of the two id lists, the success list
  names exactly the metrics the sender took during this report, every channel is empty and
  every worker waits, so the next report starts from the same state.\<close>

theorem pool_answer:
  assumes "pool_ready st0" and "pool_steps sops n (pool_Execute ms st0) st" and "pl_expect st = 0"
  shows "mset (SuccessIDs (pl_result st)) + mset (FailureIDs (pl_result st)) = mset (map m_ID ms) \<and>
    (\<exists>new. pl_acked st = pl_acked st0 @ new \<and> mset new \<subseteq># mset ms \<and>
       mset (map m_ID new) = mset (SuccessIDs (pl_result st))) \<and> pool_ready st"
proof -
  have "pool_inv ms (pl_acked st0) st" using pool_inv_steps [OF assms(2) pool_inv_start(1) [OF assms(1)]] by simp
  then show ?thesis using pool_finished assms(3) by blast
qed

definition eager_sender :: "nat sender_ops" where
  "eager_sender = \<lparr>op_SendMetric = (\<lambda>m n. if even n then (None, n + 1) else (Some (Foreign ''lost''), n + 1)),
     op_SendMetricArray = (\<lambda>ms n. (None, n + 1))\<rparr>"

text \<open>Two metrics through one worker, of which the sender takes the first.\<close>

definition two_metrics :: "metrics list" where
  "two_metrics = [NewCounterMetricsWithDelta ''a'' 1, NewCounterMetricsWithDelta ''b'' 2]"

definition one_by_one :: "thread list" where
  "one_by_one =
     [Feeder, Worker 0, Worker 0, Worker 0, Collector, Feeder, Worker 0, Worker 0, Worker 0, Collector]"

lemma pool_answer_witness:
  "mset (SuccessIDs (pl_result (pool_schedule eager_sender one_by_one (pool_Execute two_metrics (NewWorkerPoolExecutor 1 0))))) +
   mset (FailureIDs (pl_result (pool_schedule eager_sender one_by_one (pool_Execute two_metrics (NewWorkerPoolExecutor 1 0))))) =
   {#''a'', ''b''#}"
proof -
  let ?st0 = "pool_Execute two_metrics (NewWorkerPoolExecutor 1 0)"
  obtain n where n: "pool_steps eager_sender n ?st0 (pool_schedule eager_sender one_by_one ?st0)"
    using pool_schedule_steps [of eager_sender ?st0 one_by_one] by blast
  have e: "pl_expect (pool_schedule eager_sender one_by_one ?st0) = 0"
    by (simp add: two_metrics_def one_by_one_def pool_Execute_def NewWorkerPoolExecutor_def pool_move_def
        feeder_move_def collector_move_def worker_move_def eager_sender_def)
  show ?thesis using pool_answer [OF pool_ready_new n e] by (simp add: two_metrics_def)
qed

text \<open>C17. The worker pool cannot hang: at every moment of a report, under every interleaving,
  either all results are collected or some goroutine can move, and a report of \<open>k\<close> metrics
  takes at most \<open>5 * k\<close> moves. No goroutine sends on a closed channel meanwhile.\<close>

theorem pool_progress_bound:
  assumes "pool_ready st0" and "pool_steps sops n (pool_Execute ms st0) st"
  shows "n \<le> 5 * length ms \<and> (pl_expect st = 0 \<or> (\<exists>st'. pool_step sops st st')) \<and> \<not> pl_panicked st"
proof -
  have "pool_inv ms (pl_acked st0) st \<and> 5 * length ms = n + pool_work st"
    using pool_inv_steps [OF assms(2) pool_inv_start(1) [OF assms(1)]] pool_inv_start(2) [OF assms(1)] by simp
  then show ?thesis using pool_progress [of ms "pl_acked st0" st sops] by (auto simp: pool_inv_def pool_open_def)
qed

lemma pool_progress_bound_witness:
  "\<not> pl_panicked (pool_Execute [NewCounterMetricsWithDelta ''a'' 1] (NewWorkerPoolExecutor 2 (0::nat)))"
  using pool_progress_bound [OF pool_ready_new pool_steps.no_steps [of eager_sender], of 2 "[NewCounterMetricsWithDelta ''a'' 1]" 0]
  by simp

text \<open>\<open>Shutdown\<close> after the last report is safe: closing both channels makes the waiting workers
  leave their loops, and no goroutine panics by sending on a closed channel.\<close>

theorem pool_shutdown_safe:
  assumes "pool_ready st0" and "pool_executes sops st0 ms r st1" and "pool_steps sops n (pool_Shutdown st1) st"
  shows "\<not> pl_panicked st \<and> set (pl_workers st) \<subseteq> {WIdle, WExit}"
  using quiet_steps [OF assms(3) quiet_shutdown [OF pool_executes_done(1) [OF assms(1,2)]]]
  by (simp add: pool_quiet_def)

lemma pool_shutdown_safe_witness:
  "\<not> pl_panicked (pool_schedule eager_sender [Worker 0, Worker 0]
     (pool_Shutdown (pool_Execute [] (NewWorkerPoolExecutor 1 0))))"
proof -
  let ?st1 = "pool_Execute [] (NewWorkerPoolExecutor 1 0)"
  have x: "pool_executes eager_sender (NewWorkerPoolExecutor 1 0) [] (pl_result ?st1) ?st1"
    using pool_steps.no_steps [of eager_sender ?st1] by (auto simp: pool_executes_def pool_Execute_def)
  obtain n where n: "pool_steps eager_sender n (pool_Shutdown ?st1)
      (pool_schedule eager_sender [Worker 0, Worker 0] (pool_Shutdown ?st1))"
    using pool_schedule_steps [of eager_sender "pool_Shutdown ?st1" "[Worker 0, Worker 0]"] by blast
  show ?thesis using pool_shutdown_safe [OF pool_ready_new x n] by simp
qed

end
