(* ===== verification/Storage.thy ===== *)
theory Storage
  imports Metrics
begin

text \<open>
  The interface \<open>repository.Storage\<close> of \<open>internal/repository/storage.go\<close>: a record of the
  methods a value of the interface carries, each a state transformer over the state \<open>'s\<close> of
  the implementation, and the contract its clients rely on, as two locales: what every
  storage promises when it answers (\<open>storage_contract\<close>), and that a storage in memory always
  answers (\<open>reliable_storage\<close>). A nil pointer in a batch is \<open>None\<close>.
\<close>

record 's storage_ops =
  op_SetGauge :: "gostring \<Rightarrow> float64 \<Rightarrow> 's \<Rightarrow> goerror option \<times> 's"
  op_AddCounter :: "gostring \<Rightarrow> int64 \<Rightarrow> 's \<Rightarrow> goerror option \<times> 's"
  op_GetByID :: "gostring \<Rightarrow> 's \<Rightarrow> (goerror + metrics) \<times> 's"
  op_BatchUpdate :: "metrics option list \<Rightarrow> 's \<Rightarrow> goerror option outcome \<times> 's"
  op_GetAllSorted :: "'s \<Rightarrow> (goerror + metrics list) \<times> 's"
  op_SetAll :: "metrics option list \<Rightarrow> 's \<Rightarrow> goerror option outcome \<times> 's"
  op_ResetAll :: "'s \<Rightarrow> goerror option \<times> 's"
  op_Ping :: "'s \<Rightarrow> goerror option \<times> 's"
  op_Close :: "'s \<Rightarrow> goerror option \<times> 's"

section \<open>The abstract store\<close>

text \<open>What a storage holds, as a map from metric ids; the two updates on it, and the effect of
  a batch of metrics that each carry the value of their type.\<close>

type_synonym view = "gostring \<Rightarrow> metrics option"

definition after_gauge :: "gostring \<Rightarrow> float64 \<Rightarrow> metrics option \<Rightarrow> metrics" where
  "after_gauge i v old = (case old of None \<Rightarrow> NewGaugeMetricsWithValue i v | Some m \<Rightarrow> Metrics_SetGauge m v)"

definition after_counter :: "gostring \<Rightarrow> int64 \<Rightarrow> metrics option \<Rightarrow> metrics" where
  "after_counter i d old = (case old of None \<Rightarrow> NewCounterMetricsWithDelta i d | Some m \<Rightarrow> Metrics_AddCounter m d)"

definition type_free :: "gostring \<Rightarrow> gostring \<Rightarrow> view \<Rightarrow> bool" where
  "type_free t i w \<longleftrightarrow> (case w i of None \<Rightarrow> True | Some m \<Rightarrow> m_MType m = t)"

definition spec_update :: "metrics \<Rightarrow> view \<Rightarrow> view" where
  "spec_update m w =
     (if m_MType m = Counter then
        (case m_Delta m of None \<Rightarrow> w | Some d \<Rightarrow> w(m_ID m \<mapsto> after_counter (m_ID m) d (w (m_ID m))))
      else if m_MType m = Gauge then
        (case m_Value m of None \<Rightarrow> w | Some v \<Rightarrow> w(m_ID m \<mapsto> after_gauge (m_ID m) v (w (m_ID m))))
      else w)"

text \<open>A well-formed metric carries the value of its type and nothing else, and a clean batch
  has well-formed metrics of one type per id.\<close>

definition well_formed :: "metrics \<Rightarrow> bool" where
  "well_formed m \<longleftrightarrow>
     (m_MType m = Counter \<and> m_Delta m \<noteq> None \<and> m_Value m = None) \<or>
     (m_MType m = Gauge \<and> m_Delta m = None \<and> m_Value m \<noteq> None)"

definition one_type_per_id :: "metrics list \<Rightarrow> bool" where
  "one_type_per_id ms \<longleftrightarrow> (\<forall>m \<in> set ms. \<forall>n \<in> set ms. m_ID m = m_ID n \<longrightarrow> m_MType m = m_MType n)"

definition clean_batch :: "metrics list \<Rightarrow> bool" where
  "clean_batch ms \<longleftrightarrow> list_all well_formed ms \<and> one_type_per_id ms"

text \<open>Some metric of the batch has another type than the one stored under its id.\<close>

definition batch_conflict :: "metrics list \<Rightarrow> view \<Rightarrow> bool" where
  "batch_conflict ms w \<longleftrightarrow> (\<exists>m \<in> set ms. \<not> type_free (m_MType m) (m_ID m) w)"

lemma type_free_simps [simp]:
  "w i = None \<Longrightarrow> type_free t i w" "w i = Some m \<Longrightarrow> type_free t i w \<longleftrightarrow> m_MType m = t"
  by (simp_all add: type_free_def)

lemma after_fields [simp]:
  "m_Value (after_gauge i v old) = Some v"
  "m_Delta (after_counter i d old) = Some ((case old of None \<Rightarrow> 0 | Some m \<Rightarrow> delta_or_0 (m_Delta m)) + d)"
  "m_Delta (after_gauge i v old) = (case old of None \<Rightarrow> None | Some m \<Rightarrow> m_Delta m)"
  "m_Value (after_counter i d old) = (case old of None \<Rightarrow> None | Some m \<Rightarrow> m_Value m)"
  "hash_ok (after_gauge i v old)" "hash_ok (after_counter i d old)"
  by (auto simp: after_gauge_def after_counter_def split: option.splits)

lemma after_ID [simp]:
  "(\<And>m. old = Some m \<Longrightarrow> m_ID m = i) \<Longrightarrow> m_ID (after_gauge i v old) = i"
  "(\<And>m. old = Some m \<Longrightarrow> m_ID m = i) \<Longrightarrow> m_ID (after_counter i d old) = i"
  by (auto simp: after_gauge_def after_counter_def split: option.splits)

lemma after_MType:
  "type_free Gauge i w \<Longrightarrow> m_MType (after_gauge i v (w i)) = Gauge"
  "type_free Counter i w \<Longrightarrow> m_MType (after_counter i d (w i)) = Counter"
  by (auto simp: after_gauge_def after_counter_def split: option.splits)

section \<open>Effects on the abstract store\<close>

text \<open>The counter value stored under an id, and the sum a batch adds to it.\<close>

definition counter_of :: "view \<Rightarrow> gostring \<Rightarrow> int64" where
  "counter_of w i = (case w i of None \<Rightarrow> 0 | Some m \<Rightarrow> delta_or_0 (m_Delta m))"

definition gauge_of :: "view \<Rightarrow> gostring \<Rightarrow> float64 option" where
  "gauge_of w i = (case w i of None \<Rightarrow> None | Some m \<Rightarrow> m_Value m)"

definition batch_sum :: "metrics list \<Rightarrow> gostring \<Rightarrow> int64" where
  "batch_sum ms i = (\<Sum>m\<leftarrow>ms. if m_ID m = i \<and> m_MType m = Counter then delta_or_0 (m_Delta m) else 0)"

text \<open>The last gauge value a batch carries for an id, or else the one stored before.\<close>

definition batch_last :: "metrics list \<Rightarrow> gostring \<Rightarrow> float64 option \<Rightarrow> float64 option" where
  "batch_last ms i old =
     fold (\<lambda>m v. if m_ID m = i \<and> m_MType m = Gauge \<and> m_Value m \<noteq> None then m_Value m else v) ms old"

lemma counter_of_spec_update:
  "counter_of (spec_update m w) i =
     counter_of w i + (if m_ID m = i \<and> m_MType m = Counter then delta_or_0 (m_Delta m) else 0)"
  by (simp add: spec_update_def counter_of_def split: option.split)

lemma counter_of_fold: "counter_of (fold spec_update ms w) i = counter_of w i + batch_sum ms i"
  by (induction ms arbitrary: w) (simp_all add: batch_sum_def counter_of_spec_update add.assoc)

lemma gauge_of_spec_update:
  "gauge_of (spec_update m w) i =
     (if m_ID m = i \<and> m_MType m = Gauge \<and> m_Value m \<noteq> None then m_Value m else gauge_of w i)"
  by (simp add: spec_update_def gauge_of_def split: option.split)

lemma gauge_of_fold: "gauge_of (fold spec_update ms w) i = batch_last ms i (gauge_of w i)"
  by (induction ms arbitrary: w) (simp_all add: batch_last_def gauge_of_spec_update)

lemma batch_sum_mset: "mset ms = mset ns \<Longrightarrow> batch_sum ms i = batch_sum ns i"
  by (simp add: batch_sum_def flip: sum_mset_sum_list)

lemma spec_update_other: "m_ID m \<noteq> i \<Longrightarrow> spec_update m w i = w i"
  by (auto simp: spec_update_def split: option.splits)

lemma spec_update_type:
  "type_free (m_MType m) (m_ID m) w \<Longrightarrow> type_free (m_MType m) (m_ID m) (spec_update m w)"
  by (cases "m_MType m = Counter"; cases "m_MType m = Gauge")
    (simp_all add: spec_update_def after_MType split: option.split)

text \<open>While a clean batch is applied, no later metric of it gets into conflict.\<close>

lemma batch_conflict_Cons:
  "batch_conflict (m # ms) w \<longleftrightarrow> \<not> type_free (m_MType m) (m_ID m) w \<or> batch_conflict ms w"
  by (simp add: batch_conflict_def)

lemma clean_batch_Cons: "clean_batch (m # ms) \<Longrightarrow> clean_batch ms"
  unfolding clean_batch_def one_type_per_id_def list_all_iff by (meson list.set_intros(2))

lemma no_conflict_step:
  assumes "one_type_per_id (m # ms)" and "\<not> batch_conflict (m # ms) w"
  shows "\<not> batch_conflict ms (spec_update m w)"
proof -
  have "type_free (m_MType n) (m_ID n) (spec_update m w)" if n: "n \<in> set ms" for n
  proof (cases "m_ID n = m_ID m")
    case True
    then have "m_MType n = m_MType m" using assms(1) n
      unfolding one_type_per_id_def by (meson list.set_intros)
    then show ?thesis using True assms(2) spec_update_type [of m w] by (simp add: batch_conflict_Cons)
  next
    case False
    then have "spec_update m w (m_ID n) = w (m_ID n)" by (intro spec_update_other) simp
    then show ?thesis using assms(2) n by (simp add: batch_conflict_def type_free_def)
  qed
  then show ?thesis by (simp add: batch_conflict_def)
qed

section \<open>The contract\<close>

text \<open>What an answer of a storage means. \<open>ok\<close> is the implementation's invariant and
  \<open>view\<close> its abstraction to an abstract store. An update either reports a type mismatch and
  changes nothing, or reports nothing and has happened; another error leaves open whether it
  happened. Reading never changes the store and never reports a metric that is not there.\<close>

locale storage_contract =
  fixes ops :: "'s storage_ops" and ok :: "'s \<Rightarrow> bool" and view :: "'s \<Rightarrow> view"
  assumes view_ID: "ok s \<Longrightarrow> view s i = Some m \<Longrightarrow> m_ID m = i"
    and view_hash: "ok s \<Longrightarrow> view s i = Some m \<Longrightarrow> hash_ok m"
    and gauge_ok: "ok s \<Longrightarrow> op_SetGauge ops i v s = (r, s') \<Longrightarrow> ok s'"
    and gauge_done: "ok s \<Longrightarrow> op_SetGauge ops i v s = (None, s') \<Longrightarrow>
          type_free Gauge i (view s) \<and> view s' = (view s)(i \<mapsto> after_gauge i v (view s i))"
    and gauge_refused: "ok s \<Longrightarrow> op_SetGauge ops i v s = (Some e, s') \<Longrightarrow>
          errors_is e ErrIncorrectAccess \<Longrightarrow> \<not> type_free Gauge i (view s) \<and> view s' = view s"
    and counter_ok: "ok s \<Longrightarrow> op_AddCounter ops i d s = (r, s') \<Longrightarrow> ok s'"
    and counter_done: "ok s \<Longrightarrow> op_AddCounter ops i d s = (None, s') \<Longrightarrow>
          type_free Counter i (view s) \<and> view s' = (view s)(i \<mapsto> after_counter i d (view s i))"
    and counter_refused: "ok s \<Longrightarrow> op_AddCounter ops i d s = (Some e, s') \<Longrightarrow>
          errors_is e ErrIncorrectAccess \<Longrightarrow> \<not> type_free Counter i (view s) \<and> view s' = view s"
    and batch_ok: "ok s \<Longrightarrow> clean_batch ms \<Longrightarrow> op_BatchUpdate ops (map Some ms) s = (rb, s') \<Longrightarrow> ok s'"
    and batch_done: "ok s \<Longrightarrow> clean_batch ms \<Longrightarrow> op_BatchUpdate ops (map Some ms) s = (Done None, s') \<Longrightarrow>
          \<not> batch_conflict ms (view s) \<and> view s' = fold spec_update ms (view s)"
    and get_frame: "ok s \<Longrightarrow> op_GetByID ops i s = (rg, s') \<Longrightarrow> ok s' \<and> view s' = view s"
    and get_found: "ok s \<Longrightarrow> op_GetByID ops i s = (Inr m, s') \<Longrightarrow> view s i = Some m"
    and get_missing: "ok s \<Longrightarrow> op_GetByID ops i s = (Inl e, s') \<Longrightarrow>
          errors_is e ErrMetricNotFound \<Longrightarrow> view s i = None"
    and all_frame: "ok s \<Longrightarrow> op_GetAllSorted ops s = (rl, s') \<Longrightarrow> ok s' \<and> view s' = view s"
    and all_found: "ok s \<Longrightarrow> op_GetAllSorted ops s = (Inr ms, s') \<Longrightarrow>
          sorted (map m_ID ms) \<and> distinct (map m_ID ms) \<and> (\<forall>m. m \<in> set ms \<longleftrightarrow> view s (m_ID m) = Some m)"

text \<open>A storage that always answers: the only error of an update is a type mismatch, and the
  only error of a read is a missing metric.\<close>

locale reliable_storage = storage_contract +
  assumes gauge_total: "ok s \<Longrightarrow> type_free Gauge i (view s) \<Longrightarrow> \<exists>s'. op_SetGauge ops i v s = (None, s')"
    and gauge_error: "ok s \<Longrightarrow> op_SetGauge ops i v s = (Some e, s') \<Longrightarrow> errors_is e ErrIncorrectAccess"
    and counter_total: "ok s \<Longrightarrow> type_free Counter i (view s) \<Longrightarrow> \<exists>s'. op_AddCounter ops i d s = (None, s')"
    and counter_error: "ok s \<Longrightarrow> op_AddCounter ops i d s = (Some e, s') \<Longrightarrow> errors_is e ErrIncorrectAccess"
    and get_total: "ok s \<Longrightarrow> view s i = Some m \<Longrightarrow> \<exists>s'. op_GetByID ops i s = (Inr m, s')"
    and get_error: "ok s \<Longrightarrow> op_GetByID ops i s = (Inl e, s') \<Longrightarrow> errors_is e ErrMetricNotFound"
    and batch_total: "ok s \<Longrightarrow> clean_batch ms \<Longrightarrow> \<not> batch_conflict ms (view s) \<Longrightarrow>
          \<exists>s'. op_BatchUpdate ops (map Some ms) s = (Done None, s')"
    and batch_refused: "ok s \<Longrightarrow> clean_batch ms \<Longrightarrow> batch_conflict ms (view s) \<Longrightarrow>
          \<exists>e s'. op_BatchUpdate ops (map Some ms) s = (Done (Some e), s') \<and>
            errors_is e ErrIncorrectAccess \<and> view s' = view s"

end
