(* ===== verification/Agent.thy ===== *)
theory Agent
  imports Accumulator Reporting Storage
begin

text \<open>
  \<open>internal/agent/poller.go\<close> and \<open>internal/agent/reporter.go\<close>: the two polls that feed the
  accumulators and the report that stages them, hands the staged metrics to an executor and
  commits or rolls back by its answer. \<open>execReport\<close> is the report on its own; the agent as it
  runs, with polls between any two critical sections of a report, is the step relation
  \<open>agent_step\<close>. The lemmas, proved for every executor that keeps its contract, say that no
  run crashes and that no increment is lost or counted twice.
\<close>

section \<open>The poller\<close>

definition storeCounterMetric :: "gostring \<Rightarrow> int64 \<Rightarrow> acc_storage \<Rightarrow> acc_storage" where
  "storeCounterMetric i d st =
     (case GetOrNew i st of (ma, st) \<Rightarrow>
        (case AccumulateCounter d ma of (err, ma) \<Rightarrow> acc_store i ma st))"

definition storeGaugeMetric :: "gostring \<Rightarrow> float64 \<Rightarrow> acc_storage \<Rightarrow> acc_storage" where
  "storeGaugeMetric i v st =
     (case GetOrNew i st of (ma, st) \<Rightarrow>
        (case AccumulateGauge v ma of (err, ma) \<Rightarrow> acc_store i ma st))"

text \<open>The fields of \<open>runtime.MemStats\<close> that are read, as the run-time system filled them.\<close>

record memstats =
  Alloc :: "64 word"
  BuckHashSys :: "64 word"
  Frees :: "64 word"
  GCCPUFraction :: float64
  GCSys :: "64 word"
  HeapAlloc :: "64 word"
  HeapIdle :: "64 word"
  HeapInuse :: "64 word"
  HeapObjects :: "64 word"
  HeapReleased :: "64 word"
  HeapSys :: "64 word"
  LastGC :: "64 word"
  Lookups :: "64 word"
  MCacheInuse :: "64 word"
  MCacheSys :: "64 word"
  MSpanInuse :: "64 word"
  MSpanSys :: "64 word"
  Mallocs :: "64 word"
  NextGC :: "64 word"
  NumForcedGC :: "32 word"
  NumGC :: "32 word"
  OtherSys :: "64 word"
  PauseTotalNs :: "64 word"
  StackInuse :: "64 word"
  StackSys :: "64 word"
  Sys :: "64 word"
  TotalAlloc :: "64 word"

text \<open>The conversion \<open>float64(x)\<close> of an unsigned integer.\<close>

definition f64_of_uint :: "'a::len word \<Rightarrow> float64" where
  "f64_of_uint x = f64_of_nat (unat x)"

text \<open>The gauges of one poll, in the order of the calls of \<open>storeGaugeMetric\<close>; \<open>rnd\<close> is what
  \<open>rand.Float64()\<close> returns.\<close>

definition memstats_gauges :: "memstats \<Rightarrow> float64 \<Rightarrow> (gostring \<times> float64) list" where
  "memstats_gauges ms rnd =
     [(''Alloc'', f64_of_uint (Alloc ms)),
      (''BuckHashSys'', f64_of_uint (BuckHashSys ms)),
      (''Frees'', f64_of_uint (Frees ms)),
      (''GCCPUFraction'', GCCPUFraction ms),
      (''GCSys'', f64_of_uint (GCSys ms)),
      (''HeapAlloc'', f64_of_uint (HeapAlloc ms)),
      (''HeapIdle'', f64_of_uint (HeapIdle ms)),
      (''HeapInuse'', f64_of_uint (HeapInuse ms)),
      (''HeapObjects'', f64_of_uint (HeapObjects ms)),
      (''HeapReleased'', f64_of_uint (HeapReleased ms)),
      (''HeapSys'', f64_of_uint (HeapSys ms)),
      (''LastGC'', f64_of_uint (LastGC ms)),
      (''Lookups'', f64_of_uint (Lookups ms)),
      (''MCacheInuse'', f64_of_uint (MCacheInuse ms)),
      (''MCacheSys'', f64_of_uint (MCacheSys ms)),
      (''MSpanInuse'', f64_of_uint (MSpanInuse ms)),
      (''MSpanSys'', f64_of_uint (MSpanSys ms)),
      (''Mallocs'', f64_of_uint (Mallocs ms)),
      (''NextGC'', f64_of_uint (NextGC ms)),
      (''NumForcedGC'', f64_of_uint (NumForcedGC ms)),
      (''NumGC'', f64_of_uint (NumGC ms)),
      (''OtherSys'', f64_of_uint (OtherSys ms)),
      (''PauseTotalNs'', f64_of_uint (PauseTotalNs ms)),
      (''StackInuse'', f64_of_uint (StackInuse ms)),
      (''StackSys'', f64_of_uint (StackSys ms)),
      (''Sys'', f64_of_uint (Sys ms)),
      (''TotalAlloc'', f64_of_uint (TotalAlloc ms)),
      (''RandomValue'', rnd)]"

definition storeGauges :: "(gostring \<times> float64) list \<Rightarrow> acc_storage \<Rightarrow> acc_storage" where
  "storeGauges gs st = fold (\<lambda>(i, v). storeGaugeMetric i v) gs st"

definition execMemstatsPoll :: "memstats \<Rightarrow> float64 \<Rightarrow> acc_storage \<Rightarrow> acc_storage" where
  "execMemstatsPoll ms rnd st =
     storeCounterMetric ''PollCount'' 1 (storeGauges (memstats_gauges ms rnd) st)"

text \<open>\<open>vmStat\<close> and \<open>cpuUtils\<close> are the answers of the gopsutil library.\<close>

definition execGopsPoll ::
    "goerror + 64 word \<times> 64 word \<Rightarrow> goerror + float64 list \<Rightarrow> acc_storage \<Rightarrow> acc_storage" where
  "execGopsPoll vmStat cpuUtils st =
     (case vmStat of
        Inl e \<Rightarrow> st
      | Inr (mtotal, mfree) \<Rightarrow>
          (let st = storeGaugeMetric ''FreeMemory'' (f64_of_uint mfree)
                      (storeGaugeMetric ''TotalMemory'' (f64_of_uint mtotal) st)
           in case cpuUtils of
                Inl e \<Rightarrow> st
              | Inr us \<Rightarrow>
                  storeGauges (map (\<lambda>(k, u). (''CPUutilization'' @ dec_string (k + 1), u)) (enumerate 0 us)) st))"

section \<open>The report\<close>

text \<open>The staging loop, over the map in iteration order: what cannot be staged is skipped, what
  has nothing to report yields no metric.\<close>

fun stage_all :: "accumulator dict \<Rightarrow> metrics list \<times> accumulator dict" where
  "stage_all [] = ([], [])"
| "stage_all ((k, ma) # rest) =
     (case StageChanges ma of (r, ma') \<Rightarrow>
        (case stage_all rest of (ms, rest') \<Rightarrow>
           (case r of Inr (Some m) \<Rightarrow> m # ms | _ \<Rightarrow> ms, (k, ma') # rest')))"

text \<open>The two settling loops. An id without an accumulator is a nil pointer.\<close>

fun commit_all :: "gostring list \<Rightarrow> acc_storage \<Rightarrow> acc_storage outcome" where
  "commit_all [] st = Done st"
| "commit_all (i # is) st =
     (case acc_Get i st of
        None \<Rightarrow> Panic
      | Some ma \<Rightarrow> commit_all is (acc_store i (snd (CommitStaged ma)) st))"

fun rollback_all :: "gostring list \<Rightarrow> acc_storage \<Rightarrow> acc_storage outcome" where
  "rollback_all [] st = Done st"
| "rollback_all (i # is) st =
     (case acc_Get i st of
        None \<Rightarrow> Panic
      | Some ma \<Rightarrow> rollback_all is (acc_store i (snd (RollbackStaged ma)) st))"

definition settle_report :: "result \<Rightarrow> acc_storage \<Rightarrow> acc_storage outcome" where
  "settle_report r st =
     (case commit_all (SuccessIDs r) st of Panic \<Rightarrow> Panic | Done st' \<Rightarrow> rollback_all (FailureIDs r) st')"

definition execReport ::
    "(metrics list \<Rightarrow> 'e \<Rightarrow> result \<times> 'e) \<Rightarrow> acc_storage \<Rightarrow> 'e \<Rightarrow> acc_storage outcome \<times> 'e" where
  "execReport Execute st e =
     (case stage_all (accums st) of (marray, accs) \<Rightarrow>
        (case Execute marray e of (r, e') \<Rightarrow> (settle_report r (st\<lparr>accums := accs\<rparr>), e')))"

section \<open>The agent as it runs\<close>

text \<open>
  The phases of a report, cut at its critical sections: the staging loop (the keys the map
  iteration still has to visit, the keys visited, the metrics staged), the call of the
  executor, the settling loops (the ids they still have to go through), a crash.
\<close>

datatype phase =
    Waiting
  | Staging "gostring list" "gostring list" "metrics list"
  | Sending "metrics list"
  | Settling "gostring list" "gostring list"
  | Crashed

text \<open>The last three fields are the history: what was polled, and the values that were committed.\<close>

record 'e agent =
  ag_stor :: acc_storage
  ag_exec :: 'e
  ag_phase :: phase
  ag_polled :: "gostring \<Rightarrow> int64"
  ag_polled_values :: "gostring \<Rightarrow> float64 list"
  ag_sent_values :: "gostring \<Rightarrow> float64 list"

definition NewAgent :: "'e \<Rightarrow> 'e agent" where
  "NewAgent e =
     \<lparr>ag_stor = NewAccumulatorStorage, ag_exec = e, ag_phase = Waiting,
      ag_polled = (\<lambda>_. 0), ag_polled_values = (\<lambda>_. []), ag_sent_values = (\<lambda>_. [])\<rparr>"

text \<open>The accumulator under an id, which is a fresh one until the first poll.\<close>

definition acc_of :: "acc_storage \<Rightarrow> gostring \<Rightarrow> accumulator" where
  "acc_of st i = (case acc_Get i st of None \<Rightarrow> NewMetricAccumulator i | Some a \<Rightarrow> a)"

text \<open>
  A poll can come at any moment. The iteration over the map visits every key that was there
  when it began, in any order, and may or may not visit a key that a poll has added since.
\<close>

inductive agent_step ::
    "('e \<Rightarrow> metrics list \<Rightarrow> result \<Rightarrow> 'e \<Rightarrow> bool) \<Rightarrow> 'e agent \<Rightarrow> 'e agent \<Rightarrow> bool" for executes where
  poll_counter: "agent_step executes st
     (st\<lparr>ag_stor := storeCounterMetric i d (ag_stor st),
        ag_polled := (ag_polled st)(i := ag_polled st i +
          (if fst (AccumulateCounter d (acc_of (ag_stor st) i)) = None then d else 0))\<rparr>)"
| poll_gauge: "agent_step executes st
     (st\<lparr>ag_stor := storeGaugeMetric i v (ag_stor st),
        ag_polled_values := (ag_polled_values st)(i := ag_polled_values st i @
          (if fst (AccumulateGauge v (acc_of (ag_stor st) i)) = None then [v] else []))\<rparr>)"
| start: "ag_phase st = Waiting \<Longrightarrow>
     agent_step executes st (st\<lparr>ag_phase := Staging (map fst (accums (ag_stor st))) [] []\<rparr>)"
| visit: "ag_phase st = Staging must seen ms \<Longrightarrow> acc_Get k (ag_stor st) = Some a \<Longrightarrow> k \<notin> set seen \<Longrightarrow>
     agent_step executes st
       (st\<lparr>ag_stor := acc_store k (snd (StageChanges a)) (ag_stor st),
          ag_phase := Staging (removeAll k must) (k # seen)
            (case fst (StageChanges a) of Inr (Some m) \<Rightarrow> ms @ [m] | _ \<Rightarrow> ms)\<rparr>)"
| send: "ag_phase st = Staging [] seen ms \<Longrightarrow> agent_step executes st (st\<lparr>ag_phase := Sending ms\<rparr>)"
| execute: "ag_phase st = Sending ms \<Longrightarrow> executes (ag_exec st) ms r e \<Longrightarrow>
     agent_step executes st (st\<lparr>ag_exec := e, ag_phase := Settling (SuccessIDs r) (FailureIDs r)\<rparr>)"
| commit: "ag_phase st = Settling (k # S) F \<Longrightarrow> acc_Get k (ag_stor st) = Some a \<Longrightarrow>
     agent_step executes st
       (st\<lparr>ag_stor := acc_store k (snd (CommitStaged a)) (ag_stor st), ag_phase := Settling S F,
          ag_sent_values := (ag_sent_values st)(k := ag_sent_values st k @ ma_stagedValues a)\<rparr>)"
| rollback: "ag_phase st = Settling [] (k # F) \<Longrightarrow> acc_Get k (ag_stor st) = Some a \<Longrightarrow>
     agent_step executes st
       (st\<lparr>ag_stor := acc_store k (snd (RollbackStaged a)) (ag_stor st), ag_phase := Settling [] F\<rparr>)"
| crash: "ag_phase st = Settling S F \<Longrightarrow> S @ F = k # rest \<Longrightarrow> acc_Get k (ag_stor st) = None \<Longrightarrow>
     agent_step executes st (st\<lparr>ag_phase := Crashed\<rparr>)"
| finish: "ag_phase st = Settling [] [] \<Longrightarrow> agent_step executes st (st\<lparr>ag_phase := Waiting\<rparr>)"

inductive agent_reach ::
    "('e \<Rightarrow> metrics list \<Rightarrow> result \<Rightarrow> 'e \<Rightarrow> bool) \<Rightarrow> 'e agent \<Rightarrow> 'e agent \<Rightarrow> bool" for executes where
  at_start: "agent_reach executes st st"
| one_step: "agent_reach executes st st' \<Longrightarrow> agent_step executes st' st'' \<Longrightarrow> agent_reach executes st st''"

section \<open>The table of accumulators\<close>

definition tables_ok :: "acc_storage \<Rightarrow> bool" where
  "tables_ok st \<longleftrightarrow> dict_ok (accums st) \<and> (\<forall>i. ma_ID (acc_of st i) = i \<and> acc_ok (acc_of st i))"

lemma acc_Get_store [simp]: "acc_Get k (acc_store i a st) = (if i = k then Some a else acc_Get k st)"
  by (simp add: acc_Get_def acc_store_def)

lemma acc_of_store [simp]: "acc_of (acc_store i a st) k = (if i = k then a else acc_of st k)"
  by (simp add: acc_of_def)

lemma acc_of_Get: "acc_Get i st = Some a \<Longrightarrow> acc_of st i = a"
  by (simp add: acc_of_def)

lemma tables_ok_store: "tables_ok st \<Longrightarrow> ma_ID a = i \<Longrightarrow> acc_ok a \<Longrightarrow> tables_ok (acc_store i a st)"
  by (auto simp: tables_ok_def) (simp add: acc_store_def)

lemma tables_ok_new [simp]: "tables_ok NewAccumulatorStorage"
  by (simp add: tables_ok_def NewAccumulatorStorage_def acc_of_def acc_Get_def) (simp add: NewMetricAccumulator_def)

text \<open>\<open>GetOrNew\<close> stores a fresh accumulator on its way, which the store that follows replaces.\<close>

lemma GetOrNew_store: "GetOrNew i st = (a, st') \<Longrightarrow> a = acc_of st i \<and> acc_store i x st' = acc_store i x st"
  by (auto simp: GetOrNew_def acc_of_def acc_Get_def acc_store_def split: option.splits)

lemma storeCounter_eq:
  "storeCounterMetric i d st = acc_store i (snd (AccumulateCounter d (acc_of st i))) st"
  using GetOrNew_store [of i st] by (fastforce simp: storeCounterMetric_def split: prod.split)

lemma storeGauge_eq:
  "storeGaugeMetric i v st = acc_store i (snd (AccumulateGauge v (acc_of st i))) st"
  using GetOrNew_store [of i st] by (fastforce simp: storeGaugeMetric_def split: prod.split)

text \<open>Every critical section replaces one accumulator by what one operation makes of it.\<close>

lemma tables_ok_ops:
  assumes "tables_ok st"
  shows "tables_ok (storeCounterMetric i d st)" "tables_ok (storeGaugeMetric i v st)"
    "tables_ok (acc_store i (snd (StageChanges (acc_of st i))) st)"
    "tables_ok (acc_store i (snd (CommitStaged (acc_of st i))) st)"
    "tables_ok (acc_store i (snd (RollbackStaged (acc_of st i))) st)"
proof -
  have "ma_ID (acc_of st i) = i" "acc_ok (acc_of st i)" using assms by (simp_all add: tables_ok_def)
  then show "tables_ok (storeCounterMetric i d st)" "tables_ok (storeGaugeMetric i v st)"
    "tables_ok (acc_store i (snd (StageChanges (acc_of st i))) st)"
    "tables_ok (acc_store i (snd (CommitStaged (acc_of st i))) st)"
    "tables_ok (acc_store i (snd (RollbackStaged (acc_of st i))) st)"
    by (simp_all add: storeCounter_eq storeGauge_eq tables_ok_store [OF assms] acc_ok_ops)
qed

section \<open>The invariant of the agent\<close>

text \<open>A metric of the running report is the staged part of its accumulator.\<close>

definition staged_as :: "acc_storage \<Rightarrow> metrics \<Rightarrow> bool" where
  "staged_as st m \<longleftrightarrow>
     (let a = acc_of st (m_ID m)
      in ma_isStaged a \<and> delta_or_0 (m_Delta m) = ma_stagedDelta a \<and> acc_Get (m_ID m) st \<noteq> None \<and>
         well_formed m)"

text \<open>The ids that are staged, by the phase, and the ids whose metric the sender has already
  taken while their accumulator still holds it.\<close>

definition staged_ids :: "acc_storage \<Rightarrow> gostring set" where
  "staged_ids st = {i. ma_isStaged (acc_of st i)}"

fun phase_ok :: "phase \<Rightarrow> acc_storage \<Rightarrow> bool" where
  "phase_ok Waiting st \<longleftrightarrow> staged_ids st = {}"
| "phase_ok (Staging must seen ms) st \<longleftrightarrow>
     staged_ids st = set (map m_ID ms) \<and> distinct (map m_ID ms) \<and> list_all (staged_as st) ms \<and>
     set (map m_ID ms) \<subseteq> set seen \<and> set must \<inter> set seen = {} \<and> set must \<subseteq> {i. acc_Get i st \<noteq> None}"
| "phase_ok (Sending ms) st \<longleftrightarrow>
     staged_ids st = set (map m_ID ms) \<and> distinct (map m_ID ms) \<and> list_all (staged_as st) ms"
| "phase_ok (Settling S F) st \<longleftrightarrow>
     staged_ids st = set (S @ F) \<and> distinct (S @ F) \<and> (\<forall>i \<in> set (S @ F). acc_Get i st \<noteq> None)"
| "phase_ok Crashed st \<longleftrightarrow> False"

definition taken_delta :: "phase \<Rightarrow> acc_storage \<Rightarrow> gostring \<Rightarrow> int64" where
  "taken_delta p st i =
     (case p of Settling S F \<Rightarrow> if i \<in> set S then ma_stagedDelta (acc_of st i) else 0 | _ \<Rightarrow> 0)"

text \<open>What the metrics the sender took add to a counter.\<close>

definition sent_delta :: "metrics list \<Rightarrow> gostring \<Rightarrow> int64" where
  "sent_delta ms i = (\<Sum>m\<leftarrow>ms. if m_ID m = i then delta_or_0 (m_Delta m) else 0)"

definition agent_ok :: "('e \<Rightarrow> metrics list) \<Rightarrow> 'e agent \<Rightarrow> bool" where
  "agent_ok acked st \<longleftrightarrow>
     tables_ok (ag_stor st) \<and> phase_ok (ag_phase st) (ag_stor st) \<and>
     (\<forall>i. ag_polled st i + taken_delta (ag_phase st) (ag_stor st) i =
          sent_delta (acked (ag_exec st)) i + pending_delta (acc_of (ag_stor st) i)) \<and>
     (\<forall>i. ag_polled_values st i = ag_sent_values st i @ pending_values (acc_of (ag_stor st) i))"

lemma sent_delta_append: "sent_delta (xs @ ys) i = sent_delta xs i + sent_delta ys i"
  by (simp add: sent_delta_def)

text \<open>A poll changes nothing that the running report looks at.\<close>

lemma staged_as_store:
  assumes "tables_ok st" and "ma_isStaged a = ma_isStaged (acc_of st i)"
    and "ma_stagedDelta a = ma_stagedDelta (acc_of st i)"
  shows "staged_ids (acc_store i a st) = staged_ids st"
    "list_all (staged_as st) ms \<Longrightarrow> list_all (staged_as (acc_store i a st)) ms"
    "taken_delta p (acc_store i a st) k = taken_delta p st k"
  using assms by (auto simp: staged_ids_def staged_as_def list_all_iff taken_delta_def Let_def split: phase.split)

lemma phase_ok_poll:
  assumes "tables_ok st" and "ma_isStaged a = ma_isStaged (acc_of st i)"
    and "ma_stagedDelta a = ma_stagedDelta (acc_of st i)" and "phase_ok p st"
  shows "phase_ok p (acc_store i a st)"
  using assms(4) by (cases p) (auto simp: staged_as_store [OF assms(1-3)])

lemma agent_ok_poll_counter:
  assumes "agent_ok acked st" and "a = snd (AccumulateCounter d (acc_of (ag_stor st) i))"
    and "x = (if fst (AccumulateCounter d (acc_of (ag_stor st) i)) = None then d else 0)"
  shows "agent_ok acked (st\<lparr>ag_stor := storeCounterMetric i d (ag_stor st),
    ag_polled := (ag_polled st)(i := ag_polled st i + x)\<rparr>)"
proof -
  let ?a = "acc_of (ag_stor st) i"
  have ok: "tables_ok (ag_stor st)" and ao: "acc_ok ?a" using assms(1) by (simp_all add: agent_ok_def tables_ok_def)
  note f = poll_counter_frame [OF ao, of d "fst (AccumulateCounter d ?a)" a, unfolded assms(2), simplified]
  show ?thesis
    using assms(1) f pending_counter [of d ?a] tables_ok_ops(1) [OF ok, of i d]
      phase_ok_poll [OF ok f(1,2), of "ag_phase st"] staged_as_store(3) [OF ok f(1,2), of "ag_phase st"]
    by (auto simp: agent_ok_def storeCounter_eq assms(3) ac_simps)
qed

lemma agent_ok_poll_gauge:
  assumes "agent_ok acked st" and "a = snd (AccumulateGauge v (acc_of (ag_stor st) i))"
    and "x = (if fst (AccumulateGauge v (acc_of (ag_stor st) i)) = None then [v] else [])"
  shows "agent_ok acked (st\<lparr>ag_stor := storeGaugeMetric i v (ag_stor st),
    ag_polled_values := (ag_polled_values st)(i := ag_polled_values st i @ x)\<rparr>)"
proof -
  let ?a = "acc_of (ag_stor st) i"
  have ok: "tables_ok (ag_stor st)" and ao: "acc_ok ?a" using assms(1) by (simp_all add: agent_ok_def tables_ok_def)
  note f = poll_gauge_frame [OF ao, of v "fst (AccumulateGauge v ?a)" a, unfolded assms(2), simplified]
  show ?thesis
    using assms(1) f pending_gauge [of v ?a] tables_ok_ops(2) [OF ok, of i v]
      phase_ok_poll [OF ok f(1,2), of "ag_phase st"] staged_as_store(3) [OF ok f(1,2), of "ag_phase st"]
    by (auto simp: agent_ok_def storeGauge_eq assms(3))
qed

lemma agent_ok_start:
  assumes "agent_ok acked st" and "ag_phase st = Waiting"
  shows "agent_ok acked (st\<lparr>ag_phase := Staging (map fst (accums (ag_stor st))) [] []\<rparr>)"
  using assms by (auto simp: agent_ok_def taken_delta_def acc_Get_def map_of_eq_None_iff image_iff)

text \<open>A visit that stages nothing.\<close>

lemma agent_ok_visit_same:
  assumes ag: "agent_ok acked st" and p: "ag_phase st = Staging must seen ms"
    and a: "acc_Get k (ag_stor st) = Some a"
  shows "agent_ok acked (st\<lparr>ag_stor := acc_store k a (ag_stor st), ag_phase := Staging (removeAll k must) (k # seen) ms\<rparr>)"
proof -
  let ?s = "ag_stor st"
  have a': "acc_of ?s k = a" using acc_of_Get [OF a] .
  have ok: "tables_ok ?s" "acc_ok a" "ma_ID a = k" using ag a' by (auto simp: agent_ok_def tables_ok_def)
  have s: "acc_of (acc_store k a ?s) i = acc_of ?s i" for i using a' by auto
  have "tables_ok (acc_store k a ?s)" using ok by (intro tables_ok_store)
  moreover have "phase_ok (Staging (removeAll k must) (k # seen) ms) (acc_store k a ?s)"
    using ag p a staged_as_store(1,2) [OF ok(1), of a k] a' by (auto simp: agent_ok_def)
  ultimately show ?thesis using ag p by (simp add: agent_ok_def taken_delta_def s del: acc_of_store)
qed

lemma agent_ok_visit:
  assumes ag: "agent_ok acked st" and p: "ag_phase st = Staging must seen ms"
    and a: "acc_Get k (ag_stor st) = Some a" and k: "k \<notin> set seen"
  shows "agent_ok acked (st\<lparr>ag_stor := acc_store k (snd (StageChanges a)) (ag_stor st),
    ag_phase := Staging (removeAll k must) (k # seen) (case fst (StageChanges a) of Inr (Some m) \<Rightarrow> ms @ [m] | _ \<Rightarrow> ms)\<rparr>)"
proof -
  let ?s = "ag_stor st"
  have a': "a = acc_of ?s k" using acc_of_Get [OF a] by simp
  have ok: "tables_ok ?s" "acc_ok a" "ma_ID a = k" using ag by (simp_all add: agent_ok_def tables_ok_def a')
  have k': "k \<notin> m_ID ` set ms" using ag p k by (auto simp: agent_ok_def)
  note t = tables_ok_ops(3) [OF ok(1), of k, folded a'] and pend = pending_stage [OF ok(2)]
  from ok(2) show ?thesis
  proof (cases rule: stage_cases)
    case (1 e)
    then show ?thesis using agent_ok_visit_same [OF ag p a] by simp
  next
    case 2
    then show ?thesis using agent_ok_visit_same [OF ag p a] by simp
  next
    case (3 m)
    let ?b = "snd (StageChanges a)"
    have id: "m_ID m = k" using 3(4) ok(3) by simp
    have d: "delta_or_0 (m_Delta m) = ma_stagedDelta ?b"
      using staged_delta [OF ok(2) 3(1)] .
    have "m_MType m = Counter \<or> m_MType m = Gauge"
      using acc_ok_stage [OF ok(2)] 3(3,5,6) unfolding acc_ok_def by metis
    then have wf: "well_formed m" using 3(7,8) by (auto simp: well_formed_def)
    have s: "staged_ids (acc_store k ?b ?s) = insert k (staged_ids ?s)"
      using 3(3) by (auto simp: staged_ids_def)
    have l: "list_all (staged_as ?s) ms \<Longrightarrow> list_all (staged_as (acc_store k ?b ?s)) (ms @ [m])"
      using k' 3(3) d id wf by (auto simp: list_all_iff staged_as_def Let_def)
    have "fst (StageChanges a) = Inr (Some m)" by (subst 3(1)) simp
    then show ?thesis using ag p s l t pend k k' a' id by (auto simp: agent_ok_def taken_delta_def)
  qed
qed

lemma agent_ok_send:
  "agent_ok acked st \<Longrightarrow> ag_phase st = Staging [] seen ms \<Longrightarrow> agent_ok acked (st\<lparr>ag_phase := Sending ms\<rparr>)"
  by (auto simp: agent_ok_def taken_delta_def)

lemma agent_ok_finish:
  "agent_ok acked st \<Longrightarrow> ag_phase st = Settling [] [] \<Longrightarrow> agent_ok acked (st\<lparr>ag_phase := Waiting\<rparr>)"
  by (auto simp: agent_ok_def taken_delta_def)

lemma agent_ok_rollback:
  assumes ag: "agent_ok acked st" and p: "ag_phase st = Settling [] (k # F)" and a: "acc_Get k (ag_stor st) = Some a"
  shows "agent_ok acked (st\<lparr>ag_stor := acc_store k (snd (RollbackStaged a)) (ag_stor st), ag_phase := Settling [] F\<rparr>)"
proof -
  have a': "a = acc_of (ag_stor st) k" using acc_of_Get [OF a] by simp
  have ok: "tables_ok (ag_stor st)" "acc_ok a" using ag by (simp_all add: agent_ok_def tables_ok_def a')
  have "staged_ids (acc_store k (snd (RollbackStaged a)) (ag_stor st)) = staged_ids (ag_stor st) - {k}"
    by (auto simp: staged_ids_def)
  then show ?thesis using ag p tables_ok_ops(5) [OF ok(1), of k] pending_rollback [OF ok(2)]
    by (auto simp: agent_ok_def taken_delta_def a')
qed

lemma agent_ok_commit:
  assumes ag: "agent_ok acked st" and p: "ag_phase st = Settling (k # S) F" and a: "acc_Get k (ag_stor st) = Some a"
  shows "agent_ok acked (st\<lparr>ag_stor := acc_store k (snd (CommitStaged a)) (ag_stor st), ag_phase := Settling S F,
    ag_sent_values := (ag_sent_values st)(k := ag_sent_values st k @ ma_stagedValues a)\<rparr>)"
proof -
  have a': "a = acc_of (ag_stor st) k" using acc_of_Get [OF a] by simp
  have ok: "tables_ok (ag_stor st)" "acc_ok a" using ag by (simp_all add: agent_ok_def tables_ok_def a')
  have "k \<in> staged_ids (ag_stor st)" using ag p by (simp add: agent_ok_def)
  then have "fst (CommitStaged a) = None" by (simp add: staged_ids_def CommitStaged_def a')
  note c = pending_commit [OF ok(2) this]
  have s: "staged_ids (acc_store k (snd (CommitStaged a)) (ag_stor st)) = staged_ids (ag_stor st) - {k}"
    by (auto simp: staged_ids_def)
  have ph: "phase_ok (Settling S F) (acc_store k (snd (CommitStaged a)) (ag_stor st))"
    using ag p s by (auto simp: agent_ok_def)
  have e: "ag_polled st i + taken_delta (Settling (k # S) F) (ag_stor st) i =
      sent_delta (acked (ag_exec st)) i + pending_delta (acc_of (ag_stor st) i)" for i
    using ag p by (simp add: agent_ok_def)
  have "k \<notin> set S" using ag p by (simp add: agent_ok_def)
  then have "ag_polled st i + taken_delta (Settling S F) (acc_store k (snd (CommitStaged a)) (ag_stor st)) i =
      sent_delta (acked (ag_exec st)) i + pending_delta (acc_of (acc_store k (snd (CommitStaged a)) (ag_stor st)) i)" for i
    using e [of i] c(1) a' by (auto simp: taken_delta_def)
  moreover have "ag_polled_values st k = (ag_sent_values st k @ ma_stagedValues a) @ pending_values (snd (CommitStaged a))"
    using ag c(2) a' by (simp add: agent_ok_def)
  ultimately show ?thesis using ag ph tables_ok_ops(4) [OF ok(1), of k, folded a'] by (simp add: agent_ok_def)
qed

section \<open>The agent over any executor\<close>

lemma sent_delta_staged:
  assumes "list_all (staged_as st) ms" and "distinct (map m_ID ms)"
  shows "sent_delta ms i = (if i \<in> m_ID ` set ms then ma_stagedDelta (acc_of st i) else 0)"
  using assms
proof (induction ms)
  case (Cons m ms)
  then show ?case by (auto simp: sent_delta_def staged_as_def Let_def)
qed (simp add: sent_delta_def)

lemma submset_staged:
  assumes "mset new \<subseteq># mset ms" and "list_all (staged_as st) ms" and "distinct (map m_ID ms)"
  shows "list_all (staged_as st) new" "distinct (map m_ID new)"
proof -
  show "list_all (staged_as st) new"
    using assms(2) set_mset_mono [OF assms(1)] by (auto simp: list_all_iff)
  have "image_mset m_ID (mset new) \<subseteq># image_mset m_ID (mset ms)" using assms(1) by (rule image_mset_subseteq_mono)
  moreover have "count (image_mset m_ID (mset ms)) i \<le> 1" for i
    using assms(3) by (metis distinct_count_atmost_1 mset_map order_eq_refl zero_le_one)
  ultimately have "count (mset (map m_ID new)) i \<le> 1" for i
    by (metis mset_map mset_subset_eq_count order_trans)
  then show "distinct (map m_ID new)"
    by (metis distinct_count_atmost_1 count_eq_zero_iff le_antisym less_one not_less set_mset_mset)
qed

context report_executor
begin

lemma agent_ok_execute:
  assumes ag: "agent_ok acked st" and r: "ready (ag_exec st)" and p: "ag_phase st = Sending ms"
    and e: "executes (ag_exec st) ms res e"
  shows "agent_ok acked (st\<lparr>ag_exec := e, ag_phase := Settling (SuccessIDs res) (FailureIDs res)\<rparr>)"
proof -
  let ?s = "ag_stor st" and ?S = "SuccessIDs res" and ?F = "FailureIDs res"
  have ms: "staged_ids ?s = set (map m_ID ms)" "distinct (map m_ID ms)" "list_all (staged_as ?s) ms"
    using ag p by (simp_all add: agent_ok_def)
  have m: "mset (?S @ ?F) = mset (map m_ID ms)" using answers [OF r e] by simp
  then have "distinct (?S @ ?F)" "set (?S @ ?F) = set (map m_ID ms)"
    using ms(2) by (metis mset_eq_imp_distinct_iff, metis mset_eq_setD)
  then have ph: "phase_ok (Settling ?S ?F) ?s"
    using ms(1,3) by (auto simp: list_all_iff staged_as_def Let_def)
  obtain new where new: "acked e = acked (ag_exec st) @ new" "mset new \<subseteq># mset ms" "mset (map m_ID new) = mset ?S"
    using accounts [OF r e] by blast
  have "m_ID ` set new = set ?S" using new(3) by (metis list.set_map mset_eq_setD)
  then have "taken_delta (Settling ?S ?F) ?s i = sent_delta new i" for i
    using sent_delta_staged [OF submset_staged [OF new(2) ms(3,2)], of i] by (simp add: taken_delta_def)
  then show ?thesis using ag p ph new(1) by (simp add: agent_ok_def sent_delta_append taken_delta_def [of "Sending ms"])
qed

lemma agent_step_ok:
  assumes "agent_step executes st st'" and "agent_ok acked st \<and> ready (ag_exec st)"
  shows "agent_ok acked st' \<and> ready (ag_exec st')"
  using assms
proof (induction rule: agent_step.induct)
  case (poll_counter st i d)
  then show ?case using agent_ok_poll_counter [OF _ refl refl, of acked st i d] by simp
next
  case (poll_gauge st i v)
  then show ?case using agent_ok_poll_gauge [OF _ refl refl, of acked st i v] by simp
next
  case (start st)
  then show ?case using agent_ok_start [of acked st] by simp
next
  case (visit st must seen ms k a)
  then show ?case using agent_ok_visit [of acked st must seen ms k a] by simp
next
  case (send st seen ms)
  then show ?case using agent_ok_send [of acked st seen ms] by simp
next
  case (execute st ms r e)
  then show ?case using agent_ok_execute [of st ms r e] stays_ready [of "ag_exec st" ms r e] by simp
next
  case (commit st k S F a)
  then show ?case using agent_ok_commit [of acked st k S F a] by simp
next
  case (rollback st k F a)
  then show ?case using agent_ok_rollback [of acked st k F a] by simp
next
  case (crash st S F k rest)
  then have "k \<in> set (S @ F)" by (metis list.set_intros(1))
  then show ?case using crash by (auto simp: agent_ok_def)
next
  case (finish st)
  then show ?case using agent_ok_finish [of acked st] by simp
qed

lemma agent_reach_ok:
  "agent_reach executes st st' \<Longrightarrow> agent_ok acked st \<and> ready (ag_exec st) \<Longrightarrow>
     agent_ok acked st' \<and> ready (ag_exec st')"
  by (induction rule: agent_reach.induct) (simp_all add: agent_step_ok)

text \<open>An invariant of the executor that every clean report keeps is an invariant of the agent.\<close>

lemma agent_reach_executor:
  assumes "agent_reach executes st st'" and "agent_ok acked st \<and> ready (ag_exec st)" and "J (ag_exec st)"
    and keep: "\<And>e ms r e'. J e \<Longrightarrow> clean_batch ms \<Longrightarrow> executes e ms r e' \<Longrightarrow> J e'"
  shows "J (ag_exec st')"
  using assms(1-3)
proof (induction rule: agent_reach.induct)
  case (one_step st st' st'')
  have ok: "agent_ok acked st'" and j: "J (ag_exec st')"
    using agent_reach_ok [OF one_step.hyps(1)] one_step.prems one_step.IH by blast+
  show ?case using one_step.hyps(2)
  proof cases
    case (execute ms r e)
    have "clean_batch ms" using ok execute(2)
      by (auto simp: agent_ok_def clean_batch_def one_type_per_id_def list_all_iff staged_as_def Let_def distinct_map inj_on_def)
    then show ?thesis using keep [OF j _ execute(3)] execute(1) by simp
  qed (use j in simp_all)
qed simp

lemma agent_ok_new: "acked e = [] \<Longrightarrow> agent_ok acked (NewAgent e)"
  by (simp add: agent_ok_def NewAgent_def taken_delta_def sent_delta_def staged_ids_def acc_of_def acc_Get_def
      NewAccumulatorStorage_def tables_ok_new [unfolded NewAccumulatorStorage_def])
    (simp add: NewMetricAccumulator_def)

end

section \<open>The report on its own is a run of the agent\<close>

lemma agent_reach_trans: "agent_reach ex st' st'' \<Longrightarrow> agent_reach ex st st' \<Longrightarrow> agent_reach ex st st''"
  by (induction rule: agent_reach.induct) (auto intro: agent_reach.intros)

lemma agent_reach_first: "agent_step ex st st' \<Longrightarrow> agent_reach ex st' st'' \<Longrightarrow> agent_reach ex st st''"
  by (rule agent_reach_trans, assumption) (rule agent_reach.one_step [OF agent_reach.at_start])

text \<open>The steps of a report are those that change its phase; a poll changes none.\<close>

definition report_step ::
    "('e \<Rightarrow> metrics list \<Rightarrow> result \<Rightarrow> 'e \<Rightarrow> bool) \<Rightarrow> 'e agent \<Rightarrow> 'e agent \<Rightarrow> bool" where
  "report_step executes st st' \<longleftrightarrow> agent_step executes st st' \<and> ag_phase st' \<noteq> ag_phase st"

abbreviation report_reach ::
    "('e \<Rightarrow> metrics list \<Rightarrow> result \<Rightarrow> 'e \<Rightarrow> bool) \<Rightarrow> 'e agent \<Rightarrow> 'e agent \<Rightarrow> bool" where
  "report_reach executes \<equiv> rtranclp (report_step executes)"

lemma report_first:
  "agent_step ex st st' \<Longrightarrow> ag_phase st' \<noteq> ag_phase st \<Longrightarrow> report_reach ex st' st'' \<Longrightarrow> report_reach ex st st''"
  by (rule converse_rtranclp_into_rtranclp [of "report_step ex"]) (simp_all add: report_step_def)

lemma report_continue:
  assumes "agent_step ex st st1" and "ag_phase st1 \<noteq> ag_phase st" and "\<exists>st'. report_reach ex st1 st' \<and> P st'"
  shows "\<exists>st'. report_reach ex st st' \<and> P st'"
  using report_first [OF assms(1,2)] assms(3) by blast

lemma report_reach_agent: "report_reach ex st st' \<Longrightarrow> agent_reach ex st st'"
  by (induction rule: rtranclp_induct) (auto simp: report_step_def intro: agent_reach.intros)

lemma update_middle:
  "distinct (map fst (xs @ (k, a) # ys)) \<Longrightarrow> dict_put (xs @ (k, a) # ys) k b = xs @ (k, b) # ys"
  by (induction xs) auto

lemma get_middle: "distinct (map fst (xs @ (k, a) # ys)) \<Longrightarrow> dict_get (xs @ (k, a) # ys) k = Some a"
  by (induction xs) auto

lemma stage_all_keys: "stage_all d = (ms, d') \<Longrightarrow> map fst d' = map fst d"
proof (induction d arbitrary: ms d')
  case (Cons x d)
  then show ?case by (cases x) (auto split: prod.splits)
qed simp

lemma stage_all_run:
  assumes "stage_all rest = (ms', rest')" and "ag_phase st = Staging (map fst rest) seen ms"
    and "accums (ag_stor st) = before @ rest" and "distinct (map fst (before @ rest))"
    and "set (map fst rest) \<inter> set seen = {}"
  shows "\<exists>seen'. agent_reach ex st
    (st\<lparr>ag_stor := (ag_stor st)\<lparr>accums := before @ rest'\<rparr>, ag_phase := Staging [] seen' (ms @ ms')\<rparr>)"
  using assms
proof (induction rest arbitrary: ms' rest' st seen ms before)
  case Nil
  then have "st\<lparr>ag_stor := (ag_stor st)\<lparr>accums := before @ rest'\<rparr>, ag_phase := Staging [] seen (ms @ ms')\<rparr> = st" by simp
  then show ?case by (metis agent_reach.at_start)
next
  case (Cons x rest)
  obtain k a where x: "x = (k, a)" by fastforce
  obtain r b where b: "StageChanges a = (r, b)" by fastforce
  obtain ms2 rest2 where r2: "stage_all rest = (ms2, rest2)" by fastforce
  define m1 where "m1 = (case r of Inr (Some m) \<Rightarrow> [m] | _ \<Rightarrow> [])"
  have res: "ms' = m1 @ ms2" "rest' = (k, b) # rest2"
    using Cons.prems(1) by (auto simp: x b r2 m1_def split: sum.splits option.splits)
  define st1 where "st1 = st\<lparr>ag_stor := acc_store k b (ag_stor st),
    ag_phase := Staging (removeAll k (map fst (x # rest))) (k # seen)
      (case fst (StageChanges a) of Inr (Some m) \<Rightarrow> ms @ [m] | _ \<Rightarrow> ms)\<rparr>"
  have d: "distinct (map fst (before @ (k, a) # rest))" using Cons.prems(4) x by simp
  have g: "acc_Get k (ag_stor st) = Some a"
    unfolding acc_Get_def Cons.prems(3) x by (rule get_middle) (rule d)
  have nk: "k \<notin> set seen" "k \<notin> set (map fst rest)" using Cons.prems(4,5) x by auto
  have step: "agent_step ex st st1"
    using agent_step.visit [OF Cons.prems(2) g nk(1)] by (simp add: st1_def b)
  have a1: "accums (ag_stor st1) = (before @ [(k, b)]) @ rest"
    using update_middle [OF d] by (simp add: st1_def acc_store_def Cons.prems(3) x)
  have p1: "ag_phase st1 = Staging (map fst rest) (k # seen) (ms @ m1)"
    using nk by (simp add: st1_def x b m1_def split: sum.split option.split)
  have "\<exists>seen'. agent_reach ex st1
    (st1\<lparr>ag_stor := (ag_stor st1)\<lparr>accums := (before @ [(k, b)]) @ rest2\<rparr>, ag_phase := Staging [] seen' ((ms @ m1) @ ms2)\<rparr>)"
    by (rule Cons.IH [OF r2 p1 a1]) (use d nk Cons.prems(5) in auto)
  then show ?case using agent_reach_first [OF step] by (auto simp: st1_def res acc_store_def)
qed

lemma rollback_all_run:
  assumes "rollback_all F (ag_stor st) = Done stor'" and "ag_phase st = Settling [] F"
  shows "agent_reach ex st (st\<lparr>ag_stor := stor', ag_phase := Settling [] []\<rparr>)"
  using assms
proof (induction F arbitrary: st)
  case Nil
  then have "st\<lparr>ag_stor := stor', ag_phase := Settling [] []\<rparr> = st" by simp
  then show ?case by (metis agent_reach.at_start)
next
  case (Cons k F)
  then obtain a where a: "acc_Get k (ag_stor st) = Some a"
    and d: "rollback_all F (acc_store k (snd (RollbackStaged a)) (ag_stor st)) = Done stor'"
    by (auto split: option.splits)
  let ?st = "st\<lparr>ag_stor := acc_store k (snd (RollbackStaged a)) (ag_stor st), ag_phase := Settling [] F\<rparr>"
  have "agent_reach ex ?st (?st\<lparr>ag_stor := stor', ag_phase := Settling [] []\<rparr>)" by (rule Cons.IH) (simp_all add: d)
  then show ?case using agent_reach_first [OF agent_step.rollback [OF Cons.prems(2) a]] by simp
qed

lemma commit_all_run:
  assumes "commit_all S (ag_stor st) = Done stor'" and "ag_phase st = Settling S F"
  shows "\<exists>sv. agent_reach ex st (st\<lparr>ag_stor := stor', ag_phase := Settling [] F, ag_sent_values := sv\<rparr>)"
  using assms
proof (induction S arbitrary: st)
  case Nil
  then have "st\<lparr>ag_stor := stor', ag_phase := Settling [] F, ag_sent_values := ag_sent_values st\<rparr> = st" by simp
  then show ?case by (metis agent_reach.at_start)
next
  case (Cons k S)
  then obtain a where a: "acc_Get k (ag_stor st) = Some a"
    and d: "commit_all S (acc_store k (snd (CommitStaged a)) (ag_stor st)) = Done stor'"
    by (auto split: option.splits)
  let ?st = "st\<lparr>ag_stor := acc_store k (snd (CommitStaged a)) (ag_stor st), ag_phase := Settling S F,
    ag_sent_values := (ag_sent_values st)(k := ag_sent_values st k @ ma_stagedValues a)\<rparr>"
  have "\<exists>sv. agent_reach ex ?st (?st\<lparr>ag_stor := stor', ag_phase := Settling [] F, ag_sent_values := sv\<rparr>)"
    by (rule Cons.IH) (simp_all add: d)
  then show ?case using agent_reach_first [OF agent_step.commit [OF Cons.prems(2) a]] by fastforce
qed

text \<open>The settling loops never meet an id without an accumulator when they know them all.\<close>

lemma rollback_all_total: "\<forall>i \<in> set F. acc_Get i st \<noteq> None \<Longrightarrow> \<exists>st'. rollback_all F st = Done st'"
proof (induction F arbitrary: st)
  case (Cons i F)
  then show ?case by (cases "acc_Get i st") simp_all
qed simp

lemma commit_all_total:
  "\<forall>i \<in> set S. acc_Get i st \<noteq> None \<Longrightarrow>
     \<exists>st'. commit_all S st = Done st' \<and> (\<forall>i. acc_Get i st \<noteq> None \<longrightarrow> acc_Get i st' \<noteq> None)"
proof (induction S arbitrary: st)
  case (Cons i S)
  then obtain a where a: "acc_Get i st = Some a" by fastforce
  have "\<forall>j \<in> set S. acc_Get j (acc_store i (snd (CommitStaged a)) st) \<noteq> None" using Cons.prems by simp
  from Cons.IH [OF this] show ?case using a by (auto split: if_splits)
qed simp

lemma settle_report_total:
  assumes "\<forall>i \<in> set (SuccessIDs r @ FailureIDs r). acc_Get i st \<noteq> None"
  shows "\<exists>st'. settle_report r st = Done st'"
proof -
  obtain st1 where s: "commit_all (SuccessIDs r) st = Done st1" "\<forall>i. acc_Get i st \<noteq> None \<longrightarrow> acc_Get i st1 \<noteq> None"
    using commit_all_total [of "SuccessIDs r" st] assms by auto
  then show ?thesis using rollback_all_total [of "FailureIDs r" st1] assms by (auto simp: settle_report_def)
qed

lemma agent_update_order:
  "st\<lparr>ag_sent_values := sv, ag_stor := a, ag_phase := p\<rparr> = st\<lparr>ag_stor := a, ag_phase := p, ag_sent_values := sv\<rparr>"
  by (cases st) simp

context report_executor
begin

lemma execReport_run:
  assumes ag: "agent_ok acked st" "ready (ag_exec st)" and w: "ag_phase st = Waiting"
    and ex: "\<And>ms r e'. Execute ms (ag_exec st) = (r, e') \<Longrightarrow> executes (ag_exec st) ms r e'"
  shows "\<exists>stor' e' sv. execReport Execute (ag_stor st) (ag_exec st) = (Done stor', e') \<and>
    agent_reach executes st (st\<lparr>ag_stor := stor', ag_exec := e', ag_phase := Waiting, ag_sent_values := sv\<rparr>)"
proof -
  obtain ms accs where s: "stage_all (accums (ag_stor st)) = (ms, accs)" by fastforce
  obtain r e' where r: "Execute ms (ag_exec st) = (r, e')" by fastforce
  define st1 where "st1 = st\<lparr>ag_phase := Staging (map fst (accums (ag_stor st))) [] []\<rparr>"
  have s1: "agent_step executes st st1" unfolding st1_def by (rule agent_step.start [OF w])
  have d: "distinct (map fst (accums (ag_stor st)))" using ag(1) by (simp add: agent_ok_def tables_ok_def dict_ok_def)
  have "\<exists>seen'. agent_reach executes st1
    (st1\<lparr>ag_stor := (ag_stor st1)\<lparr>accums := [] @ accs\<rparr>, ag_phase := Staging [] seen' ([] @ ms)\<rparr>)"
    by (rule stage_all_run [OF s, where seen = "[]" and before = "[]" and ms = "[]"]) (use d in \<open>simp_all add: st1_def\<close>)
  then obtain seen' where s2: "agent_reach executes st1
    (st1\<lparr>ag_stor := (ag_stor st1)\<lparr>accums := accs\<rparr>, ag_phase := Staging [] seen' ms\<rparr>)" by auto
  define st2 where "st2 = st\<lparr>ag_stor := (ag_stor st)\<lparr>accums := accs\<rparr>, ag_phase := Sending ms\<rparr>"
  have "agent_reach executes st1 st2"
    using agent_reach.one_step [OF s2 agent_step.send] by (simp add: st1_def st2_def)
  then have r2: "agent_reach executes st st2" by (rule agent_reach_first [OF s1])
  define st3 where "st3 = st2\<lparr>ag_exec := e', ag_phase := Settling (SuccessIDs r) (FailureIDs r)\<rparr>"
  have "agent_step executes st2 st3" unfolding st3_def
    by (rule agent_step.execute) (use ex [OF r] in \<open>simp_all add: st2_def\<close>)
  then have r3: "agent_reach executes st st3" by (rule agent_reach.one_step [OF r2])
  then have "agent_ok acked st3" using agent_reach_ok ag by blast
  then obtain stor' where stor': "settle_report r (ag_stor st3) = Done stor'"
    using settle_report_total [of r "ag_stor st3"] by (auto simp: agent_ok_def st3_def)
  then obtain stor1 where c: "commit_all (SuccessIDs r) (ag_stor st3) = Done stor1"
      "rollback_all (FailureIDs r) stor1 = Done stor'"
    by (auto simp: settle_report_def split: outcome.splits)
  obtain sv where r4: "agent_reach executes st3 (st3\<lparr>ag_stor := stor1, ag_phase := Settling [] (FailureIDs r), ag_sent_values := sv\<rparr>)"
    using commit_all_run [OF c(1)] by (auto simp: st3_def)
  have r5: "agent_reach executes (st3\<lparr>ag_stor := stor1, ag_phase := Settling [] (FailureIDs r), ag_sent_values := sv\<rparr>)
      (st3\<lparr>ag_stor := stor', ag_phase := Settling [] [], ag_sent_values := sv\<rparr>)"
    using rollback_all_run [of "FailureIDs r" "st3\<lparr>ag_stor := stor1, ag_phase := Settling [] (FailureIDs r), ag_sent_values := sv\<rparr>" stor' executes] c(2)
    by (simp add: agent_update_order)
  have "agent_reach executes st (st3\<lparr>ag_stor := stor', ag_phase := Settling [] [], ag_sent_values := sv\<rparr>)"
    by (rule agent_reach_trans [OF r5 agent_reach_trans [OF r4 r3]])
  from agent_reach.one_step [OF this agent_step.finish]
  have "agent_reach executes st (st3\<lparr>ag_stor := stor', ag_phase := Settling [] [], ag_sent_values := sv\<rparr>\<lparr>ag_phase := Waiting\<rparr>)"
    by simp
  moreover have "st3\<lparr>ag_stor := stor', ag_phase := Settling [] [], ag_sent_values := sv\<rparr>\<lparr>ag_phase := Waiting\<rparr> =
      st\<lparr>ag_stor := stor', ag_exec := e', ag_phase := Waiting, ag_sent_values := sv\<rparr>"
    by (cases st) (simp add: st3_def st2_def)
  moreover have "execReport Execute (ag_stor st) (ag_exec st) = (Done stor', e')"
    using s r stor' by (simp add: execReport_def st3_def st2_def)
  ultimately show ?thesis by auto
qed

text \<open>Whatever has happened, the running report can be brought to its end, without any poll.\<close>

lemma finish_settling:
  "agent_ok acked st \<and> ready (ag_exec st) \<Longrightarrow> ag_phase st = Settling S F \<Longrightarrow>
     \<exists>st'. report_reach executes st st' \<and> ag_phase st' = Waiting"
proof (induction "length S + length F" arbitrary: S F st rule: less_induct)
  case less
  have has: "acc_Get i (ag_stor st) \<noteq> None" if "i \<in> set (S @ F)" for i
    using less.prems that by (auto simp: agent_ok_def)
  consider k S' where "S = k # S'" | k F' where "S = []" "F = k # F'" | "S = []" "F = []"
    by (meson list.exhaust)
  then show ?case
  proof cases
    case 1
    then obtain a where a: "acc_Get k (ag_stor st) = Some a" using has [of k] by auto
    note s = agent_step.commit [OF less.prems(2) [unfolded 1] a, of executes]
    show ?thesis by (rule report_continue [OF s], simp add: less.prems(2) 1)
      (rule less.hyps [of S' F, OF _ agent_step_ok [OF s less.prems(1)]], simp_all add: 1)
  next
    case 2
    then obtain a where a: "acc_Get k (ag_stor st) = Some a" using has [of k] by auto
    note s = agent_step.rollback [OF less.prems(2) [unfolded 2] a, of executes]
    show ?thesis by (rule report_continue [OF s], simp add: less.prems(2) 2)
      (rule less.hyps [of "[]" F', OF _ agent_step_ok [OF s less.prems(1)]], simp_all add: 2)
  next
    case 3
    show ?thesis by (rule report_continue [OF agent_step.finish [OF less.prems(2) [unfolded 3]]])
      (auto simp: less.prems(2))
  qed
qed

lemma finish_sending:
  assumes "agent_ok acked st \<and> ready (ag_exec st)" and "ag_phase st = Sending ms"
  shows "\<exists>st'. report_reach executes st st' \<and> ag_phase st' = Waiting"
proof -
  obtain r e where "executes (ag_exec st) ms r e" using returns assms(1) by blast
  note s = agent_step.execute [of st ms executes r e, OF assms(2) this]
  show ?thesis by (rule report_continue [OF s], simp add: assms(2))
    (rule finish_settling [OF agent_step_ok [OF s assms(1)]], simp)
qed

lemma finish_staging:
  "agent_ok acked st \<and> ready (ag_exec st) \<Longrightarrow> ag_phase st = Staging must seen ms \<Longrightarrow>
     \<exists>st'. report_reach executes st st' \<and> ag_phase st' = Waiting"
proof (induction "length must" arbitrary: must seen ms st rule: less_induct)
  case less
  show ?case
  proof (cases must)
    case Nil
    note s = agent_step.send [OF less.prems(2) [unfolded Nil], of executes]
    show ?thesis by (rule report_continue [OF s], simp add: less.prems(2))
      (rule finish_sending [OF agent_step_ok [OF s less.prems(1)]], simp)
  next
    case (Cons k rest)
    then obtain a where a: "acc_Get k (ag_stor st) = Some a" and k: "k \<notin> set seen"
      using less.prems by (auto simp: agent_ok_def)
    note s = agent_step.visit [OF less.prems(2) a k, of executes]
    have "length (removeAll k must) < length must"
      using Cons length_removeAll_less [of k must] by simp
    then show ?thesis by (intro report_continue [OF s]) (simp add: less.prems(2),
        rule less.hyps [of "removeAll k must", OF _ agent_step_ok [OF s less.prems(1)]], simp_all)
  qed
qed

lemma report_can_finish:
  assumes "agent_ok acked st \<and> ready (ag_exec st)"
  shows "\<exists>st'. report_reach executes st st' \<and> ag_phase st' = Waiting"
proof (cases "ag_phase st")
  case Waiting
  then show ?thesis using rtranclp.rtrancl_refl by blast
next
  case Crashed
  then show ?thesis using assms by (simp add: agent_ok_def)
qed (use assms finish_staging finish_sending finish_settling in blast)+

end

section \<open>What the polls collect\<close>

text \<open>Every id but \<open>PollCount\<close> is a gauge, and \<open>PollCount\<close> is a counter.\<close>

definition poll_type :: "gostring \<Rightarrow> gostring \<Rightarrow> bool" where
  "poll_type i t \<longleftrightarrow> t = [] \<or> t = (if i = ''PollCount'' then Counter else Gauge)"

definition poll_types :: "acc_storage \<Rightarrow> bool" where
  "poll_types st \<longleftrightarrow> (\<forall>i. poll_type i (ma_MType (acc_of st i)))"

lemma poll_types_new [simp]: "poll_types NewAccumulatorStorage"
  by (simp add: poll_types_def poll_type_def acc_of_def acc_Get_def NewAccumulatorStorage_def NewMetricAccumulator_def)

lemma poll_types_store: "poll_types st \<Longrightarrow> poll_type i (ma_MType a) \<Longrightarrow> poll_types (acc_store i a st)"
  by (simp add: poll_types_def)

lemma poll_typesD: "poll_types st \<Longrightarrow> poll_type i (ma_MType (acc_of st i))"
  by (simp add: poll_types_def)

lemma poll_type_ops:
  "i \<noteq> ''PollCount'' \<Longrightarrow> poll_type i (ma_MType a) \<Longrightarrow> poll_type i (ma_MType (snd (AccumulateGauge v a)))"
  "poll_type ''PollCount'' (ma_MType a) \<Longrightarrow> poll_type ''PollCount'' (ma_MType (snd (AccumulateCounter d a)))"
  by (auto simp: poll_type_def AccumulateGauge_def AccumulateCounter_def Let_def split: option.split)

lemma poll_types_gauge: "poll_types st \<Longrightarrow> i \<noteq> ''PollCount'' \<Longrightarrow> poll_types (storeGaugeMetric i v st)"
  unfolding storeGauge_eq by (intro poll_types_store poll_type_ops(1) poll_typesD)

lemma poll_types_counter: "poll_types st \<Longrightarrow> poll_types (storeCounterMetric ''PollCount'' d st)"
  unfolding storeCounter_eq by (intro poll_types_store poll_type_ops(2) poll_typesD)

lemma store_gauge_values:
  assumes "poll_types st" and "i \<noteq> ''PollCount''"
  shows "ma_Values (acc_of (storeGaugeMetric i v st) k) = ma_Values (acc_of st k) @ (if i = k then [v] else [])"
    "ma_Delta (acc_of (storeGaugeMetric i v st) k) = ma_Delta (acc_of st k)"
proof -
  have "ma_MType (acc_of st i) \<in> {[], Gauge}"
    using poll_typesD [OF assms(1), of i] assms(2) by (simp add: poll_type_def)
  then show "ma_Values (acc_of (storeGaugeMetric i v st) k) = ma_Values (acc_of st k) @ (if i = k then [v] else [])"
    "ma_Delta (acc_of (storeGaugeMetric i v st) k) = ma_Delta (acc_of st k)"
    by (auto simp: storeGauge_eq AccumulateGauge_def Let_def)
qed

lemma store_gauges_values:
  "poll_types st \<Longrightarrow> ''PollCount'' \<notin> set (map fst gs) \<Longrightarrow>
     poll_types (storeGauges gs st) \<and>
     ma_Values (acc_of (storeGauges gs st) k) = ma_Values (acc_of st k) @ map snd (filter (\<lambda>g. fst g = k) gs) \<and>
     ma_Delta (acc_of (storeGauges gs st) k) = ma_Delta (acc_of st k)"
proof (induction gs arbitrary: st)
  case (Cons g gs)
  obtain i v where g: "g = (i, v)" by fastforce
  have "i \<noteq> ''PollCount''" using Cons.prems(2) g by auto
  moreover have "storeGauges (g # gs) st = storeGauges gs (storeGaugeMetric i v st)" by (simp add: storeGauges_def g)
  ultimately show ?case
    using Cons.IH [of "storeGaugeMetric i v st"] Cons.prems poll_types_gauge store_gauge_values [of st i v k] g by auto
qed (simp add: storeGauges_def)

lemma memstats_gauges_names: "''PollCount'' \<notin> set (map fst (memstats_gauges ms rnd))"
  by (simp add: memstats_gauges_def)

lemma memstats_poll_values:
  assumes "poll_types st"
  shows "poll_types (execMemstatsPoll ms rnd st)"
    "ma_Values (acc_of (execMemstatsPoll ms rnd st) k) =
       ma_Values (acc_of st k) @ map snd (filter (\<lambda>g. fst g = k) (memstats_gauges ms rnd))"
    "ma_Delta (acc_of (execMemstatsPoll ms rnd st) ''PollCount'') = Some (delta_or_0 (ma_Delta (acc_of st ''PollCount'')) + 1)"
proof -
  let ?g = "storeGauges (memstats_gauges ms rnd) st"
  have g: "poll_types ?g" "ma_Values (acc_of ?g k) = ma_Values (acc_of st k) @ map snd (filter (\<lambda>g. fst g = k) (memstats_gauges ms rnd))"
    "ma_Delta (acc_of ?g ''PollCount'') = ma_Delta (acc_of st ''PollCount'')" for k
    using store_gauges_values [OF assms memstats_gauges_names] by blast+
  have "ma_MType (acc_of ?g ''PollCount'') \<in> {[], Counter}"
    using poll_typesD [OF g(1), of "''PollCount''"] by (simp add: poll_type_def)
  then show "ma_Values (acc_of (execMemstatsPoll ms rnd st) k) =
       ma_Values (acc_of st k) @ map snd (filter (\<lambda>g. fst g = k) (memstats_gauges ms rnd))"
    "ma_Delta (acc_of (execMemstatsPoll ms rnd st) ''PollCount'') = Some (delta_or_0 (ma_Delta (acc_of st ''PollCount'')) + 1)"
    using g(2) [of k] g(3) by (auto simp: execMemstatsPoll_def storeCounter_eq AccumulateCounter_def Let_def split: option.splits)
  show "poll_types (execMemstatsPoll ms rnd st)" unfolding execMemstatsPoll_def by (rule poll_types_counter [OF g(1)])
qed

definition memstats_polls :: "(memstats \<times> float64) list \<Rightarrow> acc_storage" where
  "memstats_polls ps = fold (\<lambda>(ms, rnd). execMemstatsPoll ms rnd) ps NewAccumulatorStorage"

lemma memstats_polls_snoc: "memstats_polls (ps @ [(ms, rnd)]) = execMemstatsPoll ms rnd (memstats_polls ps)"
  by (simp add: memstats_polls_def)

section \<open>Properties of the agent\<close>



text \<open>Conservation, with the batch executor: the same balance when every report is one request,
  which either carries the whole report or nothing.\<close>

theorem agent_conserves_batch:
  assumes "agent_reach (batch_executes sops) (NewAgent (NewBatchExecutor n)) st" and "ag_phase st = Waiting"
  shows "ag_polled st i = sent_delta (be_acked (ag_exec st)) i + pending_delta (acc_of (ag_stor st) i) \<and>
    ag_polled_values st i = ag_sent_values st i @ pending_values (acc_of (ag_stor st) i) \<and>
    \<not> ma_isStaged (acc_of (ag_stor st) i)"
proof -
  have "agent_ok be_acked (NewAgent (NewBatchExecutor n))"
    by (rule batch.agent_ok_new) (simp add: NewBatchExecutor_def)
  then have "agent_ok be_acked st" using batch.agent_reach_ok [OF assms(1)] by blast
  then show ?thesis using assms(2) by (auto simp: agent_ok_def taken_delta_def staged_ids_def)
qed

lemma agent_conserves_batch_witness:
  "\<not> ma_isStaged (acc_of (ag_stor (NewAgent (NewBatchExecutor (0::nat)))) ''Alloc'')"
  using agent_conserves_batch [OF agent_reach.at_start [of "batch_executes eager_sender"], of "0" "''Alloc''"]
  by (simp add: NewAgent_def)



text \<open>C27. A report without polls in between, in one piece: from a table with nothing staged,
  \<open>execReport\<close> over the batch executor does not panic, leaves nothing staged, and what was
  pending for an id is what the sender took for it in this report plus what is pending after.\<close>

theorem execReport_balance:
  assumes "tables_ok st" and "staged_ids st = {}"
  shows "\<exists>st' e' new. execReport (batch_Execute sops) st e = (Done st', e') \<and> be_acked e' = be_acked e @ new \<and>
    staged_ids st' = {} \<and>
    pending_delta (acc_of st i) = sent_delta new i + pending_delta (acc_of st' i)"
proof -
  define ag where "ag = (NewAgent e)\<lparr>ag_stor := st, ag_polled := (\<lambda>k. sent_delta (be_acked e) k + pending_delta (acc_of st k)),
    ag_polled_values := (\<lambda>k. pending_values (acc_of st k))\<rparr>"
  have ok: "agent_ok be_acked ag" using assms by (simp add: agent_ok_def ag_def NewAgent_def taken_delta_def)
  obtain st' e' sv where r: "execReport (batch_Execute sops) st e = (Done st', e')"
      "agent_reach (batch_executes sops) ag (ag\<lparr>ag_stor := st', ag_exec := e', ag_phase := Waiting, ag_sent_values := sv\<rparr>)"
    using batch.execReport_run [OF ok, of "batch_Execute sops" sops] by (auto simp: ag_def NewAgent_def batch_executes_def)
  have "agent_ok be_acked (ag\<lparr>ag_stor := st', ag_exec := e', ag_phase := Waiting, ag_sent_values := sv\<rparr>)"
    using batch.agent_reach_ok [OF r(2)] ok by blast
  then have s: "staged_ids st' = {}" and b: "sent_delta (be_acked e) i + pending_delta (acc_of st i) =
      sent_delta (be_acked e') i + pending_delta (acc_of st' i)"
    by (simp_all add: agent_ok_def ag_def taken_delta_def)
  have "\<exists>new. be_acked e' = be_acked e @ new"
    using r(1) by (auto simp: execReport_def batch_Execute_def Let_def split: prod.splits option.splits)
  then obtain new where new: "be_acked e' = be_acked e @ new" by blast
  then have "pending_delta (acc_of st i) = sent_delta new i + pending_delta (acc_of st' i)"
    using b by (simp add: sent_delta_append add.assoc)
  then show ?thesis using r(1) s new by blast
qed

lemma execReport_balance_witness:
  "\<exists>st' e' new. execReport (batch_Execute eager_sender) (storeCounterMetric ''PollCount'' 1 NewAccumulatorStorage) (NewBatchExecutor 0) =
     (Done st', e') \<and> 1 = sent_delta new ''PollCount'' + pending_delta (acc_of st' ''PollCount'')"
proof -
  let ?st = "storeCounterMetric ''PollCount'' 1 NewAccumulatorStorage"
  have "tables_ok ?st" by (rule tables_ok_ops(1)) simp
  moreover have "staged_ids ?st = {}" "pending_delta (acc_of ?st ''PollCount'') = 1"
    by (auto simp: staged_ids_def storeCounter_eq acc_of_def acc_Get_def acc_store_def NewAccumulatorStorage_def
        AccumulateCounter_def NewMetricAccumulator_def pending_delta_def split: if_splits)
  ultimately show ?thesis using execReport_balance [of ?st eager_sender "NewBatchExecutor 0" "''PollCount''"] by metis
qed

text \<open>What the polls collect: after any number of memory statistics polls, \<open>PollCount\<close> is their
  number, and under every id the collected values are exactly the readings of that id, one per
  poll and in the order of the polls.\<close>

theorem memstats_polls_collect:
  "delta_or_0 (ma_Delta (acc_of (memstats_polls ps) ''PollCount'')) = of_nat (length ps) \<and>
   ma_Values (acc_of (memstats_polls ps) i) =
     concat (map (\<lambda>(ms, rnd). map snd (filter (\<lambda>g. fst g = i) (memstats_gauges ms rnd))) ps)"
proof -
  have "poll_types (memstats_polls ps) \<and>
    delta_or_0 (ma_Delta (acc_of (memstats_polls ps) ''PollCount'')) = of_nat (length ps) \<and>
    ma_Values (acc_of (memstats_polls ps) i) =
      concat (map (\<lambda>(ms, rnd). map snd (filter (\<lambda>g. fst g = i) (memstats_gauges ms rnd))) ps)"
  proof (induction ps rule: rev_induct)
    case Nil
    have "memstats_polls [] = NewAccumulatorStorage" by (simp add: memstats_polls_def)
    then show ?case by simp (simp add: acc_of_def acc_Get_def NewAccumulatorStorage_def NewMetricAccumulator_def)
  next
    case (snoc p ps)
    obtain ms rnd where p: "p = (ms, rnd)" by fastforce
    show ?case using snoc memstats_poll_values [of "memstats_polls ps" ms rnd] by (simp add: p memstats_polls_snoc)
  qed
  then show ?thesis by blast
qed

end
