(* ===== verification/Retrying.thy ===== *)
theory Retrying
  imports Prelude
begin

text \<open>
  \<open>internal/retrying\<close>: the retry policies, the builder's default predicate and the executor
  that repeats a fallible function. The function is a state transformer over the state \<open>'s\<close>
  it works on; \<open>Run\<close> also returns the delays it slept, in nanoseconds and in order. Attempts
  and delays keep Go's 64-bit width. The lemmas say which of the function's answers \<open>Run\<close>
  returns, how often it calls it, and what it sleeps between the calls.
\<close>

section \<open>Errors and policies\<close>

definition NewRetryableError :: "goerror \<Rightarrow> goerror" where
  "NewRetryableError err = Retryable err"

text \<open>\<open>errors.As(err, &rerr)\<close>: a \<open>RetryableError\<close> somewhere in the chain.\<close>

fun defaultRetryablePredicate :: "goerror \<Rightarrow> bool" where
  "defaultRetryablePredicate (Retryable e) \<longleftrightarrow> True"
| "defaultRetryablePredicate (Wrapped t e) \<longleftrightarrow> defaultRetryablePredicate e"
| "defaultRetryablePredicate (Sentinel s) \<longleftrightarrow> False"
| "defaultRetryablePredicate (Foreign t) \<longleftrightarrow> False"
| "defaultRetryablePredicate (PgError code t) \<longleftrightarrow> False"

text \<open>
  \<open>errors.Is(err, &RetryableError{})\<close>: the target is a pointer, while every error of the
  chain is a value (and a \<open>RetryableError\<close> value does not unwrap), so no comparison succeeds.
\<close>

fun errors_is_retryable_pointer :: "goerror \<Rightarrow> bool" where
  "errors_is_retryable_pointer (Wrapped t e) \<longleftrightarrow> errors_is_retryable_pointer e"
| "errors_is_retryable_pointer _ \<longleftrightarrow> False"

text \<open>\<open>errors.Unwrap\<close>.\<close>

fun errors_unwrap :: "goerror \<Rightarrow> goerror option" where
  "errors_unwrap (Wrapped t e) = Some e"
| "errors_unwrap _ = None"

type_synonym duration = "64 word"

record policy =
  op_MaxAttempts :: int64
  op_NextDelay :: "duration \<Rightarrow> duration"

definition NoRetryPolicy :: policy where
  "NoRetryPolicy = \<lparr>op_MaxAttempts = 0, op_NextDelay = (\<lambda>_. 0)\<rparr>"

definition NewLinearPolicy :: "int64 \<Rightarrow> duration \<Rightarrow> duration \<Rightarrow> policy" where
  "NewLinearPolicy retries delay increase =
     \<lparr>op_MaxAttempts = retries,
      op_NextDelay = (\<lambda>lastDelay. if lastDelay = 0 then delay else lastDelay + increase)\<rparr>"

section \<open>The executor\<close>

record executor =
  ex_policy :: policy
  ex_isRetryablePredicate :: "goerror \<Rightarrow> bool"

definition NewExecutorBuilder :: "policy \<Rightarrow> executor" where
  "NewExecutorBuilder p = \<lparr>ex_policy = p, ex_isRetryablePredicate = defaultRetryablePredicate\<rparr>"

definition WithRetryablePredicate :: "(goerror \<Rightarrow> bool) \<Rightarrow> executor \<Rightarrow> executor" where
  "WithRetryablePredicate predicate e = e\<lparr>ex_isRetryablePredicate := predicate\<rparr>"

text \<open>What \<open>Run\<close> returns when the attempts are used up.\<close>

definition exhausted :: "goerror \<Rightarrow> goerror option" where
  "exhausted err = (if errors_is_retryable_pointer err then errors_unwrap err else Some err)"

lemma sint_less_bounds: "(x :: int64) <s y \<Longrightarrow> sint (x + 1) = sint x + 1"
  using sint_lt [of y] sint_ge [of x]
  by (simp add: word_sless_alt sint_word_ariths(1) signed_take_bit_int_eq_self)

text \<open>The loop: \<open>delay\<close> is what the next iteration sleeps, \<open>err\<close> the error of the last call.\<close>

function retry_loop ::
    "executor \<Rightarrow> ('s \<Rightarrow> goerror option \<times> 's) \<Rightarrow> int64 \<Rightarrow> duration \<Rightarrow> goerror \<Rightarrow> 's
      \<Rightarrow> goerror option \<times> duration list \<times> 's" where
  "retry_loop ex f attempt delay err s =
     (if attempt <s op_MaxAttempts (ex_policy ex) then
        (case f s of
           (None, s') \<Rightarrow> (None, [delay], s')
         | (Some e, s') \<Rightarrow>
             if \<not> ex_isRetryablePredicate ex e then (Some e, [delay], s')
             else (case retry_loop ex f (attempt + 1) (op_NextDelay (ex_policy ex) delay) e s' of
                     (r, slept, s'') \<Rightarrow> (r, delay # slept, s'')))
      else (exhausted err, [], s))"
  by pat_completeness auto

termination
  by (relation "measure (\<lambda>(ex, f, attempt, delay, err, s). nat (sint (op_MaxAttempts (ex_policy ex)) - sint attempt))")
    (auto simp: sint_less_bounds word_sless_alt)

declare retry_loop.simps [simp del]

definition Run ::
    "executor \<Rightarrow> ('s \<Rightarrow> goerror option \<times> 's) \<Rightarrow> 's \<Rightarrow> goerror option \<times> duration list \<times> 's" where
  "Run ex f s =
     (case f s of
        (None, s') \<Rightarrow> (None, [], s')
      | (Some err, s') \<Rightarrow>
          if \<not> ex_isRetryablePredicate ex err then (Some err, [], s')
          else retry_loop ex f 0 (op_NextDelay (ex_policy ex) 0) err s')"

section \<open>Lemmas\<close>

lemma no_retryable_pointer [simp]: "\<not> errors_is_retryable_pointer e"
  by (induction e) simp_all

lemma exhausted_same [simp]: "exhausted e = Some e"
  by (simp add: exhausted_def)

text \<open>The state before the \<open>j\<close>-th call of the function (from 0), its answer, and whether the
  executor would go on after it.\<close>

fun nth_state :: "('s \<Rightarrow> goerror option \<times> 's) \<Rightarrow> 's \<Rightarrow> nat \<Rightarrow> 's" where
  "nth_state f s 0 = s"
| "nth_state f s (Suc j) = snd (f (nth_state f s j))"

definition nth_answer :: "('s \<Rightarrow> goerror option \<times> 's) \<Rightarrow> 's \<Rightarrow> nat \<Rightarrow> goerror option" where
  "nth_answer f s j = fst (f (nth_state f s j))"

definition goes_on :: "executor \<Rightarrow> goerror option \<Rightarrow> bool" where
  "goes_on ex r = (case r of None \<Rightarrow> False | Some e \<Rightarrow> ex_isRetryablePredicate ex e)"

lemma nth_state_shift: "f s = (r, s') \<Longrightarrow> nth_state f s' j = nth_state f s (Suc j)"
  by (induction j) simp_all

lemma nth_answer_shift: "f s = (r, s') \<Longrightarrow> nth_answer f s' j = nth_answer f s (Suc j)"
  by (simp only: nth_answer_def nth_state_shift)

lemma nth_answer_0: "f s = (r, s') \<Longrightarrow> nth_answer f s 0 = r"
  by (simp add: nth_answer_def)

lemma nth_answer_before: "f s = (r, s') \<Longrightarrow> (if k = 0 then r else nth_answer f s' (k - 1)) = nth_answer f s k"
  by (cases k) (simp_all add: nth_answer_0 nth_answer_shift)

definition delays :: "policy \<Rightarrow> duration \<Rightarrow> nat \<Rightarrow> duration list" where
  "delays p delay k = map (\<lambda>j. (op_NextDelay p ^^ j) delay) [0..<k]"

lemma delays_Suc: "delays p delay (Suc k) = delay # delays p (op_NextDelay p delay) k"
proof -
  have "[0..<Suc k] = 0 # map Suc [0..<k]" by (simp only: upt_conv_Cons zero_less_Suc map_Suc_upt)
  then show ?thesis by (simp only: delays_def list.map funpow_0 list.map_comp o_def funpow_Suc_right id_apply)
qed

lemma retry_loop_spec:
  "\<exists>k \<le> nat (sint (op_MaxAttempts (ex_policy ex)) - sint attempt).
     retry_loop ex f attempt delay err s =
       (if k = 0 then Some err else nth_answer f s (k - 1), delays (ex_policy ex) delay k, nth_state f s k) \<and>
     (\<forall>j. Suc j < k \<longrightarrow> goes_on ex (nth_answer f s j)) \<and>
     (k < nat (sint (op_MaxAttempts (ex_policy ex)) - sint attempt) \<longrightarrow> 0 < k \<and> \<not> goes_on ex (nth_answer f s (k - 1)))"
proof (induction ex f attempt delay err s rule: retry_loop.induct)
  case (1 ex f attempt delay err s)
  let ?max = "op_MaxAttempts (ex_policy ex)"
  note simp = retry_loop.simps [of ex f attempt delay err s]
  show ?case
  proof (cases "attempt <s ?max")
    case False
    then have "nat (sint ?max - sint attempt) = 0" by (simp add: word_sless_alt)
    then show ?thesis using False simp by (intro exI [of _ 0]) (simp add: delays_def)
  next
    case True
    then have pos: "0 < nat (sint ?max - sint attempt)" by (simp add: word_sless_alt)
    obtain r s' where fs: "f s = (r, s')" by fastforce
    show ?thesis
    proof (cases "goes_on ex r")
      case False
      then have "retry_loop ex f attempt delay err s = (r, [delay], s')"
        using True simp fs by (simp add: goes_on_def split: option.splits)
      then show ?thesis using pos fs False
        by (intro exI [of _ 1]) (simp add: delays_def nth_answer_def)
    next
      case goes: True
      then obtain e where e: "r = Some e" "ex_isRetryablePredicate ex e" by (auto simp: goes_on_def split: option.splits)
      let ?n = "nat (sint ?max - sint (attempt + 1))"
      have n: "nat (sint ?max - sint attempt) = Suc ?n"
        using True sint_less_bounds [OF True] pos by simp
      have "\<exists>k \<le> ?n. retry_loop ex f (attempt + 1) (op_NextDelay (ex_policy ex) delay) e s' =
            (if k = 0 then Some e else nth_answer f s' (k - 1),
             delays (ex_policy ex) (op_NextDelay (ex_policy ex) delay) k, nth_state f s' k) \<and>
          (\<forall>j. Suc j < k \<longrightarrow> goes_on ex (nth_answer f s' j)) \<and>
          (k < ?n \<longrightarrow> 0 < k \<and> \<not> goes_on ex (nth_answer f s' (k - 1)))"
        by (rule 1) (use True fs e in auto)
      then obtain k where k: "k \<le> ?n"
          "retry_loop ex f (attempt + 1) (op_NextDelay (ex_policy ex) delay) e s' =
             (if k = 0 then Some e else nth_answer f s' (k - 1),
              delays (ex_policy ex) (op_NextDelay (ex_policy ex) delay) k, nth_state f s' k)"
          "\<forall>j. Suc j < k \<longrightarrow> goes_on ex (nth_answer f s' j)"
          "k < ?n \<longrightarrow> 0 < k \<and> \<not> goes_on ex (nth_answer f s' (k - 1))" by blast
      have "retry_loop ex f attempt delay err s =
          (nth_answer f s k, delays (ex_policy ex) delay (Suc k), nth_state f s (Suc k))"
        using True e(2) nth_answer_before [of f s r s' k, OF fs, unfolded e(1)] nth_state_shift [of f s r s' k, OF fs]
        by (simp add: simp fs e(1) k(2) delays_Suc del: nth_state.simps split: if_splits)
      moreover have "goes_on ex (nth_answer f s j)" if "Suc j < Suc k" for j
        using that k(3) goes nth_answer_0 [of f s, OF fs] nth_answer_shift [of f s, OF fs] by (cases j) auto
      moreover have "Suc k < Suc ?n \<longrightarrow> \<not> goes_on ex (nth_answer f s k)"
        using k(4) nth_answer_before [of f s r s' k, OF fs] by auto
      ultimately show ?thesis unfolding n using k(1) by (intro exI [of _ "Suc k"]) simp
    qed
  qed
qed

text \<open>\<open>Run\<close> answers with call number \<open>k\<close>, the first that needs no repetition, or the last one allowed.\<close>

lemma Run_spec:
  fixes ex :: executor
  defines "N \<equiv> nat (sint (op_MaxAttempts (ex_policy ex)))"
  shows "\<exists>k \<le> N. Run ex f s =
      (nth_answer f s k, delays (ex_policy ex) (op_NextDelay (ex_policy ex) 0) k, nth_state f s (Suc k)) \<and>
    (\<forall>j < k. goes_on ex (nth_answer f s j)) \<and> (k < N \<longrightarrow> \<not> goes_on ex (nth_answer f s k))"
proof -
  obtain r s' where fs: "f s = (r, s')" by fastforce
  show ?thesis
  proof (cases "goes_on ex r")
    case False
    then have "Run ex f s = (r, [], s')" using fs by (simp add: Run_def goes_on_def split: option.splits)
    then show ?thesis using fs False nth_answer_0 [of f s, OF fs] by (intro exI [of _ 0]) (simp add: delays_def)
  next
    case True
    then obtain e where e: "r = Some e" "ex_isRetryablePredicate ex e" by (auto simp: goes_on_def split: option.splits)
    have n: "nat (sint (op_MaxAttempts (ex_policy ex)) - sint (0::int64)) = N" by (simp add: N_def)
    obtain k where k: "k \<le> N"
        "retry_loop ex f 0 (op_NextDelay (ex_policy ex) 0) e s' =
           (if k = 0 then Some e else nth_answer f s' (k - 1),
            delays (ex_policy ex) (op_NextDelay (ex_policy ex) 0) k, nth_state f s' k)"
        "\<forall>j. Suc j < k \<longrightarrow> goes_on ex (nth_answer f s' j)"
        "k < N \<longrightarrow> 0 < k \<and> \<not> goes_on ex (nth_answer f s' (k - 1))"
      using retry_loop_spec [of ex 0 f "op_NextDelay (ex_policy ex) 0" e s'] unfolding n by blast
    have "goes_on ex (nth_answer f s j)" if "j < k" for j
      using that k(3) True nth_answer_0 [of f s, OF fs] nth_answer_shift [of f s, OF fs] by (cases j) auto
    moreover have "k < N \<longrightarrow> \<not> goes_on ex (nth_answer f s k)"
      using k(4) nth_answer_before [of f s r s' k, OF fs] by auto
    moreover have "Run ex f s =
        (nth_answer f s k, delays (ex_policy ex) (op_NextDelay (ex_policy ex) 0) k, nth_state f s (Suc k))"
      using e(2) nth_answer_before [of f s r s' k, OF fs, unfolded e(1)] nth_state_shift [of f s r s' k, OF fs]
      by (simp add: Run_def fs e(1) k(2) del: nth_state.simps split: if_splits)
    ultimately show ?thesis using k(1) by blast
  qed
qed

text \<open>The delays of the linear policy, while none of them wraps around to 0.\<close>

lemma linear_delay:
  assumes "\<forall>j < n. delay + of_nat j * increase \<noteq> 0"
  shows "(op_NextDelay (NewLinearPolicy r delay increase) ^^ Suc n) 0 = delay + of_nat n * increase"
  using assms
proof (induction n)
  case 0
  then show ?case by (simp add: NewLinearPolicy_def)
next
  case (Suc n)
  have "(op_NextDelay (NewLinearPolicy r delay increase) ^^ Suc n) 0 = delay + of_nat n * increase"
    using Suc by simp
  then show ?case using Suc.prems by (simp add: NewLinearPolicy_def algebra_simps)
qed

lemma delays_nth: "j < k \<Longrightarrow> delays p (op_NextDelay p 0) k ! j = (op_NextDelay p ^^ Suc j) 0"
  by (simp add: delays_def funpow_swap1)

lemma length_delays [simp]: "length (delays p d k) = k"
  by (simp add: delays_def)

section \<open>Properties of the executor\<close>

text \<open>C9. \<open>Run\<close> always returns, with the answer of call number \<open>k\<close> (from 0): every call before it
  failed with an error the predicate calls retryable, and it is either the first that needs no
  repetition or the last one the policy allows. The function is called exactly \<open>k + 1\<close> times,
  with one delay before each repetition, and the error is returned unchanged.\<close>

theorem Run_answer:
  fixes ex :: executor and f :: "'s \<Rightarrow> goerror option \<times> 's"
  shows "\<exists>k. k \<le> nat (sint (op_MaxAttempts (ex_policy ex))) \<and>
    fst (Run ex f s) = nth_answer f s k \<and> snd (snd (Run ex f s)) = nth_state f s (Suc k) \<and>
    length (fst (snd (Run ex f s))) = k \<and>
    (\<forall>j < k. goes_on ex (nth_answer f s j)) \<and>
    (k = nat (sint (op_MaxAttempts (ex_policy ex))) \<or> \<not> goes_on ex (nth_answer f s k))"
proof -
  let ?N = "nat (sint (op_MaxAttempts (ex_policy ex)))"
  obtain k where k: "k \<le> ?N" "Run ex f s =
      (nth_answer f s k, delays (ex_policy ex) (op_NextDelay (ex_policy ex) 0) k, nth_state f s (Suc k))"
      "\<forall>j < k. goes_on ex (nth_answer f s j)" "k < ?N \<longrightarrow> \<not> goes_on ex (nth_answer f s k)"
    using Run_spec [of ex f s] by blast
  show ?thesis by (rule exI [of _ k]) (use k in auto)
qed

text \<open>A function that fails retryably twice and then succeeds.\<close>

definition third_time_lucky :: "nat \<Rightarrow> goerror option \<times> nat" where
  "third_time_lucky n = (if n < 2 then Some (NewRetryableError (Foreign ''busy'')) else None, n + 1)"

lemma Run_answer_witness:
  "fst (Run (NewExecutorBuilder (NewLinearPolicy 3 1 2)) third_time_lucky 0) = None"
proof -
  let ?ex = "NewExecutorBuilder (NewLinearPolicy 3 1 2)"
  have N: "nat (sint (op_MaxAttempts (ex_policy ?ex))) = 3" by (simp add: NewExecutorBuilder_def NewLinearPolicy_def)
  obtain k where k: "k \<le> 3" "fst (Run ?ex third_time_lucky 0) = nth_answer third_time_lucky 0 k"
      "\<forall>j < k. goes_on ?ex (nth_answer third_time_lucky 0 j)" "k = 3 \<or> \<not> goes_on ?ex (nth_answer third_time_lucky 0 k)"
    using Run_answer [of ?ex third_time_lucky 0] unfolding N by blast
  have s: "nth_state third_time_lucky 0 j = j" for j by (induction j) (simp_all add: third_time_lucky_def)
  have a: "nth_answer third_time_lucky 0 j = (if j < 2 then Some (NewRetryableError (Foreign ''busy'')) else None)" for j
    by (simp add: nth_answer_def s third_time_lucky_def)
  have g: "goes_on ?ex (nth_answer third_time_lucky 0 j) \<longleftrightarrow> j < 2" for j
    by (simp add: a goes_on_def NewExecutorBuilder_def NewRetryableError_def)
  have "\<not> k < 2" using k(4) unfolding g by linarith
  then show ?thesis unfolding k(2) a by (simp only: if_False)
qed

text \<open>The delays of the linear policy: before repetition \<open>j\<close> (from 0) \<open>Run\<close> sleeps the initial
  delay plus \<open>j\<close> increments, as long as no earlier one of these sums is 0 in 64 bits (a delay of 0
  starts the sequence again; with an initial delay of 0 there is no delay at all).\<close>

theorem linear_delays:
  assumes "j < length (fst (snd (Run (NewExecutorBuilder (NewLinearPolicy r delay increase)) f s)))"
    and "\<forall>i < j. delay + of_nat i * increase \<noteq> 0"
  shows "fst (snd (Run (NewExecutorBuilder (NewLinearPolicy r delay increase)) f s)) ! j = delay + of_nat j * increase"
proof -
  let ?ex = "NewExecutorBuilder (NewLinearPolicy r delay increase)"
  have p: "ex_policy ?ex = NewLinearPolicy r delay increase" by (simp add: NewExecutorBuilder_def)
  obtain k where k: "fst (snd (Run ?ex f s)) = delays (ex_policy ?ex) (op_NextDelay (ex_policy ?ex) 0) k"
    using Run_spec [of ?ex f s] by fastforce
  then have "j < k" using assms(1) by simp
  then show ?thesis using k p linear_delay [OF assms(2), of r] by (simp only: delays_nth)
qed

lemma linear_delays_witness:
  "fst (snd (Run (NewExecutorBuilder (NewLinearPolicy 3 1 2)) third_time_lucky 0)) ! 1 = 3"
proof -
  have "fst (snd (Run (NewExecutorBuilder (NewLinearPolicy 3 1 2)) third_time_lucky 0)) = [1, 3]"
    by (simp add: Run_def third_time_lucky_def NewExecutorBuilder_def NewLinearPolicy_def NewRetryableError_def,
        subst retry_loop.simps, simp add: third_time_lucky_def NewRetryableError_def word_sless_alt,
        subst retry_loop.simps, simp add: third_time_lucky_def NewRetryableError_def word_sless_alt)
  then show ?thesis using linear_delays [of 1 3 1 2 third_time_lucky 0] by simp
qed

end
