(* ===== verification/HashSign.thy ===== *)
theory HashSign
  imports GoHttp GoDigest
begin

text \<open>
  \<open>internal/encrypt/hashsign.go\<close>: the signature of request and response bodies, in the
  \<open>HashSHA256\<close> header as standard base64. The lemmas: base64 decodes to what was encoded, the
  reader of the header gets the signature back, the check accepts exactly the payload's
  signature, and what a signature is made of.
\<close>

section \<open>Standard base64\<close>

definition b64_alphabet :: gostring where
  "b64_alphabet = ''ABCDEFGHIJKLMNOPQRSTUVWXYZabcdefghijklmnopqrstuvwxyz0123456789+/''"

definition b64_char :: "nat \<Rightarrow> char" where
  "b64_char n = b64_alphabet ! n"

definition b64_val :: "char \<Rightarrow> nat option" where
  "b64_val c = map_of (zip b64_alphabet [0..<64]) c"

fun b64_encode :: "gostring \<Rightarrow> gostring" where
  "b64_encode [] = []"
| "b64_encode [a] =
     (let x = char_code a in [b64_char (x div 4), b64_char (x mod 4 * 16), CHR ''='', CHR ''=''])"
| "b64_encode [a, b] =
     (let x = char_code a; y = char_code b
      in [b64_char (x div 4), b64_char (x mod 4 * 16 + y div 16), b64_char (y mod 16 * 4), CHR ''=''])"
| "b64_encode (a # b # c # r) =
     (let x = char_code a; y = char_code b; z = char_code c
      in b64_char (x div 4) # b64_char (x mod 4 * 16 + y div 16) #
         b64_char (y mod 16 * 4 + z div 64) # b64_char (z mod 64) # b64_encode r)"

text \<open>The decoder skips CR and LF, wants full groups of four, padding only at the end, and does
  not look at the unused low bits of the last group.\<close>

definition octet :: "nat \<Rightarrow> char" where
  "octet n = char_of n"

fun b64_groups :: "gostring \<Rightarrow> gostring option" where
  "b64_groups [] = Some []"
| "b64_groups (a # b # c # d # r) =
     (case (b64_val a, b64_val b) of
        (Some x, Some y) \<Rightarrow>
          if c = CHR ''='' then
            (if d = CHR ''='' \<and> r = [] then Some [octet (x * 4 + y div 16)] else None)
          else (case b64_val c of
             None \<Rightarrow> None
           | Some z \<Rightarrow>
               if d = CHR ''='' then
                 (if r = [] then Some [octet (x * 4 + y div 16), octet (y mod 16 * 16 + z div 4)] else None)
               else (case (b64_val d, b64_groups r) of
                  (Some w, Some bs) \<Rightarrow>
                    Some (octet (x * 4 + y div 16) # octet (y mod 16 * 16 + z div 4) # octet (z mod 4 * 64 + w) # bs)
                | _ \<Rightarrow> None))
      | _ \<Rightarrow> None)"
| "b64_groups _ = None"

definition b64_decode :: "gostring \<Rightarrow> gostring option" where
  "b64_decode s = b64_groups (filter (\<lambda>c. c \<noteq> CHR 0x0A \<and> c \<noteq> CHR 0x0D) s)"

lemma b64_val_char [simp]: "n < 64 \<Longrightarrow> b64_val (b64_char n) = Some n"
proof -
  have "distinct (map fst (zip b64_alphabet [0..<64]))" by code_simp
  moreover have l: "length b64_alphabet = 64" by code_simp
  moreover assume "n < 64"
  ultimately show ?thesis unfolding b64_val_def b64_char_def
    by (intro map_of_is_SomeI) (auto simp: in_set_zip)
qed

lemma b64_char_plain:
  assumes "n < 64"
  shows "b64_char n \<noteq> CHR ''=''" "b64_char n \<noteq> CHR 0x0A" "b64_char n \<noteq> CHR 0x0D"
proof -
  have "b64_val (CHR ''='') = None" "b64_val (CHR 0x0A) = None" "b64_val (CHR 0x0D) = None" by code_simp+
  then show "b64_char n \<noteq> CHR ''=''" "b64_char n \<noteq> CHR 0x0A" "b64_char n \<noteq> CHR 0x0D"
    using b64_val_char [OF assms] by auto
qed

lemma char_code_less: "char_code c < 256"
  by (simp add: char_code_def)

lemma octet_char_code [simp]: "octet (char_code c) = c"
  by (simp add: octet_def char_code_def)

text \<open>How the bits of three bytes are cut into four groups of six and put together again.\<close>

lemma b64_bits:
  fixes x y z :: nat
  assumes "x < 256" "y < 256" "z < 256"
  shows "x div 4 < 64" "x mod 4 * 16 + y div 16 < 64" "y mod 16 * 4 + z div 64 < 64" "z mod 64 < 64"
    "x mod 4 * 16 < 64" "y mod 16 * 4 < 64"
    "x div 4 * 4 + (x mod 4 * 16 + y div 16) div 16 = x" "x div 4 * 4 + (x mod 4 * 16) div 16 = x"
    "(x mod 4 * 16 + y div 16) mod 16 * 16 + (y mod 16 * 4 + z div 64) div 4 = y"
    "(x mod 4 * 16 + y div 16) mod 16 * 16 + (y mod 16 * 4) div 4 = y"
    "(y mod 16 * 4 + z div 64) mod 4 * 64 + z mod 64 = z"
proof -
  have b: "x mod 4 < 4" "y mod 16 < 16" "z mod 64 < 64" "y div 16 < 16" "z div 64 < 4" "x div 4 < 64"
    using assms by auto
  then show "x div 4 < 64" "x mod 4 * 16 + y div 16 < 64" "y mod 16 * 4 + z div 64 < 64" "z mod 64 < 64"
    "x mod 4 * 16 < 64" "y mod 16 * 4 < 64" by linarith+
  have "(x mod 4 * 16 + y div 16) div 16 = x mod 4" "(x mod 4 * 16 + y div 16) mod 16 = y div 16"
    "(y mod 16 * 4 + z div 64) div 4 = y mod 16" "(y mod 16 * 4 + z div 64) mod 4 = z div 64"
    "(x mod 4 * 16) div 16 = x mod 4" "(y mod 16 * 4) div 4 = y mod 16"
    using b by simp_all
  then show "x div 4 * 4 + (x mod 4 * 16 + y div 16) div 16 = x" "x div 4 * 4 + (x mod 4 * 16) div 16 = x"
    "(x mod 4 * 16 + y div 16) mod 16 * 16 + (y mod 16 * 4 + z div 64) div 4 = y"
    "(x mod 4 * 16 + y div 16) mod 16 * 16 + (y mod 16 * 4) div 4 = y"
    "(y mod 16 * 4 + z div 64) mod 4 * 64 + z mod 64 = z"
    by (simp_all only: div_mult_mod_eq)
qed

lemmas b64_eval = b64_groups.simps b64_val_char b64_char_plain prod.case option.case if_False if_True
  simp_thms

lemma b64_group3:
  assumes "x < 256" "y < 256" "z < 256"
  shows "b64_groups (b64_char (x div 4) # b64_char (x mod 4 * 16 + y div 16) #
      b64_char (y mod 16 * 4 + z div 64) # b64_char (z mod 64) # r) =
    (case b64_groups r of None \<Rightarrow> None | Some bs \<Rightarrow> Some (octet x # octet y # octet z # bs))"
  by (simp only: b64_eval b64_bits [OF assms])

lemma b64_group2:
  assumes "x < 256" "y < 256"
  shows "b64_groups [b64_char (x div 4), b64_char (x mod 4 * 16 + y div 16), b64_char (y mod 16 * 4), CHR ''=''] =
    Some [octet x, octet y]"
  by (simp only: b64_eval b64_bits [OF assms assms(2)])

lemma b64_group1:
  assumes "x < 256"
  shows "b64_groups [b64_char (x div 4), b64_char (x mod 4 * 16), CHR ''='', CHR ''=''] = Some [octet x]"
  by (simp only: b64_eval b64_bits [OF assms assms assms])

lemma b64_groups_encode: "b64_groups (b64_encode s) = Some s"
  by (induction s rule: b64_encode.induct)
    (simp_all only: b64_encode.simps Let_def b64_group1 b64_group2 b64_group3 char_code_less octet_char_code
      option.case b64_groups.simps(1))

lemma b64_encode_chars: "c \<in> set (b64_encode s) \<Longrightarrow> c = CHR ''='' \<or> (\<exists>n < 64. c = b64_char n)"
proof (induction s rule: b64_encode.induct)
  case (2 a)
  then show ?case using b64_bits(1,5) [OF char_code_less [of a] char_code_less [of a] char_code_less [of a]]
    by (simp only: b64_encode.simps Let_def set_simps) blast
next
  case (3 a b)
  then show ?case using b64_bits(1,2,6) [OF char_code_less [of a] char_code_less [of b] char_code_less [of b]]
    by (simp only: b64_encode.simps Let_def set_simps) blast
next
  case (4 a b d r)
  then show ?case using b64_bits(1-4) [OF char_code_less [of a] char_code_less [of b] char_code_less [of d]]
    by (simp only: b64_encode.simps Let_def set_simps) blast
qed simp

lemma b64_decode_encode [simp]: "b64_decode (b64_encode s) = Some s"
proof -
  have "filter (\<lambda>c. c \<noteq> CHR 0x0A \<and> c \<noteq> CHR 0x0D) (b64_encode s) = b64_encode s"
    using b64_encode_chars b64_char_plain(2,3) by (intro filter_True) fastforce
  then show ?thesis by (simp only: b64_decode_def b64_groups_encode)
qed

section \<open>Signatures\<close>

definition SignHeader :: gostring where
  "SignHeader = ''HashSHA256''"

text \<open>\<open>hfunc.Sum(key)\<close> appends the digest of what was written to \<open>key\<close>. A nil payload is empty.\<close>

definition calculateHash :: "gostring \<Rightarrow> gostring \<Rightarrow> gostring" where
  "calculateHash key payload = key @ sha256 payload"

definition AddSignature :: "gostring \<Rightarrow> gostring \<Rightarrow> header \<Rightarrow> header" where
  "AddSignature key payload header =
     (if length key = 0 then header
      else header_add SignHeader (b64_encode (calculateHash key payload)) header)"

text \<open>\<open>Inr None\<close> is the nil signature of a request without the header.\<close>

definition GetSignature :: "header \<Rightarrow> goerror + gostring option" where
  "GetSignature header =
     (let signstr = header_get header SignHeader
      in if length signstr = 0 then Inr None
         else case b64_decode signstr of
                None \<Rightarrow> Inl (errorf ''unable to decode signature from header: '' (Foreign ''illegal base64 data'') [])
              | Some sign \<Rightarrow> Inr (Some sign))"

definition CheckSignature :: "gostring \<Rightarrow> gostring \<Rightarrow> gostring \<Rightarrow> goerror option" where
  "CheckSignature key payload sign =
     (if calculateHash key payload \<noteq> sign then Some (Sentinel ErrSignatureInvalid) else None)"

lemma CheckSignature_iff: "CheckSignature key payload sign = None \<longleftrightarrow> sign = calculateHash key payload"
  by (auto simp: CheckSignature_def)

lemma b64_encode_not_Nil: "s \<noteq> [] \<Longrightarrow> b64_encode s \<noteq> []"
  by (cases s rule: b64_encode.cases) (simp_all add: Let_def)

lemma calculateHash_not_Nil: "key \<noteq> [] \<Longrightarrow> calculateHash key payload \<noteq> []"
  by (simp add: calculateHash_def)

lemma GetSignature_Add:
  assumes "key \<noteq> []" and "dict_get header (canonical_key SignHeader) = None"
  shows "GetSignature (AddSignature key payload header) = Inr (Some (calculateHash key payload))"
  using assms
  by (simp add: GetSignature_def AddSignature_def Let_def header_get_add b64_encode_not_Nil calculateHash_not_Nil)

lemma calculateHash_parts:
  "take (length (calculateHash key payload) - 32) (calculateHash key payload) = key"
  "drop (length (calculateHash key payload) - 32) (calculateHash key payload) = sha256 payload"
  by (simp_all add: calculateHash_def)

section \<open>Properties of signatures\<close>

text \<open>A signature that was added to a message is read back from its header, and the receiver with
  the same key accepts it for exactly the payloads with the same SHA-256 digest as the signed one.\<close>

theorem signature_roundtrip:
  assumes "key \<noteq> []" and "dict_get header (canonical_key SignHeader) = None"
  shows "\<exists>sign. GetSignature (AddSignature key payload header) = Inr (Some sign) \<and>
    (CheckSignature key payload' sign = None \<longleftrightarrow> sha256 payload' = sha256 payload)"
  using GetSignature_Add [OF assms] by (auto simp: CheckSignature_iff calculateHash_def)

lemma signature_roundtrip_witness:
  "\<exists>sign. GetSignature (AddSignature ''k'' ''body'' []) = Inr (Some sign) \<and> CheckSignature ''k'' ''body'' sign = None"
  using signature_roundtrip [of "''k''" "[]" "''body''" "''body''"] by auto

text \<open>A signature contains the secret key in the clear: everything before its last 32 bytes is the
  key. Whoever has seen one signed message can therefore sign any other payload.\<close>

theorem signature_reveals_key:
  "take (length (calculateHash key payload) - 32) (calculateHash key payload) = key \<and>
   CheckSignature key forged (take (length (calculateHash key payload) - 32) (calculateHash key payload) @ sha256 forged) = None"
  by (simp add: calculateHash_parts CheckSignature_iff) (simp add: calculateHash_def)

end
