(* ===== verification/GoUtf8.thy ===== *)
theory GoUtf8
  imports GoStrconv
begin

text \<open>
  \<open>unicode/utf8\<close>: a Go string is a sequence of bytes; the library functions that the program
  uses decode it rune by rune and read an invalid byte as the replacement character. The
  lemmas: decoding an encoded rune gives it back, and a rune that was decoded without an error
  is at the front of the string in its encoded form.
\<close>

definition rune_error :: nat where
  "rune_error = 0xFFFD"

definition is_surrogate :: "nat \<Rightarrow> bool" where
  "is_surrogate r \<longleftrightarrow> 0xD800 \<le> r \<and> r < 0xE000"

definition is_scalar :: "nat \<Rightarrow> bool" where
  "is_scalar r \<longleftrightarrow> r \<le> 0x10FFFF \<and> \<not> is_surrogate r"

text \<open>\<open>utf8.AppendRune\<close>.\<close>

definition encode_rune :: "nat \<Rightarrow> gostring" where
  "encode_rune x =
     (let r = (if is_scalar x then x else rune_error)
      in map char_of
        (if r < 0x80 then [r]
         else if r < 0x800 then [0xC0 + r div 64, 0x80 + r mod 64]
         else if r < 0x10000 then [0xE0 + r div 4096, 0x80 + r div 64 mod 64, 0x80 + r mod 64]
         else [0xF0 + r div 262144, 0x80 + r div 4096 mod 64, 0x80 + r div 64 mod 64, 0x80 + r mod 64]))"

text \<open>\<open>utf8.DecodeRune\<close> on the byte values: the rune and its width.\<close>

definition is_cont :: "nat \<Rightarrow> bool" where
  "is_cont b \<longleftrightarrow> 0x80 \<le> b \<and> b \<le> 0xBF"

fun decode_codes :: "nat list \<Rightarrow> nat \<times> nat" where
  "decode_codes [] = (rune_error, 0)"
| "decode_codes (a # s) =
     (if a < 0x80 then (a, 1)
      else if 0xC2 \<le> a \<and> a \<le> 0xDF then
        (case s of b # _ \<Rightarrow> if is_cont b then (a mod 32 * 64 + b mod 64, 2) else (rune_error, 1)
         | [] \<Rightarrow> (rune_error, 1))
      else if 0xE0 \<le> a \<and> a \<le> 0xEF then
        (case s of b # c # _ \<Rightarrow>
           if (if a = 0xE0 then 0xA0 \<le> b \<and> b \<le> 0xBF else if a = 0xED then 0x80 \<le> b \<and> b \<le> 0x9F else is_cont b)
             \<and> is_cont c
           then (a mod 16 * 4096 + b mod 64 * 64 + c mod 64, 3) else (rune_error, 1)
         | _ \<Rightarrow> (rune_error, 1))
      else if 0xF0 \<le> a \<and> a \<le> 0xF4 then
        (case s of b # c # d # _ \<Rightarrow>
           if (if a = 0xF0 then 0x90 \<le> b \<and> b \<le> 0xBF else if a = 0xF4 then 0x80 \<le> b \<and> b \<le> 0x8F else is_cont b)
             \<and> is_cont c \<and> is_cont d
           then (a mod 8 * 262144 + b mod 64 * 4096 + c mod 64 * 64 + d mod 64, 4) else (rune_error, 1)
         | _ \<Rightarrow> (rune_error, 1))
      else (rune_error, 1))"

definition decode_rune :: "gostring \<Rightarrow> nat \<times> nat" where
  "decode_rune s = decode_codes (map char_code s)"

lemma char_code_of [simp]: "n < 256 \<Longrightarrow> char_code (char_of n) = n"
  by (simp add: char_code_def)

lemma char_code_bound [simp]: "char_code c < 256"
  by (simp add: char_code_def)

lemma char_of_code [simp]: "char_of (char_code c) = c"
  by (simp add: char_code_def)

lemma decode_width: "decode_codes (a # s) = (r, n) \<Longrightarrow> 1 \<le> n \<and> n \<le> Suc (length s)"
  by (auto split: if_splits list.splits)

lemma decode_rune_width: "decode_rune (c # s) = (r, n) \<Longrightarrow> 1 \<le> n \<and> n \<le> Suc (length s)"
  using decode_width [of "char_code c" "map char_code s"] by (simp add: decode_rune_def)

lemma div_mod_parts:
  fixes r :: nat
  shows "r div 64 * 64 + r mod 64 = r" "r div 4096 * 4096 + r div 64 mod 64 * 64 + r mod 64 = r"
    "r div 262144 * 262144 + r div 4096 mod 64 * 4096 + r div 64 mod 64 * 64 + r mod 64 = r"
proof -
  show a: "r div 64 * 64 + r mod 64 = r" for r :: nat by simp
  have b: "r div 4096 = r div 64 div 64" "r div 262144 = r div 64 div 64 div 64" by (simp_all flip: div_mult2_eq)
  show "r div 4096 * 4096 + r div 64 mod 64 * 64 + r mod 64 = r"
    using a [of r] a [of "r div 64"] unfolding b by linarith
  show "r div 262144 * 262144 + r div 4096 mod 64 * 4096 + r div 64 mod 64 * 64 + r mod 64 = r"
    using a [of r] a [of "r div 64"] a [of "r div 64 div 64"] unfolding b by linarith
qed

lemma mod_low: "(k :: nat) < m \<Longrightarrow> n mod m = 0 \<Longrightarrow> (n + k) mod m = k"
  by (metis add_0 mod_add_left_eq mod_less)

lemma div_low: "(k :: nat) < m \<Longrightarrow> (n * m + k) div m = n \<and> (n * m + k) mod m = k"
  by simp

lemma tag_mod [simp]:
  "k < 32 \<Longrightarrow> (192 + k) mod 32 = k" "k < 16 \<Longrightarrow> (224 + k) mod 16 = k" "k < 8 \<Longrightarrow> (240 + k) mod 8 = k"
  "k < 64 \<Longrightarrow> (128 + k) mod 64 = k" for k :: nat
  by (rule mod_low; simp)+

lemma decode_encode_rune:
  assumes "is_scalar r"
  shows "decode_rune (encode_rune r @ t) = (r, length (encode_rune r))"
proof -
  note p = div_mod_parts [of r]
  have m: "x mod 64 < 64" for x :: nat by simp
  consider "r < 0x80" | "0x80 \<le> r" "r < 0x800" | "0x800 \<le> r" "r < 0x10000" | "0x10000 \<le> r" "r \<le> 0x10FFFF"
    using assms by (force simp: is_scalar_def)
  then show ?thesis
  proof cases
    case 1
    then show ?thesis using assms by (simp add: encode_rune_def decode_rune_def)
  next
    case 2
    then have d: "2 \<le> r div 64" "r div 64 < 32" by (simp_all add: div_le_mono less_mult_imp_div_less)
    have "is_cont (128 + r mod 64)" using m [of r] by (simp add: is_cont_def)
    moreover have "encode_rune r = map char_of [192 + r div 64, 128 + r mod 64]"
      using assms 2 by (simp add: encode_rune_def)
    ultimately show ?thesis using d p(1) by (simp add: decode_rune_def)
  next
    case 3
    let ?a = "r div 4096" and ?b = "r div 64 mod 64" and ?c = "r mod 64"
    have d: "?a < 16" using 3 by (simp add: less_mult_imp_div_less)
    have c: "is_cont (128 + ?b)" "is_cont (128 + ?c)" using m [of "r div 64"] m [of r] by (simp_all add: is_cont_def)
    have e: "?a = 0 \<longrightarrow> 32 \<le> ?b" using p(2) 3(1) m [of r] by (intro impI) linarith
    have f: "?a = 13 \<longrightarrow> ?b < 32"
    proof
      assume "?a = 13"
      then have "0xD000 \<le> r" "r < 0xE000" using p(2) m [of r] m [of "r div 64"] by linarith+
      then have "r < 0xD800" using assms by (auto simp: is_scalar_def is_surrogate_def)
      then show "?b < 32" using p(2) \<open>?a = 13\<close> by linarith
    qed
    then show ?thesis using assms 3 d c e f p(2) m [of "r div 64"]
      by (auto simp: encode_rune_def decode_rune_def add.assoc)
  next
    case 4
    let ?a = "r div 262144" and ?b = "r div 4096 mod 64" and ?c = "r div 64 mod 64" and ?d = "r mod 64"
    have d: "?a \<le> 4" using div_le_mono [OF 4(2), of 262144] by simp
    have c: "is_cont (128 + ?b)" "is_cont (128 + ?c)" "is_cont (128 + ?d)"
      using m [of "r div 4096"] m [of "r div 64"] m [of r] by (simp_all add: is_cont_def)
    have e: "?a = 0 \<longrightarrow> 16 \<le> ?b" using p(3) 4(1) m [of r] m [of "r div 64"] by (intro impI) linarith
    have f: "?a = 4 \<longrightarrow> ?b < 16" using p(3) 4(2) by (intro impI) linarith
    then show ?thesis using assms 4 d c e f p(3) m [of "r div 4096"]
      by (auto simp: encode_rune_def decode_rune_def add.assoc)
  qed
qed

text \<open>Conversely, only the replacement of an invalid byte is not the text it was read from.\<close>

lemma map_char_ofD: "map char_code s = map char_code t \<Longrightarrow> s = t"
proof (induction s arbitrary: t)
  case (Cons c s)
  then obtain d t' where t: "t = d # t'" by (cases t) auto
  have "char_of (char_code c) = (char_of (char_code d) :: char)" using Cons.prems t by simp
  then show ?case using Cons t by simp
qed simp

lemma cont_bits: "is_cont b \<Longrightarrow> 0x80 + b mod 64 = b"
  using mod_low [of "b - 128" 64 128] by (auto simp: is_cont_def)

lemma split4096:
  fixes a b c :: nat
  assumes "b < 64" and "c < 64" and "r = a * 4096 + b * 64 + c"
  shows "r div 4096 = a" "r div 64 mod 64 = b" "r mod 64 = c"
proof -
  have "r = (a * 64 + b) * 64 + c" using assms(3) by simp
  then have r: "r div 64 = a * 64 + b" "r mod 64 = c"
    using div_low [OF assms(2), of "a * 64 + b"] by (simp_all only:)
  then show "r mod 64 = c" "r div 64 mod 64 = b" using div_low [OF assms(1), of a] by simp_all
  have "r div 4096 = r div 64 div 64" by (simp flip: div_mult2_eq)
  then show "r div 4096 = a" using r(1) div_low [OF assms(1), of a] by simp
qed

lemma decode_codes_sound:
  assumes "decode_codes s = (r, n)" and "(r, n) \<noteq> (rune_error, 1)" and "s \<noteq> []" and "\<forall>a \<in> set s. a < 256"
  shows "is_scalar r \<and> map char_code (encode_rune r) = take n s"
proof -
  obtain a t where s: "s = a # t" using assms(3) by (cases s) auto
  consider "a < 0x80" | "0xC2 \<le> a" "a \<le> 0xDF" | "0xE0 \<le> a" "a \<le> 0xEF" | "0xF0 \<le> a" "a \<le> 0xF4"
    using assms(1,2) s by (force split: if_splits)
  then show ?thesis
  proof cases
    case 1
    then show ?thesis using assms(1) s by (auto simp: is_scalar_def is_surrogate_def encode_rune_def)
  next
    case 2
    then obtain b u where t: "t = b # u" and b: "is_cont b" and r: "r = a mod 32 * 64 + b mod 64" "n = 2"
      using assms(1,2) s by (auto split: list.splits if_splits)
    have "a mod 32 = a - 0xC0" using 2 mod_low [of "a - 0xC0" 32 "0xC0"] by simp
    then have e: "r = (a - 0xC0) * 64 + b mod 64" using r(1) by simp
    have m: "b mod 64 < 64" by simp
    have "r div 64 = a - 0xC0" "r mod 64 = b mod 64" using div_low [OF m] e by simp_all
    moreover have "0x80 \<le> r" "r < 0x800" using 2 e m by linarith+
    ultimately show ?thesis using 2 cont_bits [OF b] s t r(2) b
      by (auto simp: encode_rune_def is_scalar_def is_surrogate_def is_cont_def)
  next
    case 3
    then obtain b c u where t: "t = b # c # u" and b: "is_cont b" "is_cont c" "a = 0xE0 \<longrightarrow> 0xA0 \<le> b" "a = 0xED \<longrightarrow> b \<le> 0x9F"
        and r: "r = a mod 16 * 4096 + b mod 64 * 64 + c mod 64" "n = 3"
      using assms(1,2) s by (auto simp: is_cont_def split: list.splits if_splits)
    have a: "a mod 16 = a - 0xE0" using 3 mod_low [of "a - 0xE0" 16 "0xE0"] by simp
    have m: "x mod 64 < 64" for x :: nat by simp
    note p = split4096 [OF m m r(1) [unfolded a]]
    have "0x800 \<le> r"
    proof (cases "a = 0xE0")
      case True
      then have "32 \<le> b mod 64" using b(3) cont_bits [OF b(1)] by simp
      then show ?thesis using r(1) by simp
    qed (use 3 r(1) a in simp)
    moreover have "r < 0x10000" using 3 r(1) a m [of b] m [of c] by linarith
    moreover have "\<not> is_surrogate r"
    proof
      assume "is_surrogate r"
      then have "a - 0xE0 = 13" using r(1) a m [of b] m [of c] unfolding is_surrogate_def by linarith
      then have "a = 0xED" by simp
      moreover from this have "b mod 64 < 32" using b(4) cont_bits [OF b(1)] by simp
      ultimately show False using \<open>is_surrogate r\<close> r(1) a m [of c] unfolding is_surrogate_def by linarith
    qed
    ultimately show ?thesis using 3 p cont_bits [OF b(1)] cont_bits [OF b(2)] s t r(2) b(1,2)
      by (auto simp: encode_rune_def is_scalar_def is_cont_def)
  next
    case 4
    then obtain b c d u where t: "t = b # c # d # u" and b: "is_cont b" "is_cont c" "is_cont d" "a = 0xF0 \<longrightarrow> 0x90 \<le> b" "a = 0xF4 \<longrightarrow> b \<le> 0x8F"
        and r: "r = a mod 8 * 262144 + b mod 64 * 4096 + c mod 64 * 64 + d mod 64" "n = 4"
      using assms(1,2) s by (auto simp: is_cont_def split: list.splits if_splits)
    have a: "a mod 8 = a - 0xF0" using 4 mod_low [of "a - 0xF0" 8 "0xF0"] by simp
    have m: "x mod 64 < 64" for x :: nat by simp
    have e: "r = ((a - 0xF0) * 64 + b mod 64) * 4096 + c mod 64 * 64 + d mod 64" using r(1) a by simp
    note q = split4096 [OF m m e]
    have "r div 262144 = r div 4096 div 64" by (simp flip: div_mult2_eq)
    then have p: "r div 262144 = a - 0xF0" "r div 4096 mod 64 = b mod 64" "r div 64 mod 64 = c mod 64" "r mod 64 = d mod 64"
      using q div_low [OF m, of "a - 0xF0" b] by simp_all
    have "0x10000 \<le> r"
    proof (cases "a = 0xF0")
      case True
      then have "16 \<le> b mod 64" using b(4) cont_bits [OF b(1)] by simp
      then show ?thesis using r(1) by simp
    next
      case False
      then have "1 \<le> a - 0xF0" using 4 by simp
      then show ?thesis using r(1) a by linarith
    qed
    moreover have "r \<le> 0x10FFFF"
    proof (cases "a = 0xF4")
      case True
      then have "b mod 64 < 16" using b(5) cont_bits [OF b(1)] by simp
      then show ?thesis using r(1) a True m [of c] m [of d] by simp
    next
      case False
      then have "a - 0xF0 \<le> 3" using 4 by simp
      then show ?thesis using r(1) a m [of b] m [of c] m [of d] by linarith
    qed
    ultimately show ?thesis using 4 p cont_bits [OF b(1)] cont_bits [OF b(2)] cont_bits [OF b(3)] s t r(2) b(1-3)
      by (auto simp: encode_rune_def is_scalar_def is_surrogate_def is_cont_def)
  qed
qed

lemma decode_rune_sound:
  assumes "decode_rune s = (r, n)" and "(r, n) \<noteq> (rune_error, 1)" and "s \<noteq> []"
  shows "is_scalar r \<and> s = encode_rune r @ drop n s"
proof -
  have "is_scalar r \<and> map char_code (encode_rune r) = take n (map char_code s)"
    using decode_codes_sound [of "map char_code s" r n] assms by (simp add: decode_rune_def)
  then have "is_scalar r" "map char_code (encode_rune r) = map char_code (take n s)" by (simp_all add: take_map)
  from this(1) map_char_ofD [OF this(2)] show ?thesis by simp
qed

section \<open>Valid UTF-8\<close>

text \<open>\<open>utf8.ValidString\<close>.\<close>

function valid_utf8 :: "gostring \<Rightarrow> bool" where
  "valid_utf8 s =
     (if s = [] then True
      else case decode_rune s of (r, n) \<Rightarrow> (r, n) \<noteq> (rune_error, 1) \<and> valid_utf8 (drop n s))"
  by pat_completeness auto

termination
proof (relation "measure length")
  fix s :: gostring and r n
  assume "s \<noteq> []" "(r, n) = decode_rune s"
  then show "(drop n s, s) \<in> measure length"
    using decode_rune_width [of "hd s" "tl s" r n] by (cases s) auto
qed simp

declare valid_utf8.simps [simp del]

lemma valid_utf8_runes: "valid_utf8 s \<Longrightarrow> \<exists>rs. list_all is_scalar rs \<and> s = concat (map encode_rune rs)"
proof (induction s rule: valid_utf8.induct)
  case (1 s)
  show ?case
  proof (cases "s = []")
    case True
    then show ?thesis by (intro exI [of _ "[]"]) simp
  next
    case False
    obtain r n where d: "decode_rune s = (r, n)" by fastforce
    then have v: "(r, n) \<noteq> (rune_error, 1)" "valid_utf8 (drop n s)"
      using "1.prems" False by (subst (asm) valid_utf8.simps; simp)+
    then obtain rs where "list_all is_scalar rs" "drop n s = concat (map encode_rune rs)"
      using "1.IH" [OF False d [symmetric]] v by auto
    with decode_rune_sound [OF d v(1) False] show ?thesis
      by (intro exI [of _ "r # rs"]) simp
  qed
qed

lemma encode_rune_not_Nil [simp]: "encode_rune r \<noteq> []"
  by (simp add: encode_rune_def Let_def)

lemma valid_utf8_concat: "list_all is_scalar rs \<Longrightarrow> valid_utf8 (concat (map encode_rune rs))"
proof (induction rs)
  case Nil
  show ?case by (subst valid_utf8.simps) simp
next
  case (Cons r rs)
  have "(r, length (encode_rune r)) \<noteq> (rune_error, 1)" by (auto simp: encode_rune_def Let_def rune_error_def)
  then show ?case using Cons decode_encode_rune [of r "concat (map encode_rune rs)"]
    by (subst valid_utf8.simps) simp
qed

lemma valid_utf8_induct [consumes 1, case_names Nil Rune]:
  assumes "valid_utf8 s" and "P []"
    and "\<And>r s. is_scalar r \<Longrightarrow> valid_utf8 s \<Longrightarrow> P s \<Longrightarrow> P (encode_rune r @ s)"
  shows "P s"
proof -
  obtain rs where rs: "list_all is_scalar rs" "s = concat (map encode_rune rs)"
    using valid_utf8_runes [OF assms(1)] by blast
  have "P (concat (map encode_rune rs))" using rs(1)
    by (induction rs) (use assms(2,3) valid_utf8_concat in auto)
  then show ?thesis using rs(2) by simp
qed

lemma valid_utf8_ascii: "list_all (\<lambda>c. char_code c < 0x80) s \<Longrightarrow> valid_utf8 s"
proof (induction s)
  case Nil
  show ?case by (subst valid_utf8.simps) simp
next
  case (Cons c s)
  then show ?case by (subst valid_utf8.simps) (auto simp: decode_rune_def rune_error_def)
qed

lemma valid_utf8_Nil [simp]: "valid_utf8 []"
  by (subst valid_utf8.simps) simp

end
