(* ===== verification/Compress.thy ===== *)
theory Compress
  imports GoHttp GoUtf8
begin

text \<open>
  \<open>internal/compress\<close> and the response writers of the program. A handler writes to the server's
  own writer, to the logging middleware's wrapper (\<open>enrichedResponseWriter\<close>) or to the gzip
  wrapper (\<open>gzipResponseWriter\<close>); \<open>response_writer\<close> has one constructor for each, and the
  operations dispatch on it as the interface \<open>http.ResponseWriter\<close> does. The package
  \<open>compress/gzip\<close> is a parameter: what a \<open>gzip.Writer\<close> passes on with each write and when it
  is closed, and what a \<open>gzip.Reader\<close> gives.
\<close>

section \<open>Strings\<close>

text \<open>\<open>strings.Split\<close> with a separator of one byte.\<close>

fun split_on :: "char \<Rightarrow> gostring \<Rightarrow> gostring list" where
  "split_on sep [] = [[]]"
| "split_on sep (c # s) =
     (if c = sep then [] # split_on sep s
      else (case split_on sep s of [] \<Rightarrow> [[c]] | w # ws \<Rightarrow> (c # w) # ws))"

text \<open>\<open>strings.TrimSpace\<close>: white space at both ends goes, in its UTF-8 encoding.\<close>

definition white_space :: "gostring list" where
  "white_space = map encode_rune
     ([9, 10, 11, 12, 13, 32, 0x85, 0xA0, 0x1680] @ [0x2000..<0x200B] @ [0x2028, 0x2029, 0x202F, 0x205F, 0x3000])"

lemma white_space_ends:
  assumes "w \<in> set white_space"
  shows "w \<noteq> []" "char_code (hd w) \<le> 32 \<or> 0x80 \<le> char_code (hd w)" "char_code (last w) \<le> 32 \<or> 0x80 \<le> char_code (last w)"
proof -
  have c: "char_code (char_of n) = n mod 256" for n :: nat by (simp add: char_code_def)
  have m: "128 \<le> 128 + r mod 64 \<and> (128 + r mod 64) mod 256 = 128 + r mod 64" for r :: nat by simp
  obtain r :: nat where r: "w = encode_rune r" "r \<le> 32 \<or> 0x80 \<le> r" "r < 0xD800"
    using assms by (auto simp: white_space_def)
  then have s: "is_scalar r" by (simp add: is_scalar_def is_surrogate_def)
  show "w \<noteq> []" using r by simp
  have d: "224 \<le> 224 + r div 4096 \<and> 224 + r div 4096 < 256" if "r < 0x10000"
    using that by simp
  have e: "192 \<le> 192 + r div 64 \<and> 192 + r div 64 < 256" if "r < 0x800"
    using that by simp
  show "char_code (hd w) \<le> 32 \<or> 0x80 \<le> char_code (hd w)"
    using r s d e by (auto simp: encode_rune_def Let_def c)
  show "char_code (last w) \<le> 32 \<or> 0x80 \<le> char_code (last w)"
    using r s m [of r] by (auto simp: encode_rune_def Let_def c)
qed

function trim_front :: "gostring list \<Rightarrow> gostring \<Rightarrow> gostring" where
  "trim_front ws s =
     (case find (\<lambda>w. w \<noteq> [] \<and> take (length w) s = w) ws of
        None \<Rightarrow> s
      | Some w \<Rightarrow> trim_front ws (drop (length w) s))"
  by pat_completeness auto

termination
proof (relation "measure (\<lambda>(ws, s). length s)")
  fix ws :: "gostring list" and s w
  assume "find (\<lambda>w. w \<noteq> [] \<and> take (length w) s = w) ws = Some w"
  then have "w \<noteq> []" "take (length w) s = w" by (auto simp: find_Some_iff)
  moreover from this have "s \<noteq> []" by auto
  ultimately show "((ws, drop (length w) s), (ws, s)) \<in> measure (\<lambda>(ws, s). length s)" by simp
qed simp

declare trim_front.simps [simp del]

definition TrimSpace :: "gostring \<Rightarrow> gostring" where
  "TrimSpace s = rev (trim_front (map rev white_space) (rev (trim_front white_space s)))"

definition graphic :: "char \<Rightarrow> bool" where
  "graphic c \<longleftrightarrow> 32 < char_code c \<and> char_code c < 0x80"

lemma trim_front_graphic:
  assumes "s = [] \<or> graphic (hd s)" and "\<And>w. w \<in> set ws \<Longrightarrow> w \<noteq> [] \<and> \<not> graphic (hd w)"
  shows "trim_front ws s = s"
proof -
  have "\<not> (w \<noteq> [] \<and> take (length w) s = w)" if "w \<in> set ws" for w
  proof
    assume p: "w \<noteq> [] \<and> take (length w) s = w"
    have "\<not> graphic (hd w)" using assms(2) that by blast
    moreover have "s \<noteq> []" using p by auto
    moreover from this have "hd w = hd s" using p by (metis hd_take length_greater_0_conv)
    ultimately show False using assms(1) by simp
  qed
  then have "find (\<lambda>w. w \<noteq> [] \<and> take (length w) s = w) ws = None" by (auto simp: find_None_iff)
  then show ?thesis by (subst trim_front.simps) simp
qed

lemma white_space_graphic: "w \<in> set white_space \<Longrightarrow> w \<noteq> [] \<and> \<not> graphic (hd w) \<and> \<not> graphic (last w)"
  using white_space_ends [of w] by (auto simp: graphic_def)

lemma TrimSpace_graphic: "s = [] \<or> graphic (hd s) \<and> graphic (last s) \<Longrightarrow> TrimSpace s = s"
proof -
  assume s: "s = [] \<or> graphic (hd s) \<and> graphic (last s)"
  have "trim_front white_space s = s"
    using s white_space_graphic by (intro trim_front_graphic) auto
  moreover have "trim_front (map rev white_space) (rev s) = rev s"
    using s white_space_graphic by (intro trim_front_graphic) (auto simp: hd_rev)
  ultimately show ?thesis by (simp add: TrimSpace_def)
qed

section \<open>The package \<open>compress/gzip\<close>\<close>

text \<open>A \<open>gzip.Writer\<close> passes on some bytes with every write (\<open>gz_emit\<close>, given its level, what was
  written before and what is written) and the rest when it is closed (\<open>gz_finish\<close>). A reader
  fails at once on a bad header, later on bad data, or gives the data.\<close>

record gzip_lib =
  gz_emit :: "int \<Rightarrow> gostring list \<Rightarrow> gostring \<Rightarrow> gostring"
  gz_finish :: "int \<Rightarrow> gostring list \<Rightarrow> gostring"
  gz_NewReader :: "gostring \<Rightarrow> goerror option"
  gz_ReadAll :: "gostring \<Rightarrow> goerror + gostring"

definition DefaultCompression :: int where "DefaultCompression = - 1"
definition HuffmanOnly :: int where "HuffmanOnly = - 2"
definition BestCompression :: int where "BestCompression = 9"

record gzip_writer =
  zw_lib :: gzip_lib
  zw_level :: int
  zw_chunks :: "gostring list"

definition NewWriterLevel :: "gzip_lib \<Rightarrow> int \<Rightarrow> goerror + gzip_writer" where
  "NewWriterLevel lib level =
     (if level < HuffmanOnly \<or> BestCompression < level
      then Inl (Foreign (''gzip: invalid compression level: '' @ format_int (word_of_int level)))
      else Inr \<lparr>zw_lib = lib, zw_level = level, zw_chunks = []\<rparr>)"

definition gzip_Write :: "gostring \<Rightarrow> gzip_writer \<Rightarrow> gostring \<times> gzip_writer" where
  "gzip_Write b z = (gz_emit (zw_lib z) (zw_level z) (zw_chunks z) b, z\<lparr>zw_chunks := zw_chunks z @ [b]\<rparr>)"

definition gzip_Close :: "gzip_writer \<Rightarrow> gostring" where
  "gzip_Close z = gz_finish (zw_lib z) (zw_level z) (zw_chunks z)"

text \<open>All that is passed on when the chunks are written one by one, and the law that reading it
  back gives their concatenation.\<close>

fun gzip_emitted :: "gzip_lib \<Rightarrow> int \<Rightarrow> gostring list \<Rightarrow> gostring list \<Rightarrow> gostring" where
  "gzip_emitted lib level before [] = []"
| "gzip_emitted lib level before (b # bs) = gz_emit lib level before b @ gzip_emitted lib level (before @ [b]) bs"

definition gzip_stream :: "gzip_lib \<Rightarrow> int \<Rightarrow> gostring list \<Rightarrow> gostring" where
  "gzip_stream lib level bs = gzip_emitted lib level [] bs @ gz_finish lib level bs"

definition gzip_lawful :: "gzip_lib \<Rightarrow> bool" where
  "gzip_lawful lib \<longleftrightarrow> (\<forall>level bs. HuffmanOnly \<le> level \<and> level \<le> BestCompression \<longrightarrow>
     gz_NewReader lib (gzip_stream lib level bs) = None \<and>
     gz_ReadAll lib (gzip_stream lib level bs) = Inr (concat bs))"

definition normalizeGzipLevel :: "int \<Rightarrow> int" where
  "normalizeGzipLevel level =
     (if level \<le> 0 then DefaultCompression else if level > BestCompression then BestCompression else level)"

section \<open>Which content is compressed\<close>

definition compressableContentTypes :: "gostring list" where
  "compressableContentTypes = [''application/json'', ''text/html'']"

definition checkAcceptEncodingIncludes :: "header \<Rightarrow> gostring list \<Rightarrow> bool" where
  "checkAcceptEncodingIncludes h encodings =
     list_ex (\<lambda>acceptable. list_ex (\<lambda>encoding. encoding = TrimSpace acceptable) encodings)
       (split_on (CHR '','') (header_get h ''Accept-Encoding''))"

definition checkContentEncoding :: "header \<Rightarrow> gostring list \<Rightarrow> bool" where
  "checkContentEncoding h encodings =
     list_ex (\<lambda>encoding. encoding = header_get h ''Content-Encoding'') encodings"

definition checkContentTypeForCompression :: "header \<Rightarrow> bool" where
  "checkContentTypeForCompression h =
     list_ex (\<lambda>allowed. allowed = TrimSpace (hd (split_on (CHR '';'') (header_get h ''Content-Type''))))
       compressableContentTypes"

definition gzipEncoding :: gostring where
  "gzipEncoding = ''gzip''"

section \<open>Response writers\<close>

text \<open>\<open>LoggedWriter\<close> has the status and the size it has seen, \<open>GzipWriter\<close> its \<open>gzip.Writer\<close> and
  whether anything was written to that.\<close>

datatype response_writer =
    ServerWriter writer
  | LoggedWriter response_writer nat nat
  | GzipWriter response_writer gzip_writer bool

fun Header :: "response_writer \<Rightarrow> header" where
  "Header (ServerWriter w) = w_header w"
| "Header (LoggedWriter rw status n) = Header rw"
| "Header (GzipWriter rw gw written) = Header rw"

fun set_header :: "header \<Rightarrow> response_writer \<Rightarrow> response_writer" where
  "set_header h (ServerWriter w) = ServerWriter (w\<lparr>w_header := h\<rparr>)"
| "set_header h (LoggedWriter rw status n) = LoggedWriter (set_header h rw) status n"
| "set_header h (GzipWriter rw gw written) = GzipWriter (set_header h rw) gw written"

lemma size_set_header [termination_simp]: "size (set_header h rw) = size rw"
  by (induction rw) simp_all

fun WriteHeader :: "nat \<Rightarrow> response_writer \<Rightarrow> response_writer" where
  "WriteHeader code (ServerWriter w) = ServerWriter (server_WriteHeader code w)"
| "WriteHeader code (LoggedWriter rw status n) = LoggedWriter (WriteHeader code rw) code n"
| "WriteHeader code (GzipWriter rw gw written) =
     GzipWriter (WriteHeader code
       (if checkContentTypeForCompression (Header rw)
        then set_header (header_add ''Content-Encoding'' gzipEncoding (header_del ''Content-Encoding'' (Header rw))) rw
        else rw)) gw written"

fun rw_Write :: "gostring \<Rightarrow> response_writer \<Rightarrow> response_writer" where
  "rw_Write b (ServerWriter w) = ServerWriter (server_Write b w)"
| "rw_Write b (LoggedWriter rw status n) = LoggedWriter (rw_Write b rw) status (n + length b)"
| "rw_Write b (GzipWriter rw gw written) =
     (if checkContentTypeForCompression (Header rw)
      then (case gzip_Write b gw of (out, gw') \<Rightarrow> GzipWriter (rw_Write out rw) gw' True)
      else GzipWriter (rw_Write b rw) gw written)"

text \<open>Closing the gzip wrapper; what it wrapped.\<close>

fun rw_Close :: "response_writer \<Rightarrow> response_writer" where
  "rw_Close (GzipWriter rw gw written) = (if written then rw_Write (gzip_Close gw) rw else rw)"
| "rw_Close rw = rw"

definition newGzipResponseWriter :: "response_writer \<Rightarrow> gzip_writer \<Rightarrow> response_writer" where
  "newGzipResponseWriter w gw = GzipWriter w gw False"

definition newEnrichedResponseWriter :: "response_writer \<Rightarrow> response_writer" where
  "newEnrichedResponseWriter w = LoggedWriter w 0 0"

fun unwrap :: "response_writer \<Rightarrow> response_writer" where
  "unwrap (LoggedWriter rw status n) = rw"
| "unwrap (GzipWriter rw gw written) = rw"
| "unwrap (ServerWriter w) = ServerWriter w"

definition http_Error :: "gostring \<Rightarrow> nat \<Rightarrow> response_writer \<Rightarrow> response_writer" where
  "http_Error msg code w =
     (let h = header_set ''X-Content-Type-Options'' ''nosniff''
                (header_set ''Content-Type'' ''text/plain; charset=utf-8''
                  (header_del ''Content-Length'' (Header w)))
      in rw_Write (msg @ [CHR 0x0A]) (WriteHeader code (set_header h w)))"

section \<open>Engines\<close>

record write_engine =
  we_Name :: gostring
  we_Applicable :: "header \<Rightarrow> bool"
  we_NewResponseWriter :: "response_writer \<Rightarrow> int \<Rightarrow> goerror + response_writer"
  we_WriteFlushed :: "gostring \<Rightarrow> int \<Rightarrow> goerror + gostring"
  we_SetContentEncoding :: "header \<Rightarrow> header"

record read_engine =
  re_Name :: gostring
  re_Applicable :: "header \<Rightarrow> bool"
  re_ReadAll :: "goerror + gostring \<Rightarrow> goerror + gostring"

definition gzip_NewResponseWriter :: "gzip_lib \<Rightarrow> response_writer \<Rightarrow> int \<Rightarrow> goerror + response_writer" where
  "gzip_NewResponseWriter lib w level =
     (case NewWriterLevel lib (normalizeGzipLevel level) of
        Inl err \<Rightarrow> Inl (errorf ''error intitalizing gzip writer: '' err [])
      | Inr gw \<Rightarrow> Inr (newGzipResponseWriter w gw))"

definition gzip_WriteFlushed :: "gzip_lib \<Rightarrow> gostring \<Rightarrow> int \<Rightarrow> goerror + gostring" where
  "gzip_WriteFlushed lib data level =
     (case NewWriterLevel lib (normalizeGzipLevel level) of
        Inl err \<Rightarrow> Inl (errorf ''error intitalizing gzip writer: '' err [])
      | Inr gw \<Rightarrow> (case gzip_Write data gw of (out, gw') \<Rightarrow> Inr (out @ gzip_Close gw')))"

definition gzip_SetContentEncoding :: "header \<Rightarrow> header" where
  "gzip_SetContentEncoding h = header_set ''Content-Encoding'' gzipEncoding h"

text \<open>A body that cannot be read fails when the reader looks for the gzip header.\<close>

definition gzip_ReadAll :: "gzip_lib \<Rightarrow> goerror + gostring \<Rightarrow> goerror + gostring" where
  "gzip_ReadAll lib r =
     (case r of
        Inl e \<Rightarrow> Inl (errorf ''error initializing gzip reader: '' e [])
      | Inr bytes \<Rightarrow>
          (case gz_NewReader lib bytes of
             Some err \<Rightarrow> Inl (errorf ''error initializing gzip reader: '' err [])
           | None \<Rightarrow>
               (case gz_ReadAll lib bytes of
                  Inl err \<Rightarrow> Inl (errorf ''error reading gzipped data: '' err [])
                | Inr data \<Rightarrow> Inr data)))"

definition NewGzipWriteEngine :: "gzip_lib \<Rightarrow> write_engine" where
  "NewGzipWriteEngine lib =
     \<lparr>we_Name = gzipEncoding,
      we_Applicable = (\<lambda>h. checkAcceptEncodingIncludes h [gzipEncoding]),
      we_NewResponseWriter = gzip_NewResponseWriter lib,
      we_WriteFlushed = gzip_WriteFlushed lib,
      we_SetContentEncoding = gzip_SetContentEncoding\<rparr>"

definition NewGzipReadEngine :: "gzip_lib \<Rightarrow> read_engine" where
  "NewGzipReadEngine lib =
     \<lparr>re_Name = gzipEncoding,
      re_Applicable = (\<lambda>h. checkContentEncoding h [gzipEncoding]),
      re_ReadAll = gzip_ReadAll lib\<rparr>"

text \<open>\<open>Compressor\<close> and \<open>Decompressor\<close>: the first engine that applies. \<open>Inr None\<close> is a nil writer.\<close>

definition CreateCompressWriter ::
    "write_engine list \<Rightarrow> response_writer \<Rightarrow> request \<Rightarrow> goerror + response_writer option" where
  "CreateCompressWriter engines w r =
     (case find (\<lambda>e. we_Applicable e (rq_header r)) engines of
        None \<Rightarrow> Inr None
      | Some e \<Rightarrow>
          (case we_NewResponseWriter e w 0 of
             Inl err \<Rightarrow> Inl (errorf ''error creating compress writer: '' err [])
           | Inr crw \<Rightarrow> Inr (Some crw)))"

definition ReadRequestBody :: "read_engine list \<Rightarrow> request \<Rightarrow> goerror + gostring" where
  "ReadRequestBody engines r =
     (case find (\<lambda>e. re_Applicable e (rq_header r)) engines of
        None \<Rightarrow> rq_body r
      | Some e \<Rightarrow>
          (case re_ReadAll e (rq_body r) of
             Inl err \<Rightarrow> Inl (errorf ''can't decompress request body: '' err [])
           | Inr b \<Rightarrow> Inr b))"

section \<open>What a client gets\<close>

text \<open>The server's own writer below the wrappers; the status a client gets (a handler that never
  writes sends 200), the header sent and the bytes of the body.\<close>

fun base :: "response_writer \<Rightarrow> writer" where
  "base (ServerWriter w) = w"
| "base (LoggedWriter rw status n) = base rw"
| "base (GzipWriter rw gw written) = base rw"

definition fresh :: "response_writer \<Rightarrow> bool" where
  "fresh rw \<longleftrightarrow> w_sent (base rw) = None"

definition status_of :: "response_writer \<Rightarrow> nat" where
  "status_of rw = (case w_sent (base rw) of None \<Rightarrow> 200 | Some (code, h) \<Rightarrow> code)"

definition sent_header :: "response_writer \<Rightarrow> header" where
  "sent_header rw = (case w_sent (base rw) of None \<Rightarrow> Header rw | Some (code, h) \<Rightarrow> h)"

definition body_of :: "response_writer \<Rightarrow> gostring" where
  "body_of rw = w_body (base rw)"

text \<open>No gzip wrapper among the writers.\<close>

fun uncompressed :: "response_writer \<Rightarrow> bool" where
  "uncompressed (ServerWriter w) \<longleftrightarrow> True"
| "uncompressed (LoggedWriter rw status n) \<longleftrightarrow> uncompressed rw"
| "uncompressed (GzipWriter rw gw written) \<longleftrightarrow> False"

lemma Header_base: "Header rw = w_header (base rw)"
  by (induction rw) simp_all

lemma set_header_simps [simp]:
  "w_sent (base (set_header h rw)) = w_sent (base rw)" "w_body (base (set_header h rw)) = w_body (base rw)"
  "Header (set_header h rw) = h" "fresh (set_header h rw) = fresh rw" "uncompressed (set_header h rw) = uncompressed rw"
  "body_of (set_header h rw) = body_of rw" "status_of (set_header h rw) = status_of rw"
  by (induction rw) (simp_all add: fresh_def body_of_def status_of_def)

lemma set_header_twice [simp]: "set_header g (set_header h rw) = set_header g rw"
  by (induction rw) simp_all

lemma WriteHeader_simps [simp]: "uncompressed (WriteHeader c rw) = uncompressed rw" "body_of (WriteHeader c rw) = body_of rw"
  by (induction c rw rule: WriteHeader.induct) (simp_all add: body_of_def)

lemma Write_simps [simp]: "uncompressed (rw_Write b rw) = uncompressed rw" "Header (rw_Write b rw) = Header rw"
  by (induction b rw rule: rw_Write.induct) (simp_all add: gzip_Write_def)

text \<open>The status line is sent once: by the first call that commits it.\<close>

lemma w_sent_WriteHeader:
  "\<exists>h. w_sent (base (WriteHeader c rw)) = (case w_sent (base rw) of None \<Rightarrow> Some (c, h) | Some x \<Rightarrow> Some x)"
proof (induction c rw rule: WriteHeader.induct)
  case (3 code rw gw written)
  then show ?case by (cases "checkContentTypeForCompression (Header rw)") simp_all
qed (auto split: option.splits)

lemma w_sent_Write:
  "w_sent (base (rw_Write b rw)) = (case w_sent (base rw) of None \<Rightarrow> Some (200, Header rw) | Some x \<Rightarrow> Some x)"
  by (induction b rw rule: rw_Write.induct) (simp_all add: gzip_Write_def split: option.split)

lemma status_of_WriteHeader [simp]: "fresh rw \<Longrightarrow> status_of (WriteHeader c rw) = c"
  using w_sent_WriteHeader [of c rw] by (auto simp: fresh_def status_of_def)

lemma fresh_WriteHeader [simp]: "\<not> fresh (WriteHeader c rw)"
  using w_sent_WriteHeader [of c rw] by (auto simp: fresh_def split: option.splits)

lemma status_of_Write [simp]: "\<not> fresh rw \<Longrightarrow> status_of (rw_Write b rw) = status_of rw"
  by (auto simp: fresh_def status_of_def w_sent_Write)

lemma status_of_Error [simp]: "fresh rw \<Longrightarrow> status_of (http_Error msg code rw) = code"
  by (simp add: http_Error_def Let_def)

text \<open>The types the handlers use.\<close>

definition compressible_type :: "gostring \<Rightarrow> bool" where
  "compressible_type t = list_ex (\<lambda>allowed. allowed = TrimSpace (hd (split_on (CHR '';'') t))) compressableContentTypes"

lemma check_type: "checkContentTypeForCompression h = compressible_type (header_get h ''Content-Type'')"
  by (simp add: checkContentTypeForCompression_def compressible_type_def)

lemma compressible_types [simp]:
  "\<not> compressible_type []" "\<not> compressible_type ''text/plain''" "\<not> compressible_type ''text/plain; charset=utf-8''"
  "compressible_type ''application/json''" "compressible_type ''text/html''"
  by (simp_all add: compressible_type_def compressableContentTypes_def TrimSpace_graphic graphic_def char_code_def)

text \<open>Content that is not compressed passes through every wrapper unchanged.\<close>

lemma plain_content:
  assumes "uncompressed rw \<or> \<not> checkContentTypeForCompression (Header rw)"
  shows "Header (WriteHeader c rw) = Header rw" "body_of (rw_Write b rw) = body_of rw @ b"
    "fresh rw \<Longrightarrow> w_sent (base (WriteHeader c rw)) = Some (c, Header rw)"
  using assms by (induction rw) (auto simp: body_of_def fresh_def Header_base)

lemma header_get_Error [simp]:
  "header_get (header_set ''X-Content-Type-Options'' v (header_set ''Content-Type'' t h)) ''Content-Type'' = t"
  by (simp add: header_get_def header_set_def canonical_key_def is_token_char_def is_upper_def is_lower_def
      is_digit_def to_upper_def to_lower_def char_code_def)

text \<open>A gzip that stores, for the witnesses.\<close>

definition stored_gzip :: gzip_lib where
  "stored_gzip = \<lparr>gz_emit = (\<lambda>level before b. b), gz_finish = (\<lambda>level bs. []),
     gz_NewReader = (\<lambda>b. None), gz_ReadAll = Inr\<rparr>"

end
