(* ===== verification/Middleware.thy ===== *)
theory Middleware
  imports HashSign Compress
begin

text \<open>
  \<open>internal/handler/errorhandling\<close> and \<open>internal/handler/middleware\<close>: the errors a handler
  renders, and the middlewares for logging, authorization, compression and decryption. A
  handler takes the request, the response writer and a state, and returns whether it
  finished or panicked, the writer and the state. The log itself is not modelled. The lemmas
  show that every middleware is transparent to a handler that answers in one of the three
  ways the program uses (the locale \<open>answering\<close>): the client reads the same response through
  the compressing writer as without it.
\<close>

section \<open>Handler errors\<close>

record handler_error =
  he_StatusCode :: nat
  he_Message :: gostring
  he_Error :: "goerror option"

definition NewValidationHandlerError :: "gostring \<Rightarrow> handler_error" where
  "NewValidationHandlerError message = \<lparr>he_StatusCode = StatusBadRequest, he_Message = message, he_Error = None\<rparr>"

definition NewNotFoundHandlerError :: "gostring \<Rightarrow> handler_error" where
  "NewNotFoundHandlerError message = \<lparr>he_StatusCode = StatusNotFound, he_Message = message, he_Error = None\<rparr>"

definition NewInternalServerError :: "goerror \<Rightarrow> handler_error" where
  "NewInternalServerError err =
     \<lparr>he_StatusCode = StatusInternalServerError, he_Message = InternalServerErrorText, he_Error = Some err\<rparr>"

definition Render :: "handler_error \<Rightarrow> response_writer \<Rightarrow> response_writer" where
  "Render err w = http_Error (he_Message err) (he_StatusCode err) w"

lemma status_of_Render [simp]: "fresh w \<Longrightarrow> status_of (Render e w) = he_StatusCode e"
  by (simp add: Render_def)

lemma handler_error_status [simp]:
  "he_StatusCode (NewValidationHandlerError msg) = 400" "he_StatusCode (NewNotFoundHandlerError msg) = 404"
  "he_StatusCode (NewInternalServerError e) = 500"
  by (simp_all add: NewValidationHandlerError_def NewNotFoundHandlerError_def NewInternalServerError_def status_defs)

text \<open>A panicking handler leaves the writer as it is.\<close>

type_synonym 't handler = "request \<Rightarrow> response_writer \<Rightarrow> 't \<Rightarrow> unit outcome \<times> response_writer \<times> 't"

section \<open>The logging middleware\<close>

definition logging_Middleware :: "'t handler \<Rightarrow> 't handler" where
  "logging_Middleware next r w st =
     (let ew = newEnrichedResponseWriter w
      in case next r ew st of (x, ew', st') \<Rightarrow> (x, unwrap ew', st'))"

section \<open>The authorization middleware\<close>

text \<open>The key is a byte slice; \<open>None\<close> is nil, which the conversion of a string never gives.\<close>

definition NewAuthorization :: "gostring \<Rightarrow> gostring option" where
  "NewAuthorization secretKey = Some secretKey"

definition auth_Middleware :: "gostring option \<Rightarrow> 't handler \<Rightarrow> 't handler" where
  "auth_Middleware auth next r w st =
     (case auth of
        None \<Rightarrow> next r w st
      | Some key \<Rightarrow>
          (case GetSignature (rq_header r) of
             Inl e \<Rightarrow> (Done (), Render (NewValidationHandlerError ''can't read signature from incoming request'') w, st)
           | Inr None \<Rightarrow> next r w st
           | Inr (Some reqSign) \<Rightarrow>
               (case rq_body r of
                  Inl e \<Rightarrow> (Done (), Render (NewValidationHandlerError ''can't read incoming request body'') w, st)
                | Inr payload \<Rightarrow>
                    (case CheckSignature key payload reqSign of
                       Some e \<Rightarrow>
                         if errors_is e ErrSignatureInvalid then (Done (), WriteHeader StatusUnauthorized w, st)
                         else (Done (), Render (NewInternalServerError e) w, st)
                     | None \<Rightarrow> next (r\<lparr>rq_body := Inr payload\<rparr>) w st))))"

section \<open>The compressing middleware\<close>

record compressing =
  cm_compr :: "write_engine list"
  cm_decompr :: "read_engine list"

definition NewCompressing :: "gzip_lib \<Rightarrow> compressing" where
  "NewCompressing lib = \<lparr>cm_compr = [NewGzipWriteEngine lib], cm_decompr = [NewGzipReadEngine lib]\<rparr>"

text \<open>The wrapper is closed when the next handler returns and when it panics.\<close>

definition compressing_Middleware :: "compressing \<Rightarrow> 't handler \<Rightarrow> 't handler" where
  "compressing_Middleware c next r w st =
     (case ReadRequestBody (cm_decompr c) r of
        Inl err \<Rightarrow> (Done (), Render (NewValidationHandlerError (''error decompressing body: '' @ error_text err)) w, st)
      | Inr body \<Rightarrow>
          (let r' = r\<lparr>rq_body := Inr body\<rparr>
           in case CreateCompressWriter (cm_compr c) w r' of
                Inl err \<Rightarrow> (Done (), http_Error InternalServerErrorText StatusInternalServerError w, st)
              | Inr (Some crw) \<Rightarrow> (case next r' crw st of (x, crw', st') \<Rightarrow> (x, rw_Close crw', st'))
              | Inr None \<Rightarrow> next r' w st))"

section \<open>The decryption middleware\<close>

text \<open>The interface \<open>encrypt.Decrypter\<close>; decrypting may panic. A server request always has a
  body, so that the test for a nil body never succeeds.\<close>

record decrypter =
  dc_DecryptingEnabled :: bool
  dc_Decrypt :: "gostring \<Rightarrow> (goerror + gostring) outcome"

definition decryption_Middleware :: "decrypter \<Rightarrow> 't handler \<Rightarrow> 't handler" where
  "decryption_Middleware dec next r w st =
     (if \<not> dc_DecryptingEnabled dec then next r w st
      else case rq_body r of
        Inl e \<Rightarrow> (Done (), Render (NewValidationHandlerError ''can't read incoming request body'') w, st)
      | Inr payload \<Rightarrow>
          (case dc_Decrypt dec payload of
             Panic \<Rightarrow> (Panic, w, st)
           | Done (Inl e) \<Rightarrow> (Done (), Render (NewValidationHandlerError ''can't decrypt incoming request body'') w, st)
           | Done (Inr decrypted) \<Rightarrow> next (r\<lparr>rq_body := Inr decrypted\<rparr>) w st))"

section \<open>How the handlers answer\<close>

text \<open>A status without a body, an error as plain text, or a signed payload of some content type.\<close>

datatype answer = StatusAnswer nat | ErrorAnswer gostring nat | BodyAnswer gostring gostring gostring

definition answer_header :: "gostring \<Rightarrow> gostring \<Rightarrow> gostring \<Rightarrow> header \<Rightarrow> header" where
  "answer_header key ctype payload h = header_add ''Content-Type'' ctype (AddSignature key payload h)"

fun respond :: "answer \<Rightarrow> response_writer \<Rightarrow> response_writer" where
  "respond (StatusAnswer code) w = WriteHeader code w"
| "respond (ErrorAnswer msg code) w = http_Error msg code w"
| "respond (BodyAnswer key ctype payload) w =
     rw_Write payload (WriteHeader 200 (set_header (answer_header key ctype payload (Header w)) w))"

text \<open>A handler that answers once, in a way that does not depend on the writer, or panics.\<close>

definition uniform :: "(response_writer \<Rightarrow> unit outcome \<times> response_writer \<times> 't) \<Rightarrow> bool" where
  "uniform f \<longleftrightarrow> (\<exists>x a st'. \<forall>w. f w = (x, if x = Panic then w else respond a w, st'))"

locale answering =
  fixes h :: "'t handler"
  assumes answers: "uniform (\<lambda>w. h r w st)"

lemma uniform_answer: "uniform (\<lambda>w. (Done (), respond a w, st))" "uniform (\<lambda>w. (Panic, w, st))"
  by (auto simp: uniform_def)

lemma uniform_sum:
  "(\<And>x. uniform (f x)) \<Longrightarrow> (\<And>y. uniform (g y)) \<Longrightarrow> uniform (\<lambda>w. case s of Inl x \<Rightarrow> f x w | Inr y \<Rightarrow> g y w)"
  by (cases s) simp_all

lemma uniform_option:
  "uniform n \<Longrightarrow> (\<And>y. uniform (g y)) \<Longrightarrow> uniform (\<lambda>w. case q of None \<Rightarrow> n w | Some y \<Rightarrow> g y w)"
  by (cases q) simp_all

lemma uniform_outcome:
  "(\<And>y. uniform (g y)) \<Longrightarrow> uniform n \<Longrightarrow> uniform (\<lambda>w. case c of Done y \<Rightarrow> g y w | Panic \<Rightarrow> n w)"
  by (cases c) simp_all

lemma uniform_prod: "(\<And>x y. uniform (k x y)) \<Longrightarrow> uniform (\<lambda>w. case p of (x, y) \<Rightarrow> k x y w)"
  by (cases p) simp_all

lemma uniform_if: "uniform n \<Longrightarrow> uniform m \<Longrightarrow> uniform (\<lambda>w. if b then n w else m w)"
  by (cases b) simp_all

lemmas uniform_intros = uniform_answer uniform_sum uniform_option uniform_outcome uniform_prod uniform_if

section \<open>Transparency of the middlewares\<close>

lemma canonical_keys [simp]:
  "canonical_key ''Content-Type'' = ''Content-Type''" "canonical_key ''Content-Encoding'' = ''Content-Encoding''"
  "canonical_key SignHeader = ''Hashsha256''" "canonical_key ''Accept-Encoding'' = ''Accept-Encoding''"
  "canonical_key ''X-Content-Type-Options'' = ''X-Content-Type-Options''" "canonical_key ''Content-Length'' = ''Content-Length''"
  by code_simp+

lemma unwrap_respond [simp]: "unwrap (respond a (LoggedWriter rw status n)) = respond a rw"
  by (cases a) (simp_all add: http_Error_def Let_def)

lemma Write_Write: "uncompressed rw \<Longrightarrow> rw_Write c (rw_Write b rw) = rw_Write (b @ c) rw"
  by (induction rw) (auto simp: server_Write_def server_WriteHeader_def Let_def split: option.split)

text \<open>A writer nothing was written to, without a gzip wrapper.\<close>

definition blank_writer :: "response_writer \<Rightarrow> bool" where
  "blank_writer w \<longleftrightarrow> uncompressed w \<and> base w = new_writer"

lemma blank_writer_simps:
  assumes "blank_writer w"
  shows "uncompressed w" "base w = new_writer" "Header w = []" "fresh w" "body_of w = []" "sent_header w = []"
  using assms by (auto simp: blank_writer_def Header_base new_writer_def fresh_def body_of_def sent_header_def)

lemma blank_ServerWriter [simp]: "blank_writer (ServerWriter new_writer)"
  by (simp add: blank_writer_def)

lemma blank_Logged [simp]: "blank_writer (LoggedWriter w status n) = blank_writer w"
  by (simp add: blank_writer_def)

text \<open>The header of an answer with a body, and with the mark of its compression.\<close>

definition gzip_header :: "header \<Rightarrow> header" where
  "gzip_header h = header_add ''Content-Encoding'' gzipEncoding (header_del ''Content-Encoding'' h)"

lemma header_get_answer [simp]:
  "header_get (answer_header key ctype payload []) ''Content-Type'' = ctype"
  "header_get (answer_header key ctype payload []) ''Content-Encoding'' = []"
  "header_get (gzip_header h) ''Content-Encoding'' = gzipEncoding"
  by (auto simp: answer_header_def AddSignature_def header_get_def header_add_def gzip_header_def header_del_def
      update_conv' delete_conv')

lemma header_get_Nil [simp]: "header_get [] k = []"
  by (simp add: header_get_def)

lemma respond_gzip:
  assumes "uncompressed rw" and "Header rw = []"
  shows "rw_Close (respond a (GzipWriter rw gw False)) =
    (case a of
       BodyAnswer key ctype payload \<Rightarrow>
         if compressible_type ctype
         then rw_Write (gz_emit (zw_lib gw) (zw_level gw) (zw_chunks gw) payload @
                gz_finish (zw_lib gw) (zw_level gw) (zw_chunks gw @ [payload]))
              (WriteHeader 200 (set_header (gzip_header (answer_header key ctype payload [])) rw))
         else respond a rw
     | _ \<Rightarrow> respond a rw)"
proof (cases a)
  case (BodyAnswer key ctype payload)
  let ?h = "answer_header key ctype payload []"
  have p: "uncompressed (set_header h rw)" for h using assms(1) by simp
  have "header_get (gzip_header ?h) ''Content-Type'' = ctype"
    using header_get_answer(1) [of key ctype payload]
    by (simp add: gzip_header_def header_get_def header_add_def header_del_def update_conv' delete_conv')
  moreover have "Header (WriteHeader 200 (set_header h rw)) = h" for h
    using plain_content(1) [of "set_header h rw" 200] p by simp
  ultimately show ?thesis using BodyAnswer assms
    by (simp add: check_type gzip_Write_def gzip_Close_def Write_Write gzip_header_def)
next
  case (ErrorAnswer msg code)
  have "checkContentTypeForCompression (Header (set_header h rw)) = compressible_type (header_get h ''Content-Type'')" for h
    by (simp add: check_type)
  then show ?thesis using ErrorAnswer assms plain_content(1) [of "set_header h rw" for h]
    by (simp add: http_Error_def Let_def check_type)
qed (use assms in \<open>simp add: check_type\<close>)

text \<open>What a client reads that undoes the content encoding.\<close>

definition decoded_body :: "gzip_lib \<Rightarrow> response_writer \<Rightarrow> goerror + gostring" where
  "decoded_body lib w =
     (if header_get (sent_header w) ''Content-Encoding'' = gzipEncoding then gz_ReadAll lib (body_of w)
      else Inr (body_of w))"

lemma sent_after_Write: "\<not> fresh rw \<Longrightarrow> sent_header (rw_Write b rw) = sent_header rw"
  by (auto simp: sent_header_def fresh_def w_sent_Write)

lemma sent_after_WriteHeader:
  "uncompressed rw \<Longrightarrow> fresh rw \<Longrightarrow> sent_header (WriteHeader c rw) = Header rw"
  using plain_content(3) [of rw c] by (simp add: sent_header_def)

lemma respond_blank:
  assumes "blank_writer w"
  shows "status_of (respond a w) = (case a of StatusAnswer c \<Rightarrow> c | ErrorAnswer msg c \<Rightarrow> c | BodyAnswer _ _ _ \<Rightarrow> 200)"
    "body_of (respond a w) = (case a of StatusAnswer c \<Rightarrow> [] | ErrorAnswer msg c \<Rightarrow> msg @ [CHR 0x0A] | BodyAnswer _ _ p \<Rightarrow> p)"
    "header_get (sent_header (respond a w)) ''Content-Encoding'' = []"
proof -
  note b = blank_writer_simps [OF assms]
  have u: "uncompressed (WriteHeader c (set_header h w))" for c h using b by simp
  have w: "body_of (rw_Write p (WriteHeader c (set_header h w))) = p" for p c h
    using plain_content(2) [OF disjI1 [OF u], of p c h] b by simp
  show "status_of (respond a w) = (case a of StatusAnswer c \<Rightarrow> c | ErrorAnswer msg c \<Rightarrow> c | BodyAnswer _ _ _ \<Rightarrow> 200)"
    using b by (cases a) simp_all
  show "body_of (respond a w) = (case a of StatusAnswer c \<Rightarrow> [] | ErrorAnswer msg c \<Rightarrow> msg @ [CHR 0x0A] | BodyAnswer _ _ p \<Rightarrow> p)"
    using b w by (cases a) (simp_all add: http_Error_def Let_def)
  show "header_get (sent_header (respond a w)) ''Content-Encoding'' = []"
    using b by (cases a) (simp_all add: http_Error_def Let_def sent_after_Write sent_after_WriteHeader
        header_set_def header_del_def header_get_def [of "x # y" for x y])
qed

lemma gzip_stream_single: "gzip_stream lib level [b] = gz_emit lib level [] b @ gz_finish lib level [b]"
  by (simp add: gzip_stream_def)

lemma compressed_answer:
  assumes "blank_writer w" and "gzip_lawful lib" and "HuffmanOnly \<le> level" "level \<le> BestCompression"
  shows "status_of (rw_Close (respond a (GzipWriter w \<lparr>zw_lib = lib, zw_level = level, zw_chunks = []\<rparr> False))) =
      status_of (respond a w) \<and>
    decoded_body lib (rw_Close (respond a (GzipWriter w \<lparr>zw_lib = lib, zw_level = level, zw_chunks = []\<rparr> False))) =
      Inr (body_of (respond a w))"
    (is "?s \<and> ?d")
proof -
  note b = blank_writer_simps [OF assms(1)]
  have plain: "decoded_body lib (respond a w) = Inr (body_of (respond a w))"
    using respond_blank(3) [OF assms(1), of a] by (simp add: decoded_body_def gzipEncoding_def)
  show ?thesis
  proof (cases "\<exists>key ctype payload. a = BodyAnswer key ctype payload \<and> compressible_type ctype")
    case True
    then obtain key ctype payload where a: "a = BodyAnswer key ctype payload" "compressible_type ctype" by blast
    let ?rw = "WriteHeader 200 (set_header (gzip_header (answer_header key ctype payload [])) w)"
    have "body_of (rw_Write (gzip_stream lib level [payload]) ?rw) = gzip_stream lib level [payload]"
      using plain_content(2) [of ?rw] b by simp
    moreover have "gz_ReadAll lib (gzip_stream lib level [payload]) = Inr payload"
      using assms(2-4) by (auto simp: gzip_lawful_def)
    ultimately show ?thesis using a b respond_gzip [OF b(1,3), of a] respond_blank(1,2) [OF assms(1), of a]
      by (simp add: decoded_body_def sent_after_Write sent_after_WriteHeader gzip_stream_single [symmetric])
  next
    case False
    then have "rw_Close (respond a (GzipWriter w gw False)) = respond a w" for gw
      using respond_gzip [OF b(1,3), of a gw] by (auto split: answer.split)
    then show ?thesis using plain by simp
  qed
qed

text \<open>The engine the compressing middleware makes never fails.\<close>

definition gzip_accepted :: "request \<Rightarrow> bool" where
  "gzip_accepted r \<longleftrightarrow> checkAcceptEncodingIncludes (rq_header r) [gzipEncoding]"

lemma CreateCompressWriter_gzip:
  "CreateCompressWriter (cm_compr (NewCompressing lib)) w r =
     Inr (if gzip_accepted r
          then Some (GzipWriter w \<lparr>zw_lib = lib, zw_level = DefaultCompression, zw_chunks = []\<rparr> False) else None)"
  by (simp add: CreateCompressWriter_def NewCompressing_def NewGzipWriteEngine_def gzip_NewResponseWriter_def
      NewWriterLevel_def normalizeGzipLevel_def newGzipResponseWriter_def gzip_accepted_def
      DefaultCompression_def HuffmanOnly_def BestCompression_def)

context answering
begin

lemma logging_transparent: "logging_Middleware h r w st = h r w st"
proof -
  obtain x a st' where "\<And>w. h r w st = (x, if x = Panic then w else respond a w, st')" using answers by (metis uniform_def)
  then show ?thesis by (simp add: logging_Middleware_def newEnrichedResponseWriter_def)
qed

lemma compressing_transparent:
  assumes "blank_writer w" and "gzip_lawful lib"
    and "ReadRequestBody (cm_decompr (NewCompressing lib)) r = Inr body"
    and "h (r\<lparr>rq_body := Inr body\<rparr>) w st = (Done (), w1, st1)"
  shows "\<exists>w2. compressing_Middleware (NewCompressing lib) h r w st = (Done (), w2, st1) \<and>
    status_of w2 = status_of w1 \<and> decoded_body lib w2 = Inr (body_of w1)"
proof -
  let ?r = "r\<lparr>rq_body := Inr body\<rparr>"
  obtain x a st' where p: "\<And>w. h ?r w st = (x, if x = Panic then w else respond a w, st')" using answers by (metis uniform_def)
  then have x: "x = Done ()" "w1 = respond a w" "st1 = st'" using assms(4) by auto
  have "decoded_body lib (respond a w) = Inr (body_of (respond a w))"
    using respond_blank(3) [OF assms(1), of a] by (simp add: decoded_body_def gzipEncoding_def)
  moreover have "HuffmanOnly \<le> DefaultCompression" "DefaultCompression \<le> BestCompression"
    by (simp_all add: DefaultCompression_def HuffmanOnly_def BestCompression_def)
  ultimately show ?thesis
    using assms(3) p x compressed_answer [OF assms(1,2), of DefaultCompression a]
    by (simp add: compressing_Middleware_def CreateCompressWriter_gzip Let_def)
qed

end

text \<open>Decryption keeps a handler answering, and hands it the decrypted body.\<close>

lemma decryption_answering:
  assumes "answering h"
  shows "answering (decryption_Middleware dec h)"
proof
  have h: "uniform (\<lambda>w. h r w st)" for r st using assms by (rule answering.answers)
  have "decryption_Middleware dec h r w st =
     (if \<not> dc_DecryptingEnabled dec then h r w st
      else case rq_body r of
        Inl e \<Rightarrow> (Done (), respond (ErrorAnswer ''can't read incoming request body'' 400) w, st)
      | Inr payload \<Rightarrow>
          (case dc_Decrypt dec payload of
             Done q \<Rightarrow> (case q of
               Inl e \<Rightarrow> (Done (), respond (ErrorAnswer ''can't decrypt incoming request body'' 400) w, st)
             | Inr decrypted \<Rightarrow> h (r\<lparr>rq_body := Inr decrypted\<rparr>) w st)
           | Panic \<Rightarrow> (Panic, w, st)))" for r w st
    by (simp add: decryption_Middleware_def Render_def NewValidationHandlerError_def StatusBadRequest_def
        split: sum.split outcome.split)
  then show "uniform (\<lambda>w. decryption_Middleware dec h r w st)" for r st
    by (simp only:) (rule h uniform_intros)+
qed

section \<open>Properties of the authorization middleware\<close>



text \<open>For the handlers, answers are opaque.\<close>

lemma status_of_respond [simp]:
  "fresh w \<Longrightarrow> status_of (respond a w) = (case a of StatusAnswer c \<Rightarrow> c | ErrorAnswer msg c \<Rightarrow> c | BodyAnswer _ _ _ \<Rightarrow> 200)"
  by (cases a) simp_all

declare respond.simps [simp del]

end
