(* ===== verification/GoJson.thy ===== *)
theory GoJson
  imports GoUtf8
begin

text \<open>
  What the program uses of \<open>encoding/json\<close>: string literals with Go's escapes (HTML characters,
  invalid UTF-8 and the line separators U+2028 and U+2029 included), number literals, a parser
  of JSON texts into trees with the library's nesting limit, compact and indented printing, and
  the format of a double. The parser takes fuel; twice the length of the text is enough. The
  main lemma: every rendering of a tree, with any white space between its tokens, parses back
  to the tree.
\<close>

section \<open>String literals\<close>

abbreviation dquote :: char where "dquote \<equiv> CHR 0x22"
abbreviation backslash :: char where "backslash \<equiv> CHR 0x5C"

definition hex_digit :: "nat \<Rightarrow> char" where
  "hex_digit n = ''0123456789abcdef'' ! n"

definition html_safe :: "nat \<Rightarrow> bool" where
  "html_safe n \<longleftrightarrow> 0x20 \<le> n \<and> n < 0x80 \<and> n \<notin> {0x22, 0x5C, 0x26, 0x3C, 0x3E}"

definition escape_ascii :: "char \<Rightarrow> gostring" where
  "escape_ascii c =
     (let n = char_code c
      in if html_safe n then [c]
         else if c = backslash \<or> c = dquote then [backslash, c]
         else if n = 8 then [backslash, CHR ''b'']
         else if n = 12 then [backslash, CHR ''f'']
         else if n = 10 then [backslash, CHR ''n'']
         else if n = 13 then [backslash, CHR ''r'']
         else if n = 9 then [backslash, CHR ''t'']
         else [backslash, CHR ''u'', CHR ''0'', CHR ''0'', hex_digit (n div 16), hex_digit (n mod 16)])"

function json_escape :: "gostring \<Rightarrow> gostring" where
  "json_escape s =
     (case s of [] \<Rightarrow> []
      | c # cs \<Rightarrow>
          if char_code c < 0x80 then escape_ascii c @ json_escape cs
          else (case decode_rune s of (r, n) \<Rightarrow>
             (if (r, n) = (rune_error, 1) then backslash # ''ufffd''
              else if r = 0x2028 \<or> r = 0x2029 then backslash # ''u202'' @ [hex_digit (r mod 16)]
              else take n s) @ json_escape (drop n s)))"
  by pat_completeness auto

termination
proof (relation "measure length")
  fix s :: gostring and c cs r n
  assume "s = c # cs" "(r, n) = decode_rune s"
  then show "(drop n s, s) \<in> measure length" using decode_rune_width [of c cs r n] by auto
qed auto

declare json_escape.simps [simp del]

definition json_quote :: "gostring \<Rightarrow> gostring" where
  "json_quote s = dquote # json_escape s @ [dquote]"

definition hex_val :: "char \<Rightarrow> nat option" where
  "hex_val c =
     (if is_digit c then Some (digit_val c)
      else if is_hex_letter c then Some (char_code (lower c) - 87) else None)"

definition hex4 :: "gostring \<Rightarrow> nat option" where
  "hex4 s =
     (case s of a # b # c # d # _ \<Rightarrow>
        (case (hex_val a, hex_val b, hex_val c, hex_val d) of
           (Some x, Some y, Some z, Some w) \<Rightarrow> Some (((x * 16 + y) * 16 + z) * 16 + w)
         | _ \<Rightarrow> None)
      | _ \<Rightarrow> None)"

text \<open>The low half of a surrogate pair, if the text goes on with one.\<close>

definition low_half :: "gostring \<Rightarrow> nat option" where
  "low_half s =
     (case s of a # b # r \<Rightarrow>
        if a = backslash \<and> b = CHR ''u'' then
          (case hex4 r of Some x \<Rightarrow> if 0xDC00 \<le> x \<and> x < 0xE000 then Some x else None | None \<Rightarrow> None)
        else None
      | _ \<Rightarrow> None)"

text \<open>What follows a backslash: the bytes it stands for and the rest of the text.\<close>

definition escape_seq :: "gostring \<Rightarrow> (gostring \<times> gostring) option" where
  "escape_seq s =
     (case s of [] \<Rightarrow> None
      | e # r \<Rightarrow>
          if e = dquote \<or> e = backslash \<or> e = CHR ''/'' then Some ([e], r)
          else if e = CHR ''b'' then Some ([char_of (8 :: nat)], r)
          else if e = CHR ''f'' then Some ([char_of (12 :: nat)], r)
          else if e = CHR ''n'' then Some ([char_of (10 :: nat)], r)
          else if e = CHR ''r'' then Some ([char_of (13 :: nat)], r)
          else if e = CHR ''t'' then Some ([char_of (9 :: nat)], r)
          else if e = CHR ''u'' then
            (case hex4 r of None \<Rightarrow> None
             | Some x \<Rightarrow>
                 if is_surrogate x then
                   (case (if x < 0xDC00 then low_half (drop 4 r) else None) of
                      Some y \<Rightarrow> Some (encode_rune ((x - 0xD800) * 1024 + (y - 0xDC00) + 0x10000), drop 10 r)
                    | None \<Rightarrow> Some (encode_rune rune_error, drop 4 r))
                 else Some (encode_rune x, drop 4 r))
          else None)"

lemma escape_seq_shorter: "escape_seq s = Some (t, r) \<Longrightarrow> length r < length s"
  by (auto simp: escape_seq_def split: list.splits if_splits option.splits)

text \<open>The text after the opening quote: the string and what follows the closing quote.\<close>

function unquote :: "gostring \<Rightarrow> (gostring \<times> gostring) option" where
  "unquote s =
     (case s of [] \<Rightarrow> None
      | c # cs \<Rightarrow>
          if c = dquote then Some ([], cs)
          else if c = backslash then
            (case escape_seq cs of None \<Rightarrow> None
             | Some (t, r) \<Rightarrow> (case unquote r of None \<Rightarrow> None | Some (u, q) \<Rightarrow> Some (t @ u, q)))
          else if char_code c < 0x20 then None
          else if char_code c < 0x80 then
            (case unquote cs of None \<Rightarrow> None | Some (u, q) \<Rightarrow> Some (c # u, q))
          else (case decode_rune s of (r, n) \<Rightarrow>
            (case unquote (drop n s) of None \<Rightarrow> None | Some (u, q) \<Rightarrow> Some (encode_rune r @ u, q))))"
  by pat_completeness auto

termination
proof (relation "measure length")
  fix s :: gostring and c cs r n
  assume "s = c # cs" "(r, n) = decode_rune s"
  then show "(drop n s, s) \<in> measure length" using decode_rune_width [of c cs r n] by auto
qed (auto dest!: escape_seq_shorter)

declare unquote.simps [simp del]

lemma unquote_Cons:
  "unquote (c # cs) =
     (if c = dquote then Some ([], cs)
      else if c = backslash then
        (case escape_seq cs of None \<Rightarrow> None
         | Some (t, r) \<Rightarrow> (case unquote r of None \<Rightarrow> None | Some (u, q) \<Rightarrow> Some (t @ u, q)))
      else if char_code c < 0x20 then None
      else if char_code c < 0x80 then
        (case unquote cs of None \<Rightarrow> None | Some (u, q) \<Rightarrow> Some (c # u, q))
      else (case decode_rune (c # cs) of (r, n) \<Rightarrow>
        (case unquote (drop n (c # cs)) of None \<Rightarrow> None | Some (u, q) \<Rightarrow> Some (encode_rune r @ u, q))))"
  by (subst unquote.simps) (simp only: list.case)

lemma unquote_Nil [simp]: "unquote [] = None"
  by (subst unquote.simps) simp

lemma case_Some_pair: "(case x of None \<Rightarrow> None | Some (u, q) \<Rightarrow> Some (f u, q)) = Some (t, r) \<Longrightarrow> \<exists>u. x = Some (u, r)"
  by (auto split: option.splits)

lemma unquote_shorter: "unquote s = Some (t, r) \<Longrightarrow> length r < length s"
proof (induction "length s" arbitrary: s t r rule: less_induct)
  case less
  then obtain c cs where s: "s = c # cs" by (cases s) auto
  have sub: "length r < Suc (length cs)" if "unquote p = Some (u, r)" "length p < Suc (length cs)" for p u
    using less.hyps [of p u r] that s by simp
  consider "c = dquote" | "c = backslash" | "c \<noteq> dquote" "c \<noteq> backslash" "\<not> char_code c < 0x20" "char_code c < 0x80"
    | "c \<noteq> dquote" "c \<noteq> backslash" "\<not> char_code c < 0x20" "\<not> char_code c < 0x80"
    using less.prems s by (fastforce simp: unquote_Cons)
  then show ?case
  proof cases
    case 1
    then show ?thesis using less.prems s by (simp add: unquote_Cons)
  next
    case 2
    then obtain w p where "escape_seq cs = Some (w, p)" using less.prems s
      by (cases "escape_seq cs") (auto simp: unquote_Cons)
    moreover from this 2 obtain u where "unquote p = Some (u, r)" using less.prems s
      by (auto simp: unquote_Cons dest!: case_Some_pair)
    ultimately show ?thesis using sub [of p u] escape_seq_shorter [of cs w p] s by simp
  next
    case 3
    then show ?thesis using less.prems s by (simp add: unquote_Cons) (auto dest!: case_Some_pair intro!: sub)
  next
    case 4
    obtain x n where d: "decode_rune (c # cs) = (x, n)" by fastforce
    moreover have "length (drop n (c # cs)) < Suc (length cs)" using decode_rune_width [OF d] by simp
    ultimately show ?thesis using 4 less.prems s
      by (simp only: unquote_Cons if_False prod.case) (auto dest!: case_Some_pair intro: sub)
  qed
qed

section \<open>Numbers\<close>

text \<open>The longest number literal at the front of a text; a literal that is cut short is an error.\<close>

definition scan_int :: "gostring \<Rightarrow> (gostring \<times> gostring) option" where
  "scan_int s =
     (case s of [] \<Rightarrow> None
      | c # r \<Rightarrow>
          if c = CHR ''0'' then Some ([c], r)
          else if is_digit c then Some (takeWhile is_digit s, dropWhile is_digit s) else None)"

definition scan_frac :: "gostring \<Rightarrow> (gostring \<times> gostring) option" where
  "scan_frac s =
     (case s of c # d # r \<Rightarrow>
        if c = CHR ''.'' then
          (if is_digit d then Some (c # takeWhile is_digit (d # r), dropWhile is_digit (d # r)) else None)
        else Some ([], s)
      | _ \<Rightarrow> if s = ''.'' then None else Some ([], s))"

definition scan_exp :: "gostring \<Rightarrow> (gostring \<times> gostring) option" where
  "scan_exp s =
     (case s of [] \<Rightarrow> Some ([], [])
      | c # r \<Rightarrow>
          if c = CHR ''e'' \<or> c = CHR ''E'' then
            (let sign = (case r of d # _ \<Rightarrow> if d = CHR ''+'' \<or> d = CHR ''-'' then [d] else [] | [] \<Rightarrow> []);
                 t = drop (length sign) r
             in if t \<noteq> [] \<and> is_digit (hd t) then Some (c # sign @ takeWhile is_digit t, dropWhile is_digit t) else None)
          else Some ([], s))"

definition scan_number :: "gostring \<Rightarrow> (gostring \<times> gostring) option" where
  "scan_number s =
     (let sign = (case s of c # _ \<Rightarrow> if c = CHR ''-'' then [c] else [] | [] \<Rightarrow> [])
      in case scan_int (drop (length sign) s) of None \<Rightarrow> None
         | Some (i, r) \<Rightarrow>
             (case scan_frac r of None \<Rightarrow> None
              | Some (f, r') \<Rightarrow>
                  (case scan_exp r' of None \<Rightarrow> None | Some (e, q) \<Rightarrow> Some (sign @ i @ f @ e, q))))"

section \<open>Trees and the parser\<close>

datatype json =
    JNull
  | JBool bool
  | JNum gostring
  | JStr gostring
  | JArr "json list"
  | JObj "(gostring \<times> json) list"

definition is_space :: "char \<Rightarrow> bool" where
  "is_space c \<longleftrightarrow> char_code c \<in> {0x20, 0x09, 0x0D, 0x0A}"

definition skip_ws :: "gostring \<Rightarrow> gostring" where
  "skip_ws s = dropWhile is_space s"

definition literal :: "gostring \<Rightarrow> json \<Rightarrow> gostring \<Rightarrow> (json \<times> gostring) option" where
  "literal w v s = (if take (length w) s = w then Some (v, drop (length w) s) else None)"

definition max_nesting_depth :: nat where
  "max_nesting_depth = 10000"

text \<open>The first argument is fuel, the second how many more containers may be opened.\<close>

fun parse_value :: "nat \<Rightarrow> nat \<Rightarrow> gostring \<Rightarrow> (json \<times> gostring) option"
  and parse_elems :: "nat \<Rightarrow> nat \<Rightarrow> gostring \<Rightarrow> (json list \<times> gostring) option"
  and parse_members :: "nat \<Rightarrow> nat \<Rightarrow> gostring \<Rightarrow> ((gostring \<times> json) list \<times> gostring) option" where
  "parse_value 0 d s = None"
| "parse_value (Suc n) d s =
     (case skip_ws s of [] \<Rightarrow> None
      | c # r \<Rightarrow>
          if c = dquote then (case unquote r of None \<Rightarrow> None | Some (t, q) \<Rightarrow> Some (JStr t, q))
          else if c = CHR ''['' then
            (if d = 0 then None
             else case skip_ws r of [] \<Rightarrow> None
               | x # q \<Rightarrow>
                   if x = CHR '']'' then Some (JArr [], q)
                   else (case parse_elems n (d - 1) r of None \<Rightarrow> None | Some (vs, p) \<Rightarrow> Some (JArr vs, p)))
          else if c = CHR ''{'' then
            (if d = 0 then None
             else case skip_ws r of [] \<Rightarrow> None
               | x # q \<Rightarrow>
                   if x = CHR ''}'' then Some (JObj [], q)
                   else (case parse_members n (d - 1) r of None \<Rightarrow> None | Some (vs, p) \<Rightarrow> Some (JObj vs, p)))
          else if c = CHR ''n'' then literal ''ull'' JNull r
          else if c = CHR ''t'' then literal ''rue'' (JBool True) r
          else if c = CHR ''f'' then literal ''alse'' (JBool False) r
          else (case scan_number (c # r) of None \<Rightarrow> None | Some (t, q) \<Rightarrow> Some (JNum t, q)))"
| "parse_elems 0 d s = None"
| "parse_elems (Suc n) d s =
     (case parse_value n d s of None \<Rightarrow> None
      | Some (v, r) \<Rightarrow>
          (case skip_ws r of [] \<Rightarrow> None
           | c # q \<Rightarrow>
               if c = CHR '']'' then Some ([v], q)
               else if c = CHR '','' then
                 (case parse_elems n d q of None \<Rightarrow> None | Some (vs, p) \<Rightarrow> Some (v # vs, p))
               else None))"
| "parse_members 0 d s = None"
| "parse_members (Suc n) d s =
     (case skip_ws s of [] \<Rightarrow> None
      | a # r \<Rightarrow>
          if a \<noteq> dquote then None
          else (case unquote r of None \<Rightarrow> None
            | Some (k, t) \<Rightarrow>
                (case skip_ws t of [] \<Rightarrow> None
                 | b # u \<Rightarrow>
                     if b \<noteq> CHR '':'' then None
                     else (case parse_value n d u of None \<Rightarrow> None
                       | Some (v, w) \<Rightarrow>
                           (case skip_ws w of [] \<Rightarrow> None
                            | c # q \<Rightarrow>
                                if c = CHR ''}'' then Some ([(k, v)], q)
                                else if c = CHR '','' then
                                  (case parse_members n d q of None \<Rightarrow> None
                                   | Some (vs, p) \<Rightarrow> Some ((k, v) # vs, p))
                                else None)))))"

declare parse_value.simps [simp del] parse_elems.simps [simp del] parse_members.simps [simp del]

text \<open>A whole text: one value with white space around it.\<close>

definition parse_json :: "gostring \<Rightarrow> json option" where
  "parse_json s =
     (case parse_value (2 * length s + 1) max_nesting_depth s of
        Some (v, r) \<Rightarrow> if skip_ws r = [] then Some v else None
      | None \<Rightarrow> None)"

section \<open>Printing\<close>

fun join :: "gostring \<Rightarrow> gostring list \<Rightarrow> gostring" where
  "join sep [] = []"
| "join sep [s] = s"
| "join sep (s # t # r) = s @ sep @ join sep (t # r)"

fun json_print :: "json \<Rightarrow> gostring" where
  "json_print JNull = ''null''"
| "json_print (JBool b) = (if b then ''true'' else ''false'')"
| "json_print (JNum t) = t"
| "json_print (JStr s) = json_quote s"
| "json_print (JArr vs) = ''['' @ join '','' (map json_print vs) @ '']''"
| "json_print (JObj kvs) = ''{'' @ join '','' (map (\<lambda>(k, v). json_quote k @ CHR '':'' # json_print v) kvs) @ ''}''"

text \<open>\<open>json.Indent\<close> with no prefix and two spaces, at a depth.\<close>

definition newline_at :: "nat \<Rightarrow> gostring" where
  "newline_at k = CHR 0x0A # replicate (2 * k) (CHR 0x20)"

fun json_indent :: "nat \<Rightarrow> json \<Rightarrow> gostring" where
  "json_indent k JNull = ''null''"
| "json_indent k (JBool b) = (if b then ''true'' else ''false'')"
| "json_indent k (JNum t) = t"
| "json_indent k (JStr s) = json_quote s"
| "json_indent k (JArr vs) =
     (if vs = [] then ''[]''
      else ''['' @ newline_at (Suc k) @ join (CHR '','' # newline_at (Suc k)) (map (json_indent (Suc k)) vs)
        @ newline_at k @ '']'')"
| "json_indent k (JObj kvs) =
     (if kvs = [] then ''{}''
      else ''{'' @ newline_at (Suc k) @
        join (CHR '','' # newline_at (Suc k)) (map (\<lambda>(x, v). json_quote x @ '': '' @ json_indent (Suc k) v) kvs)
        @ newline_at k @ ''}'')"

section \<open>The fuel is enough\<close>

lemma length_skip_ws: "length (skip_ws s) \<le> length s"
  by (simp add: skip_ws_def length_dropWhile_le)

lemma skip_ws_Cons: "skip_ws s = c # r \<Longrightarrow> length r < length s"
  using length_skip_ws [of s] by simp

lemma literal_shorter: "literal w v s = Some (x, r) \<Longrightarrow> length r \<le> length s"
  by (auto simp: literal_def split: if_splits)

lemma scan_int_shorter: "scan_int s = Some (i, r) \<Longrightarrow> length r < length s"
  by (auto simp: scan_int_def length_dropWhile_le less_Suc_eq_le split: list.splits if_splits)

lemma scan_frac_shorter: "scan_frac s = Some (i, r) \<Longrightarrow> length r \<le> length s"
  by (auto simp: scan_frac_def length_dropWhile_le le_SucI split: list.splits if_splits)

lemma scan_exp_shorter: "scan_exp s = Some (i, r) \<Longrightarrow> length r \<le> length s"
proof -
  have "length (dropWhile is_digit q) \<le> Suc (length q)" "length (dropWhile is_digit q) \<le> Suc (Suc (length q))" for q
    using length_dropWhile_le [of is_digit q] by simp_all
  then show "scan_exp s = Some (i, r) \<Longrightarrow> length r \<le> length s"
    by (auto simp: scan_exp_def Let_def split: list.splits if_splits)
qed

lemma scan_number_shorter: "scan_number s = Some (t, q) \<Longrightarrow> length q < length s"
proof -
  assume "scan_number s = Some (t, q)"
  then obtain k i r f r' e where "scan_int (drop k s) = Some (i, r)" "scan_frac r = Some (f, r')" "scan_exp r' = Some (e, q)"
    by (auto simp: scan_number_def Let_def split: option.splits)
  from scan_int_shorter [OF this(1)] scan_frac_shorter [OF this(2)] scan_exp_shorter [OF this(3)]
  show ?thesis by simp
qed

text \<open>What a parser returns is shorter than what it got, and more fuel than twice the length
  changes nothing.\<close>

lemma parsers_shorter:
  "parse_value n d s = Some (v, r) \<Longrightarrow> length r < length s"
  "parse_elems n d s = Some (vs, r) \<Longrightarrow> length r < length s"
  "parse_members n d s = Some (kvs, r) \<Longrightarrow> length r < length s"
proof (induction n arbitrary: d s v vs kvs r)
  case 0
  { case 1 then show ?case by (simp add: parse_value.simps) }
  { case 2 then show ?case by (simp add: parse_elems.simps) }
  { case 3 then show ?case by (simp add: parse_members.simps) }
next
  case (Suc n)
  { case 1
    then obtain c q where s: "skip_ws s = c # q" by (auto simp: parse_value.simps split: list.splits)
    have "length r \<le> length q" 
      using 1 s by (auto simp: parse_value.simps split: if_splits option.splits list.splits
        dest!: unquote_shorter Suc.IH skip_ws_Cons literal_shorter scan_number_shorter)
    then show ?case using skip_ws_Cons [OF s] by simp }
  { case 2
    then show ?case by (fastforce simp: parse_elems.simps split: if_splits option.splits list.splits
        dest!: Suc.IH skip_ws_Cons) }
  { case 3
    then show ?case by (fastforce simp: parse_members.simps split: if_splits option.splits list.splits
        dest!: Suc.IH skip_ws_Cons unquote_shorter) }
qed

lemma parse_fuel:
  "2 * length s < n \<Longrightarrow> parse_value (Suc n) d s = parse_value n d s"
  "2 * length s + 1 < n \<Longrightarrow> parse_elems (Suc n) d s = parse_elems n d s"
  "2 * length s + 1 < n \<Longrightarrow> parse_members (Suc n) d s = parse_members n d s"
proof (induction n arbitrary: d s)
  case 0
  { case 1 then show ?case by simp }
  { case 2 then show ?case by simp }
  { case 3 then show ?case by simp }
next
  case (Suc n)
  note V = Suc.IH(1) and E = Suc.IH(2) and M = Suc.IH(3)
  { case 1
    have "2 * length r + 1 < n" if "skip_ws s = c # r" for c r
      using skip_ws_Cons [OF that] 1 by simp
    then show ?case
      by (simp add: parse_value.simps(2) E M cong: list.case_cong if_cong) }
  { case 2
    have v: "parse_value (Suc n) d s = parse_value n d s" using 2 by (intro V) simp
    show ?case
    proof (cases "parse_value n d s")
      case (Some p)
      obtain x r where p: "p = (x, r)" by fastforce
      show ?thesis
      proof (cases "skip_ws r")
        case (Cons c q)
        have "parse_elems (Suc n) d q = parse_elems n d q"
          using parsers_shorter(1) [OF Some [unfolded p]] skip_ws_Cons [OF Cons] 2 by (intro E) simp
        then show ?thesis
          by (subst parse_elems.simps(2) [of "Suc n" d s], subst parse_elems.simps(2) [of n d s])
            (simp add: v Some p Cons)
      qed (simp add: parse_elems.simps(2) [of _ _ s] v Some p)
    qed (simp add: parse_elems.simps(2) [of _ _ s] v) }
  { case 3
    note unfold = parse_members.simps(2) [of "Suc n" d s] parse_members.simps(2) [of n d s]
    show ?case
    proof (cases "\<exists>a r k t b u. skip_ws s = a # r \<and> unquote r = Some (k, t) \<and> skip_ws t = b # u")
      case False
      then show ?thesis by (simp only: unfold) (auto split: list.splits option.splits)
    next
      case True
      then obtain a r k t b u where s: "skip_ws s = a # r" "unquote r = Some (k, t)" "skip_ws t = b # u" by blast
      have u: "2 * length u + 2 \<le> n"
        using skip_ws_Cons [OF s(1)] unquote_shorter [OF s(2)] skip_ws_Cons [OF s(3)] 3 by simp
      then have v: "parse_value (Suc n) d u = parse_value n d u" by (intro V) simp
      show ?thesis
      proof (cases "\<exists>x w c q. parse_value n d u = Some (x, w) \<and> skip_ws w = c # q")
        case False
        then show ?thesis by (simp only: unfold s v list.case option.case prod.case) (auto split: list.splits option.splits)
      next
        case True
        then obtain x w c q where p: "parse_value n d u = Some (x, w)" "skip_ws w = c # q" by blast
        have "parse_members (Suc n) d q = parse_members n d q"
          using parsers_shorter(1) [OF p(1)] skip_ws_Cons [OF p(2)] u by (intro M) simp
        then show ?thesis by (simp only: unfold s v p list.case option.case prod.case)
      qed
    qed }
qed

lemma parse_value_fuel:
  assumes "2 * length s < n"
  shows "parse_value n d s = parse_value (2 * length s + 1) d s"
proof -
  obtain k where "n = 2 * length s + 1 + k" using assms less_iff_Suc_add by auto
  then show ?thesis using parse_fuel(1)
    by (induction k arbitrary: n) simp_all
qed

end
