(* ===== verification/JsonRoundtrip.thy ===== *)
theory JsonRoundtrip
  imports GoJson
begin

text \<open>
  Reading back what was printed. A relation between trees and texts describes every rendering
  of a tree, with any white space between the tokens; whatever renders a tree that is not too
  deep parses to it. The printers of \<open>GoJson\<close> produce renderings.
\<close>

section \<open>String literals\<close>

lemma hex_val_digit [simp]: "n < 16 \<Longrightarrow> hex_val (hex_digit n) = Some n"
proof -
  have "\<forall>n < 16. hex_val (hex_digit n) = Some n" by code_simp
  then show "n < 16 \<Longrightarrow> hex_val (hex_digit n) = Some n" by blast
qed

lemma hex4_byte: "n < 256 \<Longrightarrow>
    hex4 (CHR ''0'' # CHR ''0'' # hex_digit (n div 16) # hex_digit (n mod 16) # r) = Some n"
proof -
  assume "n < 256"
  moreover have "hex_val (CHR ''0'') = Some 0" by (simp add: hex_val_def)
  ultimately show ?thesis by (simp add: hex4_def less_mult_imp_div_less)
qed

lemma encode_rune_ascii: "r < 0x80 \<Longrightarrow> encode_rune r = [char_of r]"
  by (simp add: encode_rune_def is_scalar_def is_surrogate_def)

lemma unquote_escape_seq:
  "escape_seq cs = Some (t, r) \<Longrightarrow>
   unquote (backslash # cs) = (case unquote r of None \<Rightarrow> None | Some (u, q) \<Rightarrow> Some (t @ u, q))"
  by (simp add: unquote_Cons)

lemma unquote_ascii:
  fixes n :: nat
  assumes "n < 0x80" and "unquote t = Some (u, q)"
  shows "unquote (escape_ascii (char_of n) @ t) = Some (char_of n # u, q)"
proof -
  let ?c = "char_of n :: char"
  have n: "char_code ?c = n" using assms(1) by simp
  have inj: "?c = d \<longleftrightarrow> n = char_code d" for d using n char_of_code [of d] by metis
  consider "html_safe n" | "n = 0x5C \<or> n = 0x22" | "n \<in> {8, 12, 10, 13, 9}"
    | "\<not> html_safe n" "n \<noteq> 0x5C" "n \<noteq> 0x22" "n \<notin> {8, 12, 10, 13, 9}" by blast
  then show ?thesis
  proof cases
    case 1
    then have "?c \<noteq> dquote" "?c \<noteq> backslash" "\<not> n < 0x20" by (auto simp: inj html_safe_def char_code_def)
    then show ?thesis using assms 1 n by (simp add: escape_ascii_def unquote_Cons)
  next
    case 2
    then have c: "?c = backslash \<or> ?c = dquote" by (auto simp: inj char_code_def)
    moreover have "\<not> html_safe n" using 2 by (auto simp: html_safe_def)
    moreover have "escape_seq (?c # t) = Some ([?c], t)" using c by (auto simp: escape_seq_def)
    ultimately show ?thesis using assms(2) n unquote_escape_seq [of "?c # t" "[?c]" t]
      by (simp add: escape_ascii_def)
  next
    case 3
    then have s: "\<not> html_safe n" "?c \<noteq> backslash" "?c \<noteq> dquote"
      by (auto simp: html_safe_def inj char_code_def)
    have e: "escape_seq (CHR ''b'' # t) = Some ([char_of (8 :: nat)], t)"
      "escape_seq (CHR ''f'' # t) = Some ([char_of (12 :: nat)], t)"
      "escape_seq (CHR ''n'' # t) = Some ([char_of (10 :: nat)], t)"
      "escape_seq (CHR ''r'' # t) = Some ([char_of (13 :: nat)], t)"
      "escape_seq (CHR ''t'' # t) = Some ([char_of (9 :: nat)], t)" by (simp_all add: escape_seq_def)
    from 3 show ?thesis
      using s n assms(2) e [THEN unquote_escape_seq] by (auto simp: escape_ascii_def)
  next
    case 4
    then have s: "?c \<noteq> backslash" "?c \<noteq> dquote" by (auto simp: inj char_code_def)
    let ?r = "CHR ''0'' # CHR ''0'' # hex_digit (n div 16) # hex_digit (n mod 16) # t"
    have "hex4 ?r = Some n" using assms(1) by (intro hex4_byte) simp
    then have "escape_seq (CHR ''u'' # ?r) = Some ([?c], t)" using assms(1)
      by (simp add: escape_seq_def is_surrogate_def encode_rune_ascii)
    from unquote_escape_seq [OF this] show ?thesis using 4 s n assms(2) by (simp add: escape_ascii_def)
  qed
qed

lemma encode_rune_multi:
  assumes "is_scalar r" and "0x80 \<le> r"
  shows "\<exists>c cs. encode_rune r = c # cs \<and> 0x80 \<le> char_code c"
proof -
  have d: "decode_rune (encode_rune r @ []) = (r, length (encode_rune r))" by (rule decode_encode_rune [OF assms(1)])
  obtain c cs where e: "encode_rune r = c # cs" by (cases "encode_rune r") auto
  moreover have "\<not> char_code c < 0x80" 
    using d e assms(2) by (auto simp: decode_rune_def)
  ultimately show ?thesis by auto
qed

lemma json_escape_rune:
  assumes "is_scalar r"
  shows "json_escape (encode_rune r @ s) =
    (if r < 0x80 then escape_ascii (char_of r)
     else if r = 0x2028 \<or> r = 0x2029 then backslash # ''u202'' @ [hex_digit (r mod 16)]
     else encode_rune r) @ json_escape s"
proof (cases "r < 0x80")
  case True
  then show ?thesis by (subst json_escape.simps) (simp add: encode_rune_ascii)
next
  case False
  then obtain c cs where e: "encode_rune r = c # cs" "0x80 \<le> char_code c"
    using encode_rune_multi [OF assms] by auto
  have d: "decode_rune (encode_rune r @ s) = (r, length (encode_rune r))" by (rule decode_encode_rune [OF assms])
  have "(r, length (encode_rune r)) \<noteq> (rune_error, 1)"
    by (auto simp: rune_error_def encode_rune_def Let_def)
  then show ?thesis using d e False by (subst json_escape.simps) auto
qed

lemma json_escape_Nil [simp]: "json_escape [] = []"
  by (subst json_escape.simps) simp

lemma unquote_json_escape:
  assumes "valid_utf8 s"
  shows "unquote (json_escape s @ dquote # rest) = Some (s, rest)"
  using assms
proof (induction rule: valid_utf8_induct)
  case Nil
  show ?case by (simp add: unquote_Cons)
next
  case (Rune r s)
  consider "r < 0x80" | "r = 0x2028 \<or> r = 0x2029" | "0x80 \<le> r" "r \<noteq> 0x2028" "r \<noteq> 0x2029" by linarith
  then show ?case
  proof cases
    case 1
    have "unquote (json_escape (encode_rune r @ s) @ dquote # rest) = Some (encode_rune r @ s, rest)"
      using 1 Rune(3) unquote_ascii [OF 1] unfolding json_escape_rune [OF Rune(1)]
      by (simp add: encode_rune_ascii)
    then show ?thesis .
  next
    case 2
    let ?r = "''202'' @ hex_digit (r mod 16) # json_escape s @ dquote # rest"
    have v: "hex_val (CHR ''2'') = Some 2" "hex_val (CHR ''0'') = Some 0"
      by (simp_all add: hex_val_def is_digit_def digit_val_def char_code_def)
    have "hex4 ?r = Some r" using 2 by (auto simp: hex4_def v)
    then have "escape_seq (CHR ''u'' # ?r) = Some (encode_rune r, json_escape s @ dquote # rest)" using 2
      by (auto simp: escape_seq_def is_surrogate_def)
    from unquote_escape_seq [OF this] show ?thesis using Rune 2 by (auto simp: json_escape_rune)
  next
    case 3
    obtain c cs where e: "encode_rune r = c # cs" "0x80 \<le> char_code c"
      using encode_rune_multi [OF Rune(1) 3(1)] by auto
    have q: "c \<noteq> dquote" "c \<noteq> backslash" using e(2) by (auto simp: char_code_def)
    have "decode_rune (encode_rune r @ json_escape s @ dquote # rest) = (r, length (encode_rune r))"
      by (rule decode_encode_rune [OF Rune(1)])
    then have "unquote (encode_rune r @ json_escape s @ dquote # rest) = Some (encode_rune r @ s, rest)"
      using Rune(3) e q by (simp add: unquote_Cons)
    then show ?thesis using Rune(1) 3 by (simp add: json_escape_rune)
  qed
qed

section \<open>Number literals\<close>

text \<open>A text that cannot go on with a number literal.\<close>

definition stops :: "gostring \<Rightarrow> bool" where
  "stops r \<longleftrightarrow> (case r of [] \<Rightarrow> True
     | c # _ \<Rightarrow> \<not> is_digit c \<and> c \<noteq> CHR ''.'' \<and> c \<noteq> CHR ''e'' \<and> c \<noteq> CHR ''E'')"

definition number_ok :: "gostring \<Rightarrow> bool" where
  "number_ok t \<longleftrightarrow> scan_number t = Some (t, [])"

lemma stops_digits:
  assumes "stops r"
  shows "takeWhile is_digit (s @ r) = takeWhile is_digit s" "dropWhile is_digit (s @ r) = dropWhile is_digit s @ r"
proof -
  have "takeWhile is_digit r = []" "dropWhile is_digit r = r"
    using assms by (auto simp: stops_def split: list.splits)
  then show "takeWhile is_digit (s @ r) = takeWhile is_digit s" "dropWhile is_digit (s @ r) = dropWhile is_digit s @ r"
    by (simp_all add: takeWhile_append dropWhile_append) (metis takeWhile_eq_all_conv)
qed

lemma scan_int_append: "scan_int s = Some (i, q) \<Longrightarrow> stops r \<Longrightarrow> scan_int (s @ r) = Some (i, q @ r)"
  by (cases s) (auto simp: scan_int_def stops_digits split: if_splits)

lemma scan_frac_append: "scan_frac s = Some (i, q) \<Longrightarrow> stops r \<Longrightarrow> scan_frac (s @ r) = Some (i, q @ r)"
  by (cases s rule: remdups_adj.cases; cases r)
    (auto simp: scan_frac_def stops_def stops_digits [unfolded stops_def] split: if_splits list.splits)

lemma scan_exp_append:
  assumes "scan_exp s = Some (i, q)" and "stops r"
  shows "scan_exp (s @ r) = Some (i, q @ r)"
proof (cases s)
  case Nil
  then show ?thesis using assms by (cases r) (auto simp: scan_exp_def stops_def)
next
  case (Cons c u)
  show ?thesis
  proof (cases "c = CHR ''e'' \<or> c = CHR ''E''")
    case True
    then obtain d v where u: "u = d # v" using assms(1) Cons by (cases u) (auto simp: scan_exp_def)
    then show ?thesis
      using assms(1) Cons True stops_digits [OF assms(2), of v] stops_digits [OF assms(2), of u]
      by (cases v) (auto simp: scan_exp_def Let_def split: if_splits)
  next
    case False
    then show ?thesis using assms Cons by (auto simp: scan_exp_def)
  qed
qed

lemma scan_number_append:
  assumes "scan_number s = Some (t, q)" and "stops r" and "s \<noteq> []"
  shows "scan_number (s @ r) = Some (t, q @ r)"
proof -
  obtain c u where s: "s = c # u" using assms(3) by (cases s) auto
  let ?k = "if c = CHR ''-'' then 1 else 0 :: nat" and ?sg = "if c = CHR ''-'' then [c] else []"
  have n: "scan_number (c # v) =
      (case scan_int (drop ?k (c # v)) of None \<Rightarrow> None
         | Some (i, r) \<Rightarrow>
             (case scan_frac r of None \<Rightarrow> None
              | Some (f, r') \<Rightarrow>
                  (case scan_exp r' of None \<Rightarrow> None | Some (e, q) \<Rightarrow> Some (?sg @ i @ f @ e, q))))" for v
    by (cases "c = CHR ''-''") (auto simp: scan_number_def Let_def)
  from assms(1) s obtain i p f p' e where "scan_int (drop ?k (c # u)) = Some (i, p)" "scan_frac p = Some (f, p')"
      "scan_exp p' = Some (e, q)" "t = ?sg @ i @ f @ e"
    by (auto simp only: n split: option.splits prod.splits)
  with scan_int_append [of "drop ?k (c # u)" i p r] scan_frac_append [of p f p' r] scan_exp_append [of p' e q r] assms(2)
  show ?thesis unfolding s by (simp add: n split: if_splits)
qed

lemma number_ok_scan: "number_ok t \<Longrightarrow> stops r \<Longrightarrow> scan_number (t @ r) = Some (t, r)"
  using scan_number_append [of t t "[]" r] by (cases "t = []") (auto simp: number_ok_def scan_number_def scan_int_def)

lemma number_ok_start:
  "number_ok t \<Longrightarrow> \<exists>c u. t = c # u \<and> (is_digit c \<or> c = CHR ''-'')"
  by (cases t) (auto simp: number_ok_def scan_number_def scan_int_def split: if_splits)

section \<open>Renderings\<close>

definition blank_text :: "gostring \<Rightarrow> bool" where
  "blank_text w \<longleftrightarrow> list_all is_space w"

text \<open>\<open>renders v s\<close>: the text \<open>s\<close> denotes the tree \<open>v\<close>. The elements and the members of a
  container are the texts between its brackets.\<close>

inductive renders :: "json \<Rightarrow> gostring \<Rightarrow> bool"
  and renders_elems :: "json list \<Rightarrow> gostring \<Rightarrow> bool"
  and renders_members :: "(gostring \<times> json) list \<Rightarrow> gostring \<Rightarrow> bool" where
  null_text: "renders JNull ''null''"
| true_text: "renders (JBool True) ''true''"
| false_text: "renders (JBool False) ''false''"
| number_text: "number_ok t \<Longrightarrow> renders (JNum t) t"
| string_text: "valid_utf8 s \<Longrightarrow> renders (JStr s) (json_quote s)"
| empty_array: "blank_text w \<Longrightarrow> renders (JArr []) (CHR ''['' # w @ '']'')"
| array_text: "renders_elems vs s \<Longrightarrow> renders (JArr vs) (CHR ''['' # s @ '']'')"
| empty_object: "blank_text w \<Longrightarrow> renders (JObj []) (CHR ''{'' # w @ ''}'')"
| object_text: "renders_members kvs s \<Longrightarrow> renders (JObj kvs) (CHR ''{'' # s @ ''}'')"
| padded_text: "renders v s \<Longrightarrow> blank_text w \<Longrightarrow> blank_text w' \<Longrightarrow> renders v (w @ s @ w')"
| last_elem: "renders v s \<Longrightarrow> renders_elems [v] s"
| more_elems: "renders v s \<Longrightarrow> renders_elems vs t \<Longrightarrow> renders_elems (v # vs) (s @ CHR '','' # t)"
| last_member: "valid_utf8 k \<Longrightarrow> blank_text w \<Longrightarrow> blank_text w' \<Longrightarrow> renders v s \<Longrightarrow>
    renders_members [(k, v)] (w @ json_quote k @ w' @ CHR '':'' # s)"
| more_members: "valid_utf8 k \<Longrightarrow> blank_text w \<Longrightarrow> blank_text w' \<Longrightarrow> renders v s \<Longrightarrow>
    renders_members kvs t \<Longrightarrow> renders_members ((k, v) # kvs) (w @ json_quote k @ w' @ CHR '':'' # s @ CHR '','' # t)"

text \<open>How deep the containers of a tree are nested.\<close>

fun json_depth :: "json \<Rightarrow> nat" where
  "json_depth (JArr vs) = Suc (foldr max (map json_depth vs) 0)"
| "json_depth (JObj kvs) = Suc (foldr max (map (\<lambda>(k, v). json_depth v) kvs) 0)"
| "json_depth v = 0"

definition depths :: "json list \<Rightarrow> nat" where
  "depths vs = foldr max (map json_depth vs) 0"

lemma depths_simps [simp]: "depths [] = 0" "depths (v # vs) = max (json_depth v) (depths vs)"
  by (simp_all add: depths_def)

lemma json_depth_containers [simp]:
  "json_depth (JArr vs) = Suc (depths vs)" "json_depth (JObj kvs) = Suc (depths (map snd kvs))"
  by (simp_all add: depths_def case_prod_unfold comp_def)

declare json_depth.simps(1,2) [simp del]

lemma skip_ws_blank: "blank_text w \<Longrightarrow> skip_ws (w @ s) = skip_ws s"
  by (induction w) (simp_all add: skip_ws_def blank_text_def)

lemma skip_ws_mark: "\<not> is_space c \<Longrightarrow> skip_ws (c # s) = c # s"
  by (simp add: skip_ws_def)

lemma no_space [simp]:
  "\<not> is_space (CHR '','')" "\<not> is_space (CHR '']'')" "\<not> is_space (CHR ''}'')" "\<not> is_space (CHR '':'')"
  "\<not> is_space (CHR ''['')" "\<not> is_space (CHR ''{'')" "\<not> is_space dquote" "\<not> is_space (CHR ''n'')"
  "\<not> is_space (CHR ''t'')" "\<not> is_space (CHR ''f'')" "\<not> is_space (CHR ''-'')"
  by (simp_all add: is_space_def char_code_def)

lemma is_space_stops: "is_space c \<Longrightarrow> stops (c # r)"
  by (auto simp: stops_def is_space_def is_digit_def char_code_def)

lemma marks_stop [simp]: "stops (CHR '','' # r)" "stops (CHR '']'' # r)" "stops (CHR ''}'' # r)" "stops []"
  by (simp_all add: stops_def is_digit_def char_code_def)

lemma blank_stops: "blank_text w \<Longrightarrow> stops r \<Longrightarrow> stops (w @ r)"
  by (cases w) (auto simp: blank_text_def intro: is_space_stops)

text \<open>The first character of a rendering.\<close>

lemma renders_start:
  "renders v s \<Longrightarrow> \<forall>t. \<exists>c q. skip_ws (s @ t) = c # q \<and> c \<noteq> CHR '']'' \<and> c \<noteq> CHR ''}''"
  "renders_elems vs s \<Longrightarrow> \<forall>t. \<exists>c q. skip_ws (s @ t) = c # q \<and> c \<noteq> CHR '']'' \<and> c \<noteq> CHR ''}''"
  "renders_members kvs s \<Longrightarrow> \<forall>t. \<exists>q. skip_ws (s @ t) = dquote # q"
proof (induction v s and vs s and kvs s rule: renders_renders_elems_renders_members.inducts)
  case (number_text t)
  then obtain c u where "t = c # u" "is_digit c \<or> c = CHR ''-''" using number_ok_start by blast
  moreover from this have "\<not> is_space c" "c \<noteq> CHR '']''" "c \<noteq> CHR ''}''"
    by (auto simp: is_space_def is_digit_def char_code_def)
  ultimately show ?case by (simp add: skip_ws_mark)
qed (auto simp: skip_ws_mark skip_ws_blank json_quote_def)

lemma parse_value_blank: "blank_text w \<Longrightarrow> parse_value n d (w @ s) = parse_value n d s"
  by (cases n) (simp_all add: parse_value.simps skip_ws_blank)

lemma parse_value_mark:
  "\<not> is_space c \<Longrightarrow> parse_value (Suc n) d (c # r) =
     (if c = dquote then (case unquote r of None \<Rightarrow> None | Some (t, q) \<Rightarrow> Some (JStr t, q))
      else if c = CHR ''['' then
        (if d = 0 then None
         else case skip_ws r of [] \<Rightarrow> None
           | x # q \<Rightarrow>
               if x = CHR '']'' then Some (JArr [], q)
               else (case parse_elems n (d - 1) r of None \<Rightarrow> None | Some (vs, p) \<Rightarrow> Some (JArr vs, p)))
      else if c = CHR ''{'' then
        (if d = 0 then None
         else case skip_ws r of [] \<Rightarrow> None
           | x # q \<Rightarrow>
               if x = CHR ''}'' then Some (JObj [], q)
               else (case parse_members n (d - 1) r of None \<Rightarrow> None | Some (vs, p) \<Rightarrow> Some (JObj vs, p)))
      else if c = CHR ''n'' then literal ''ull'' JNull r
      else if c = CHR ''t'' then literal ''rue'' (JBool True) r
      else if c = CHR ''f'' then literal ''alse'' (JBool False) r
      else (case scan_number (c # r) of None \<Rightarrow> None | Some (t, q) \<Rightarrow> Some (JNum t, q)))"
  by (simp add: parse_value.simps skip_ws_mark)

lemma parse_member:
  assumes "valid_utf8 k" and "blank_text w" and "blank_text w'"
  shows "parse_members (Suc n) d (w @ json_quote k @ w' @ CHR '':'' # u) =
    (case parse_value n d u of None \<Rightarrow> None
     | Some (v, w) \<Rightarrow>
         (case skip_ws w of [] \<Rightarrow> None
          | c # q \<Rightarrow>
              if c = CHR ''}'' then Some ([(k, v)], q)
              else if c = CHR '','' then
                (case parse_members n d q of None \<Rightarrow> None
                 | Some (vs, p) \<Rightarrow> Some ((k, v) # vs, p))
              else None))"
  using assms
  by (simp add: parse_members.simps json_quote_def skip_ws_blank skip_ws_mark unquote_json_escape)

lemma parse_renders:
  "renders v s \<Longrightarrow> json_depth v \<le> d \<Longrightarrow> stops r \<Longrightarrow> 2 * length s < n \<Longrightarrow>
     \<exists>w. blank_text w \<and> parse_value n d (s @ r) = Some (v, w @ r)"
  "renders_elems vs s \<Longrightarrow> depths vs \<le> d \<Longrightarrow> 2 * length s + 1 < n \<Longrightarrow>
     parse_elems n d (s @ CHR '']'' # r) = Some (vs, r)"
  "renders_members kvs s \<Longrightarrow> depths (map snd kvs) \<le> d \<Longrightarrow> 2 * length s + 1 < n \<Longrightarrow>
     parse_members n d (s @ CHR ''}'' # r) = Some (kvs, r)"
proof (induction v s and vs s and kvs s arbitrary: d r n and d r n and d r n rule: renders_renders_elems_renders_members.inducts)
  case null_text
  then show ?case by (cases n) (auto simp: parse_value_mark literal_def blank_text_def)
next
  case true_text
  then show ?case by (cases n) (auto simp: parse_value_mark literal_def blank_text_def)
next
  case false_text
  then show ?case by (cases n) (auto simp: parse_value_mark literal_def blank_text_def)
next
  case (number_text t)
  then obtain c u where t: "t = c # u" "is_digit c \<or> c = CHR ''-''" using number_ok_start by blast
  then have c: "\<not> is_space c" "c \<noteq> dquote" "c \<noteq> CHR ''[''" "c \<noteq> CHR ''{''" "c \<noteq> CHR ''n''" "c \<noteq> CHR ''t''" "c \<noteq> CHR ''f''"
    by (auto simp: is_space_def is_digit_def char_code_def)
  have "scan_number (c # u @ r) = Some (t, r)" using number_ok_scan [of t r] number_text t by simp
  then show ?case using number_text t(1) c by (cases n) (auto simp: parse_value_mark blank_text_def)
next
  case (string_text s)
  then show ?case
    by (cases n) (auto simp: parse_value_mark json_quote_def unquote_json_escape blank_text_def)
next
  case (empty_array w)
  then show ?case by (cases n) (auto simp: parse_value_mark skip_ws_blank skip_ws_mark blank_text_def)
next
  case (array_text vs s)
  then obtain m where n: "n = Suc m" by (cases n) auto
  obtain c q where "skip_ws (s @ CHR '']'' # r) = c # q" "c \<noteq> CHR '']''"
    using renders_start(2) [OF array_text(1)] by blast
  then show ?case using array_text.prems array_text.IH [of "d - 1" m r] n
    by (auto simp: parse_value_mark blank_text_def)
next
  case (empty_object w)
  then show ?case by (cases n) (auto simp: parse_value_mark skip_ws_blank skip_ws_mark blank_text_def)
next
  case (object_text kvs s)
  then obtain m where n: "n = Suc m" by (cases n) auto
  obtain q where "skip_ws (s @ CHR ''}'' # r) = dquote # q"
    using renders_start(3) [OF object_text(1)] by blast
  then show ?case using object_text.prems object_text.IH [of "d - 1" m r] n
    by (auto simp: parse_value_mark blank_text_def)
next
  case (padded_text v s w w')
  have "2 * length s < n" using padded_text.prems(3) by simp
  then obtain u where "blank_text u" "parse_value n d (s @ w' @ r) = Some (v, u @ w' @ r)"
    using padded_text.IH [OF padded_text.prems(1) blank_stops [OF padded_text.hyps(3) padded_text.prems(2)]] by blast
  then show ?case using padded_text by (intro exI [of _ "u @ w'"]) (simp add: parse_value_blank blank_text_def)
next
  case (last_elem v s)
  then obtain m where n: "n = Suc m" by (cases n) auto
  obtain w where "blank_text w" "parse_value m d (s @ CHR '']'' # r) = Some (v, w @ CHR '']'' # r)"
    using last_elem.IH [of d "CHR '']'' # r" m] last_elem.prems n by auto
  then show ?case using n by (simp add: parse_elems.simps skip_ws_blank skip_ws_mark)
next
  case (more_elems v s vs t)
  then obtain m where n: "n = Suc m" by (cases n) auto
  obtain w where "blank_text w" "parse_value m d (s @ CHR '','' # t @ CHR '']'' # r) = Some (v, w @ CHR '','' # t @ CHR '']'' # r)"
    using more_elems.IH(1) [of d "CHR '','' # t @ CHR '']'' # r" m] more_elems.prems n by auto
  moreover have "parse_elems m d (t @ CHR '']'' # r) = Some (vs, r)"
    using more_elems.IH(2) [of d m r] more_elems.prems n by simp
  ultimately show ?case using n by (simp add: parse_elems.simps skip_ws_blank skip_ws_mark)
next
  case (last_member k w w' v s)
  then obtain m where n: "n = Suc m" by (cases n) auto
  obtain u where "blank_text u" "parse_value m d (s @ CHR ''}'' # r) = Some (v, u @ CHR ''}'' # r)"
    using last_member.IH [of d "CHR ''}'' # r" m] last_member.prems n by auto
  then show ?case using n last_member.hyps parse_member [of k w w' m d "s @ CHR ''}'' # r"]
    by (simp add: skip_ws_blank skip_ws_mark)
next
  case (more_members k w w' v s kvs t)
  then obtain m where n: "n = Suc m" by (cases n) auto
  let ?t = "CHR '','' # t @ CHR ''}'' # r"
  obtain u where "blank_text u" "parse_value m d (s @ ?t) = Some (v, u @ ?t)"
    using more_members.IH(1) [of d ?t m] more_members.prems n by auto
  moreover have "parse_members m d (t @ CHR ''}'' # r) = Some (kvs, r)"
    using more_members.IH(2) [of d m r] more_members.prems n by simp
  ultimately show ?case using n more_members.hyps parse_member [of k w w' m d "s @ ?t"]
    by (simp add: skip_ws_blank skip_ws_mark)
qed

lemma parse_json_renders:
  assumes "renders v s" and "json_depth v \<le> max_nesting_depth"
  shows "parse_json s = Some v"
proof -
  obtain w where "blank_text w" "parse_value (2 * length s + 1) max_nesting_depth (s @ []) = Some (v, w @ [])"
    using parse_renders(1) [OF assms, of "[]" "2 * length s + 1"] by auto
  moreover from this have "skip_ws w = []" using skip_ws_blank [of w "[]"] by (simp add: skip_ws_def)
  ultimately show ?thesis by (simp add: parse_json_def)
qed

section \<open>The printers\<close>

text \<open>Trees with well-formed strings and numbers.\<close>

fun json_ok :: "json \<Rightarrow> bool" where
  "json_ok (JNum t) = number_ok t"
| "json_ok (JStr s) = valid_utf8 s"
| "json_ok (JArr vs) = list_all json_ok vs"
| "json_ok (JObj kvs) = list_all (\<lambda>(k, v). valid_utf8 k \<and> json_ok v) kvs"
| "json_ok _ = True"

lemma blank_text_Nil [simp]: "blank_text []"
  by (simp add: blank_text_def)

lemma renders_pad: "renders v s \<Longrightarrow> blank_text w \<Longrightarrow> renders v (w @ s)"
  using padded_text [of v s w "[]"] by simp

lemma renders_elems_pad: "renders_elems vs s \<Longrightarrow> blank_text w \<Longrightarrow> renders_elems vs (w @ s)"
  by (erule renders_elems.cases)
    (auto intro: last_elem more_elems renders_pad simp flip: append_assoc)

lemma renders_members_pad:
  assumes "renders_members kvs s" and "blank_text w"
  shows "renders_members kvs (w @ s)"
  using assms(1)
proof cases
  case (last_member k u u' v t)
  then show ?thesis using renders_renders_elems_renders_members.last_member [of k "w @ u" u' v t] assms(2)
    by (simp add: blank_text_def)
next
  case (more_members k u u' v t kvs' q)
  then show ?thesis using renders_renders_elems_renders_members.more_members [of k "w @ u" u' v t kvs' q] assms(2)
    by (simp add: blank_text_def)
qed

lemma array_textI: "renders_elems vs s \<Longrightarrow> t = CHR ''['' # s @ '']'' \<Longrightarrow> renders (JArr vs) t"
  by (auto intro: array_text)

lemma object_textI: "renders_members kvs s \<Longrightarrow> t = CHR ''{'' # s @ ''}'' \<Longrightarrow> renders (JObj kvs) t"
  by (auto intro: object_text)

lemma renders_elems_end: "renders_elems vs s \<Longrightarrow> blank_text w \<Longrightarrow> renders_elems vs (s @ w)"
proof (induction vs s rule: renders_renders_elems_renders_members.inducts(2)
    [where ?P1.0 = "\<lambda>_ _. True" and ?P3.0 = "\<lambda>_ _. True"])
  case (last_elem v s)
  then show ?case using padded_text [of v s "[]" w] by (auto intro: renders_renders_elems_renders_members.last_elem)
qed (auto intro: more_elems)

lemma renders_members_end: "renders_members kvs s \<Longrightarrow> blank_text w \<Longrightarrow> renders_members kvs (s @ w)"
proof (induction kvs s rule: renders_renders_elems_renders_members.inducts(3)
    [where ?P1.0 = "\<lambda>_ _. True" and ?P2.0 = "\<lambda>_ _. True"])
  case (last_member k u u' v s)
  then show ?case using padded_text [of v s "[]" w] by (auto intro: renders_renders_elems_renders_members.last_member)
qed (auto intro: more_members)

lemma renders_join:
  "vs \<noteq> [] \<Longrightarrow> (\<And>v. v \<in> set vs \<Longrightarrow> renders v (f v)) \<Longrightarrow> blank_text w \<Longrightarrow>
   renders_elems vs (join (CHR '','' # w) (map f vs))"
proof (induction vs rule: induct_list012)
  case (3 x y zs)
  then have "renders_elems (y # zs) (w @ join (CHR '','' # w) (map f (y # zs)))"
    by (intro renders_elems_pad) auto
  with 3 show ?case by (auto intro: more_elems)
qed (auto intro: last_elem)

lemma renders_join_members:
  "kvs \<noteq> [] \<Longrightarrow> (\<And>k v. (k, v) \<in> set kvs \<Longrightarrow> valid_utf8 k \<and> renders v (f v)) \<Longrightarrow> blank_text w \<Longrightarrow> blank_text w' \<Longrightarrow>
   renders_members kvs (join (CHR '','' # w) (map (\<lambda>(k, v). json_quote k @ CHR '':'' # w' @ f v) kvs))"
proof (induction kvs rule: induct_list012)
  case (2 x)
  then show ?case using last_member [of "fst x" "[]" "[]" "snd x" "w' @ f (snd x)"]
    by (cases x) (auto intro: renders_pad)
next
  case (3 x y zs)
  then have "renders_members (y # zs) (w @ join (CHR '','' # w) (map (\<lambda>(k, v). json_quote k @ CHR '':'' # w' @ f v) (y # zs)))"
    by (intro renders_members_pad) auto
  moreover have "valid_utf8 (fst x)" "renders (snd x) (w' @ f (snd x))" using 3 by (cases x, auto intro: renders_pad)+
  ultimately show ?case using more_members [of "fst x" "[]" "[]" "snd x" "w' @ f (snd x)"]
    by (cases x; cases y) (auto simp: case_prod_unfold)
qed auto

lemma renders_print: "json_ok v \<Longrightarrow> renders v (json_print v)"
proof (induction v)
  case (JArr vs)
  then show ?case
  proof (cases "vs = []")
    case False
    then have "renders_elems vs (join '','' (map json_print vs))"
      using JArr by (intro renders_join) (auto simp: list_all_iff)
    then show ?thesis by (rule array_textI) simp
  qed (use empty_array [of "[]"] in simp)
next
  case (JObj kvs)
  then show ?case
  proof (cases "kvs = []")
    case False
    have "valid_utf8 k \<and> renders v (json_print v)" if "(k, v) \<in> set kvs" for k v
      using JObj that by (fastforce simp: list_all_iff)
    from renders_join_members [of kvs json_print "[]" "[]", OF False this]
    have "renders_members kvs (join '','' (map (\<lambda>(k, v). json_quote k @ CHR '':'' # json_print v) kvs))" by simp
    then show ?thesis by (rule object_textI) simp
  qed (use empty_object [of "[]"] in simp)
qed (auto intro: null_text true_text false_text number_text string_text)

lemma blank_newline [simp]: "blank_text (newline_at k)"
  by (simp add: blank_text_def newline_at_def list_all_iff is_space_def char_code_def)

lemma renders_indent: "json_ok v \<Longrightarrow> renders v (json_indent k v)"
proof (induction v arbitrary: k)
  case (JArr vs)
  let ?w = "newline_at (Suc k)"
  show ?case
  proof (cases "vs = []")
    case False
    then have "renders_elems vs (?w @ join (CHR '','' # ?w) (map (json_indent (Suc k)) vs) @ newline_at k)"
      using JArr by (intro renders_elems_pad renders_elems_end renders_join) (auto simp: list_all_iff)
    then show ?thesis by (rule array_textI) (simp add: False)
  qed (use empty_array [of "[]"] in simp)
next
  case (JObj kvs)
  let ?w = "newline_at (Suc k)"
  show ?case
  proof (cases "kvs = []")
    case False
    have "valid_utf8 x \<and> renders v (json_indent (Suc k) v)" if "(x, v) \<in> set kvs" for x v
      using JObj that by (fastforce simp: list_all_iff)
    moreover have "blank_text '' ''" by (simp add: blank_text_def is_space_def char_code_def)
    ultimately have "renders_members kvs (join (CHR '','' # ?w) (map (\<lambda>(x, v). json_quote x @ CHR '':'' # '' '' @ json_indent (Suc k) v) kvs))"
      by (intro renders_join_members) (auto simp: False)
    then have "renders_members kvs (?w @ join (CHR '','' # ?w) (map (\<lambda>(x, v). json_quote x @ CHR '':'' # '' '' @ json_indent (Suc k) v) kvs) @ newline_at k)"
      by (intro renders_members_pad renders_members_end) auto
    then show ?thesis by (rule object_textI) (simp add: False)
  qed (use empty_object [of "[]"] in simp)
qed (auto intro: null_text true_text false_text number_text string_text)

lemma parse_json_print: "json_ok v \<Longrightarrow> json_depth v \<le> max_nesting_depth \<Longrightarrow> parse_json (json_print v) = Some v"
  by (rule parse_json_renders [OF renders_print])

lemma parse_json_indent: "json_ok v \<Longrightarrow> json_depth v \<le> max_nesting_depth \<Longrightarrow> parse_json (json_indent k v) = Some v"
  by (rule parse_json_renders [OF renders_indent])

end
