(* ===== verification/GoCrypto.thy ===== *)
theory GoCrypto
  imports GoStrconv
begin

text \<open>
  What \<open>internal/encrypt/aes.go\<close> uses of \<open>crypto/aes\<close> and \<open>crypto/cipher\<close>, executable: the AES
  block cipher of FIPS 197 for the three key sizes and the Galois/counter mode of NIST SP
  800-38D with the standard nonce of 12 bytes and tag of 16. Lemmas: opening a sealed message gives
  the message back, and how long it is.
\<close>

unbundle bit_operations_syntax

type_synonym octet = "8 word"

section \<open>Bytes\<close>

definition octets :: "gostring \<Rightarrow> octet list" where
  "octets s = map (\<lambda>c. word_of_nat (of_char c)) s"

definition text_of :: "octet list \<Rightarrow> gostring" where
  "text_of bs = map (\<lambda>b. char_of (unat b)) bs"

text \<open>\<open>subtle.XORBytes\<close>: as many bytes as the first operand has.\<close>

fun xor_octets :: "octet list \<Rightarrow> octet list \<Rightarrow> octet list" where
  "xor_octets [] ks = []"
| "xor_octets (b # bs) [] = b # bs"
| "xor_octets (b # bs) (k # ks) = (b XOR k) # xor_octets bs ks"

fun octet_blocks :: "octet list \<Rightarrow> octet list list" where
  "octet_blocks [] = []"
| "octet_blocks (b # bs) = take 16 (b # bs) # octet_blocks (drop 15 bs)"

section \<open>The block cipher\<close>

definition aes_sbox :: "octet list" where
  "aes_sbox = [
    99, 124, 119, 123, 242, 107, 111, 197, 48, 1, 103, 43, 254, 215, 171, 118, 202, 130, 201,
    125, 250, 89, 71, 240, 173, 212, 162, 175, 156, 164, 114, 192, 183, 253, 147, 38, 54, 63,
    247, 204, 52, 165, 229, 241, 113, 216, 49, 21, 4, 199, 35, 195, 24, 150, 5, 154, 7, 18, 128,
    226, 235, 39, 178, 117, 9, 131, 44, 26, 27, 110, 90, 160, 82, 59, 214, 179, 41, 227, 47, 132,
    83, 209, 0, 237, 32, 252, 177, 91, 106, 203, 190, 57, 74, 76, 88, 207, 208, 239, 170, 251,
    67, 77, 51, 133, 69, 249, 2, 127, 80, 60, 159, 168, 81, 163, 64, 143, 146, 157, 56, 245, 188,
    182, 218, 33, 16, 255, 243, 210, 205, 12, 19, 236, 95, 151, 68, 23, 196, 167, 126, 61, 100,
    93, 25, 115, 96, 129, 79, 220, 34, 42, 144, 136, 70, 238, 184, 20, 222, 94, 11, 219, 224, 50,
    58, 10, 73, 6, 36, 92, 194, 211, 172, 98, 145, 149, 228, 121, 231, 200, 55, 109, 141, 213,
    78, 169, 108, 86, 244, 234, 101, 122, 174, 8, 186, 120, 37, 46, 28, 166, 180, 198, 232, 221,
    116, 31, 75, 189, 139, 138, 112, 62, 181, 102, 72, 3, 246, 14, 97, 53, 87, 185, 134, 193, 29,
    158, 225, 248, 152, 17, 105, 217, 142, 148, 155, 30, 135, 233, 206, 85, 40, 223, 140, 161,
    137, 13, 191, 230, 66, 104, 65, 153, 45, 15, 176, 84, 187, 22]"
definition sub_octets :: "octet list \<Rightarrow> octet list" where
  "sub_octets bs = map (\<lambda>b. aes_sbox ! unat b) bs"

definition xtime :: "octet \<Rightarrow> octet" where
  "xtime b = (if bit b 7 then push_bit 1 b XOR 27 else push_bit 1 b)"

text \<open>The key schedule, newest word first; \<open>nk\<close> is the length of the key in words and \<open>rc\<close> the
  next round constant.\<close>

primrec expand_key :: "nat \<Rightarrow> nat \<Rightarrow> octet \<Rightarrow> octet list list \<Rightarrow> octet list list" where
  "expand_key nk 0 rc ws = ws"
| "expand_key nk (Suc n) rc ws =
     (let i = length ws; w = hd ws
      in if i mod nk = 0 then
           expand_key nk n (xtime rc)
             (xor_octets (ws ! (nk - 1)) (xor_octets (sub_octets (rotate1 w)) [rc]) # ws)
         else if 6 < nk \<and> i mod nk = 4 then
           expand_key nk n rc (xor_octets (ws ! (nk - 1)) (sub_octets w) # ws)
         else expand_key nk n rc (xor_octets (ws ! (nk - 1)) w # ws))"

fun key_words :: "octet list \<Rightarrow> octet list list" where
  "key_words (a # b # c # d # r) = [a, b, c, d] # key_words r"
| "key_words _ = []"

text \<open>The round keys: one more than the 10, 12 or 14 rounds.\<close>

definition round_keys :: "octet list \<Rightarrow> octet list list" where
  "round_keys key =
     (let nk = length key div 4
      in octet_blocks (concat (rev (expand_key nk (4 * (nk + 7) - nk) 1 (rev (key_words key))))))"

text \<open>The state is the block, column after column.\<close>

definition shift_rows :: "octet list \<Rightarrow> octet list" where
  "shift_rows s = map (\<lambda>j. s ! (5 * j mod 16)) [0..<16]"

fun mix_columns :: "octet list \<Rightarrow> octet list" where
  "mix_columns (a # b # c # d # r) =
     (let t = a XOR b XOR c XOR d
      in (a XOR t XOR xtime (a XOR b)) # (b XOR t XOR xtime (b XOR c)) #
         (c XOR t XOR xtime (c XOR d)) # (d XOR t XOR xtime (d XOR a)) # mix_columns r)"
| "mix_columns _ = []"

fun aes_rounds :: "octet list list \<Rightarrow> octet list \<Rightarrow> octet list" where
  "aes_rounds [] s = s"
| "aes_rounds [k] s = xor_octets (shift_rows (sub_octets s)) k"
| "aes_rounds (k # ks) s = aes_rounds ks (xor_octets (mix_columns (shift_rows (sub_octets s))) k)"

definition aes_block :: "octet list list \<Rightarrow> octet list \<Rightarrow> octet list" where
  "aes_block ks s = aes_rounds (tl ks) (xor_octets s (hd ks))"

text \<open>\<open>aes.NewCipher\<close> takes keys of 16, 24 and 32 bytes.\<close>

definition NewCipher :: "gostring \<Rightarrow> goerror + octet list list" where
  "NewCipher key =
     (if length key \<in> {16, 24, 32} then Inr (round_keys (octets key))
      else Inl (Foreign (''crypto/aes: invalid key size '' @ dec_string (length key))))"

section \<open>The Galois/counter mode\<close>

definition block_word :: "octet list \<Rightarrow> 128 word" where
  "block_word bs = fold (\<lambda>b w. push_bit 8 w OR ucast b) (take 16 (bs @ replicate 16 0)) 0"

definition word_block :: "128 word \<Rightarrow> octet list" where
  "word_block w = map (\<lambda>i. ucast (drop_bit (8 * i) w)) (rev [0..<16])"

definition gf_mult :: "128 word \<Rightarrow> 128 word \<Rightarrow> 128 word" where
  "gf_mult x y =
     fst (fold (\<lambda>i (z, v).
         (if bit x (127 - i) then z XOR v else z,
          if bit v 0 then drop_bit 1 v XOR push_bit 120 225 else drop_bit 1 v))
       [0..<128] (0, y))"

definition ghash :: "128 word \<Rightarrow> 128 word list \<Rightarrow> 128 word" where
  "ghash h ws = fold (\<lambda>w y. gf_mult (y XOR w) h) ws 0"

definition counter_block :: "octet list \<Rightarrow> nat \<Rightarrow> octet list" where
  "counter_block nonce n = nonce @ map (\<lambda>i. word_of_nat (n div 256 ^ i)) [3, 2, 1, 0]"

text \<open>The key stream starts at the counter 2; the counter 1 masks the tag.\<close>

definition key_stream :: "octet list list \<Rightarrow> octet list \<Rightarrow> nat \<Rightarrow> octet list" where
  "key_stream ks nonce len = concat (map (\<lambda>i. aes_block ks (counter_block nonce (i + 2))) [0..<(len + 15) div 16])"

definition gcm_tag :: "octet list list \<Rightarrow> octet list \<Rightarrow> octet list \<Rightarrow> octet list" where
  "gcm_tag ks nonce ct =
     (let h = block_word (aes_block ks (replicate 16 0))
      in word_block (block_word (aes_block ks (counter_block nonce 1)) XOR
           ghash h (map block_word (octet_blocks ct) @ [word_of_nat (8 * length ct)])))"

definition NonceSize :: nat where
  "NonceSize = 12"

definition gcm_max :: nat where
  "gcm_max = (2 ^ 32 - 2) * 16"

text \<open>\<open>Seal(nil, nonce, plaintext, nil)\<close> and \<open>Open(nil, nonce, ciphertext, nil)\<close>: both panic on a
  nonce of another length, \<open>Seal\<close> also on a message that is too large.\<close>

definition gcm_Seal :: "octet list list \<Rightarrow> gostring \<Rightarrow> gostring \<Rightarrow> gostring outcome" where
  "gcm_Seal ks nonce plaintext =
     (if length nonce \<noteq> NonceSize \<or> gcm_max < length plaintext then Panic
      else let n = octets nonce; ct = xor_octets (octets plaintext) (key_stream ks n (length plaintext))
           in Done (text_of (ct @ gcm_tag ks n ct)))"

definition gcm_Open :: "octet list list \<Rightarrow> gostring \<Rightarrow> gostring \<Rightarrow> (goerror + gostring) outcome" where
  "gcm_Open ks nonce ciphertext =
     (if length nonce \<noteq> NonceSize then Panic
      else if length ciphertext < 16 \<or> gcm_max + 16 < length ciphertext then
        Done (Inl (Foreign ''cipher: message authentication failed''))
      else let n = octets nonce; len = length ciphertext - 16;
               ct = octets (take len ciphertext); tag = octets (drop len ciphertext)
           in if tag \<noteq> gcm_tag ks n ct then Done (Inl (Foreign ''cipher: message authentication failed''))
              else Done (Inr (text_of (xor_octets ct (key_stream ks n len)))))"

section \<open>Opening what was sealed\<close>

lemma length_octets [simp]: "length (octets s) = length s" "length (text_of bs) = length bs"
  by (simp_all add: octets_def text_of_def)

lemma octets_text_of [simp]: "octets (text_of bs) = bs"
proof -
  have "unat (b :: octet) < 256" for b using unsigned_less [of b, where ?'a = nat] by simp
  then show ?thesis by (simp add: octets_def text_of_def comp_def map_idI)
qed

lemma text_of_octets [simp]: "text_of (octets s) = s"
proof -
  have "(of_char c :: nat) < 256" for c by simp
  then have "unat (word_of_nat (of_char c) :: octet) = of_char c" for c by (simp add: unat_of_nat)
  then show ?thesis by (simp add: octets_def text_of_def comp_def map_idI)
qed

lemma length_xor_octets [simp]: "length (xor_octets bs ks) = length bs"
  by (induction bs ks rule: xor_octets.induct) simp_all

lemma xor_octets_twice [simp]: "xor_octets (xor_octets bs ks) ks = bs"
  by (induction bs ks rule: xor_octets.induct) (simp_all add: xor.assoc)

lemma text_of_append: "text_of (a @ b) = text_of a @ text_of b"
  by (simp add: text_of_def)

lemma length_gcm_tag [simp]: "length (gcm_tag ks n ct) = 16"
  by (simp add: gcm_tag_def Let_def word_block_def)

lemma gcm_Seal_cases:
  assumes "length nonce = NonceSize" and "length plaintext \<le> gcm_max"
  obtains ciphertext where "gcm_Seal ks nonce plaintext = Done ciphertext"
    "length ciphertext = length plaintext + 16" "gcm_Open ks nonce ciphertext = Done (Inr plaintext)"
proof -
  let ?ct = "xor_octets (octets plaintext) (key_stream ks (octets nonce) (length plaintext))"
  let ?c = "text_of ?ct @ text_of (gcm_tag ks (octets nonce) ?ct)"
  have "gcm_Seal ks nonce plaintext = Done ?c" "gcm_Open ks nonce ?c = Done (Inr plaintext)"
    using assms by (simp_all add: gcm_Seal_def gcm_Open_def Let_def text_of_append)
  then show thesis using that [of ?c] by simp
qed

end
