(* ===== verification/Encrypt.thy ===== *)
theory Encrypt
  imports Middleware JsonRoundtrip GoCrypto
begin

text \<open>
  \<open>internal/encrypt/aes.go\<close> and \<open>rsa.go\<close>: the hybrid encryption of request bodies. A fresh AES key
  encrypts the body, RSA-OAEP encrypts that key, and a JSON object carries the two and the nonce in
  base64. AES-GCM is executable (\<open>GoCrypto\<close>); the source of random bytes, RSA, and the parsers of
  key files are the record \<open>crypto\<close>. The lemmas: what the engine of a public key encrypts, the
  engine of the private key decrypts; a nonce of a wrong length makes the decrypter panic.
\<close>

section \<open>Parameters\<close>

text \<open>\<open>rand.Read\<close>, OAEP with SHA-256 for a label, PEM and PKCS 1; random bytes are drawn from a
  state. \<open>cp_json_error\<close> is the text of the error of \<open>json.Unmarshal\<close> for a body it refuses.\<close>

record ('pub, 'priv, 'e) crypto =
  cp_Read :: "nat \<Rightarrow> 'e \<Rightarrow> (goerror + gostring) \<times> 'e"
  cp_EncryptOAEP :: "'pub \<Rightarrow> gostring \<Rightarrow> gostring \<Rightarrow> 'e \<Rightarrow> (goerror + gostring) \<times> 'e"
  cp_DecryptOAEP :: "'priv \<Rightarrow> gostring \<Rightarrow> gostring \<Rightarrow> goerror + gostring"
  cp_pem_Decode :: "gostring \<Rightarrow> (gostring \<times> gostring) option"
  cp_ParsePKCS1PublicKey :: "gostring \<Rightarrow> goerror + 'pub"
  cp_ParsePKCS1PrivateKey :: "gostring \<Rightarrow> goerror + 'priv"
  cp_json_error :: "gostring \<Rightarrow> gostring"

section \<open>AES\<close>

definition aesKeySize :: nat where
  "aesKeySize = 32"

record aes_encrypted =
  ae_Key :: gostring
  ae_Nonce :: gostring
  ae_Ciphertext :: gostring

definition generateRandomBytes :: "('pub, 'priv, 'e) crypto \<Rightarrow> nat \<Rightarrow> 'e \<Rightarrow> (goerror + gostring) \<times> 'e" where
  "generateRandomBytes cp n e = cp_Read cp n e"

text \<open>\<open>cipher.NewGCM\<close> does not fail for a block of 16 bytes.\<close>

definition aesEncrypt ::
    "('pub, 'priv, 'e) crypto \<Rightarrow> gostring \<Rightarrow> 'e \<Rightarrow> (goerror + aes_encrypted) outcome \<times> 'e" where
  "aesEncrypt cp data e =
     (case generateRandomBytes cp aesKeySize e of
        (Inl err, e1) \<Rightarrow> (Done (Inl (errorf ''error generating AES key bytes: '' err [])), e1)
      | (Inr key, e1) \<Rightarrow>
          (case NewCipher key of
             Inl err \<Rightarrow> (Done (Inl (errorf ''error creating AES cipher '' err [])), e1)
           | Inr ks \<Rightarrow>
               (case generateRandomBytes cp NonceSize e1 of
                  (Inl err, e2) \<Rightarrow> (Done (Inl (errorf ''error generating AES nonce bytes: '' err [])), e2)
                | (Inr nonce, e2) \<Rightarrow>
                    (case gcm_Seal ks nonce data of
                       Panic \<Rightarrow> (Panic, e2)
                     | Done ct \<Rightarrow> (Done (Inr \<lparr>ae_Key = key, ae_Nonce = nonce, ae_Ciphertext = ct\<rparr>), e2)))))"

definition aesDecrypt :: "aes_encrypted \<Rightarrow> (goerror + gostring) outcome" where
  "aesDecrypt enc =
     (case NewCipher (ae_Key enc) of
        Inl err \<Rightarrow> Done (Inl (errorf ''error creating AES cipher: '' err []))
      | Inr ks \<Rightarrow>
          (case gcm_Open ks (ae_Nonce enc) (ae_Ciphertext enc) of
             Panic \<Rightarrow> Panic
           | Done (Inl err) \<Rightarrow> Done (Inl (errorf ''error decrypting AES ciphertext: '' err []))
           | Done (Inr data) \<Rightarrow> Done (Inr data)))"

section \<open>The encrypted block\<close>

record rsa_aes_block =
  rb_Key :: gostring
  rb_Cipher :: gostring
  rb_Nonce :: gostring

definition block_json :: "rsa_aes_block \<Rightarrow> json" where
  "block_json b = JObj [(''key'', JStr (rb_Key b)), (''cipher'', JStr (rb_Cipher b)), (''nonce'', JStr (rb_Nonce b))]"

text \<open>Names are compared as \<open>encoding/json\<close> folds them: ASCII case, the Kelvin sign is a k and the
  long s is an s.\<close>

definition kelvin_sign :: gostring where
  "kelvin_sign = [CHR 0xE2, CHR 0x84, CHR 0xAA]"

definition long_s :: gostring where
  "long_s = [CHR 0xC5, CHR 0xBF]"

fun fold_name :: "gostring \<Rightarrow> gostring" where
  "fold_name [] = []"
| "fold_name (c # s) =
     (if take 3 (c # s) = kelvin_sign then CHR ''k'' # fold_name (drop 2 s)
      else if take 2 (c # s) = long_s then CHR ''s'' # fold_name (drop 1 s)
      else lower c # fold_name s)"

text \<open>A string member sets its field, \<open>null\<close> leaves it, anything else is an error.\<close>

definition string_member :: "(gostring \<Rightarrow> rsa_aes_block) \<Rightarrow> json \<Rightarrow> rsa_aes_block \<Rightarrow> rsa_aes_block option" where
  "string_member put v b = (case v of JStr s \<Rightarrow> Some (put s) | JNull \<Rightarrow> Some b | _ \<Rightarrow> None)"

definition decode_block_member :: "gostring \<Rightarrow> json \<Rightarrow> rsa_aes_block \<Rightarrow> rsa_aes_block option" where
  "decode_block_member k v b =
     (let n = fold_name k
      in if n = ''key'' then string_member (\<lambda>s. b\<lparr>rb_Key := s\<rparr>) v b
         else if n = ''cipher'' then string_member (\<lambda>s. b\<lparr>rb_Cipher := s\<rparr>) v b
         else if n = ''nonce'' then string_member (\<lambda>s. b\<lparr>rb_Nonce := s\<rparr>) v b
         else Some b)"

fun decode_block_members :: "(gostring \<times> json) list \<Rightarrow> rsa_aes_block \<Rightarrow> rsa_aes_block option" where
  "decode_block_members [] b = Some b"
| "decode_block_members ((k, v) # kvs) b =
     (case decode_block_member k v b of None \<Rightarrow> None | Some b' \<Rightarrow> decode_block_members kvs b')"

definition zero_block :: rsa_aes_block where
  "zero_block = \<lparr>rb_Key = [], rb_Cipher = [], rb_Nonce = []\<rparr>"

definition Unmarshal_block :: "gostring \<Rightarrow> rsa_aes_block option" where
  "Unmarshal_block s =
     (case parse_json s of
        Some JNull \<Rightarrow> Some zero_block
      | Some (JObj kvs) \<Rightarrow> decode_block_members kvs zero_block
      | _ \<Rightarrow> None)"

declare fold_name.simps [simp del]

section \<open>The engine\<close>

text \<open>A key is \<open>None\<close> where the pointer is nil.\<close>

record ('pub, 'priv) rsa_aes_engine =
  en_publicKey :: "'pub option"
  en_privateKey :: "'priv option"
  en_label :: gostring

definition engine_Encrypt ::
    "('pub, 'priv, 'e) crypto \<Rightarrow> ('pub, 'priv) rsa_aes_engine \<Rightarrow> gostring \<Rightarrow> 'e
      \<Rightarrow> (goerror + gostring) outcome \<times> 'e" where
  "engine_Encrypt cp engine data e =
     (case en_publicKey engine of
        None \<Rightarrow> (Done (Inl (Foreign ''encrypting disabled'')), e)
      | Some pub \<Rightarrow>
          (case aesEncrypt cp data e of
             (Panic, e1) \<Rightarrow> (Panic, e1)
           | (Done (Inl err), e1) \<Rightarrow> (Done (Inl (errorf ''AES encrypting error: '' err [])), e1)
           | (Done (Inr enc), e1) \<Rightarrow>
               (case cp_EncryptOAEP cp pub (en_label engine) (ae_Key enc) e1 of
                  (Inl err, e2) \<Rightarrow> (Done (Inl (errorf ''RSA encrypting error: '' err [])), e2)
                | (Inr rsaEncKey, e2) \<Rightarrow>
                    (Done (Inr (json_print (block_json
                       \<lparr>rb_Key = b64_encode rsaEncKey, rb_Cipher = b64_encode (ae_Ciphertext enc),
                        rb_Nonce = b64_encode (ae_Nonce enc)\<rparr>))), e2))))"

definition EncryptingEnabled :: "('pub, 'priv) rsa_aes_engine \<Rightarrow> bool" where
  "EncryptingEnabled engine \<longleftrightarrow> en_publicKey engine \<noteq> None"

definition base64_error :: goerror where
  "base64_error = errorf ''BASE64 decoding error: '' (Foreign ''illegal base64 data'') []"

definition engine_Decrypt ::
    "('pub, 'priv, 'e) crypto \<Rightarrow> ('pub, 'priv) rsa_aes_engine \<Rightarrow> gostring \<Rightarrow> (goerror + gostring) outcome" where
  "engine_Decrypt cp engine encrypted =
     (case en_privateKey engine of
        None \<Rightarrow> Done (Inl (Foreign ''decrypting disabled''))
      | Some priv \<Rightarrow>
          (case Unmarshal_block encrypted of
             None \<Rightarrow> Done (Inl (errorf ''JSON unmarshalling error: '' (Foreign (cp_json_error cp encrypted)) []))
           | Some b \<Rightarrow>
               (case b64_decode (rb_Key b) of
                  None \<Rightarrow> Done (Inl base64_error)
                | Some rsaEncKey \<Rightarrow>
                    (case cp_DecryptOAEP cp priv (en_label engine) rsaEncKey of
                       Inl err \<Rightarrow> Done (Inl (errorf ''RSA decrypt error: '' err []))
                     | Inr key \<Rightarrow>
                         (case b64_decode (rb_Cipher b) of
                            None \<Rightarrow> Done (Inl base64_error)
                          | Some ciphertext \<Rightarrow>
                              (case b64_decode (rb_Nonce b) of
                                 None \<Rightarrow> Done (Inl base64_error)
                               | Some nonce \<Rightarrow>
                                   (case aesDecrypt \<lparr>ae_Key = key, ae_Nonce = nonce, ae_Ciphertext = ciphertext\<rparr> of
                                      Panic \<Rightarrow> Panic
                                    | Done (Inl err) \<Rightarrow> Done (Inl (errorf ''AES decrypt error: '' err []))
                                    | Done (Inr data) \<Rightarrow> Done (Inr data))))))))"

definition DecryptingEnabled :: "('pub, 'priv) rsa_aes_engine \<Rightarrow> bool" where
  "DecryptingEnabled engine \<longleftrightarrow> en_privateKey engine \<noteq> None"

text \<open>The engine as the interface of the middleware.\<close>

definition engine_decrypter :: "('pub, 'priv, 'e) crypto \<Rightarrow> ('pub, 'priv) rsa_aes_engine \<Rightarrow> decrypter" where
  "engine_decrypter cp engine =
     \<lparr>dc_DecryptingEnabled = DecryptingEnabled engine, dc_Decrypt = engine_Decrypt cp engine\<rparr>"

section \<open>The builder\<close>

record ('pub, 'priv) rsa_engine_builder =
  eb_publicKey :: "'pub option"
  eb_privateKey :: "'priv option"
  eb_label :: "gostring option"

definition NewRSAEngineBuilder :: "('pub, 'priv) rsa_engine_builder" where
  "NewRSAEngineBuilder = \<lparr>eb_publicKey = None, eb_privateKey = None, eb_label = None\<rparr>"

definition builder_PublicKey :: "'pub option \<Rightarrow> ('pub, 'priv) rsa_engine_builder \<Rightarrow> ('pub, 'priv) rsa_engine_builder" where
  "builder_PublicKey pub b = b\<lparr>eb_publicKey := pub\<rparr>"

definition builder_PrivateKey :: "'priv option \<Rightarrow> ('pub, 'priv) rsa_engine_builder \<Rightarrow> ('pub, 'priv) rsa_engine_builder" where
  "builder_PrivateKey priv b = b\<lparr>eb_privateKey := priv\<rparr>"

definition builder_Label :: "gostring option \<Rightarrow> ('pub, 'priv) rsa_engine_builder \<Rightarrow> ('pub, 'priv) rsa_engine_builder" where
  "builder_Label label b = b\<lparr>eb_label := label\<rparr>"

definition builder_Build :: "('pub, 'priv) rsa_engine_builder \<Rightarrow> ('pub, 'priv) rsa_aes_engine" where
  "builder_Build b =
     \<lparr>en_publicKey = eb_publicKey b, en_privateKey = eb_privateKey b,
      en_label = (case eb_label b of None \<Rightarrow> [] | Some label \<Rightarrow> label)\<rparr>"

section \<open>Key files\<close>

definition publicKeyBlockType :: gostring where
  "publicKeyBlockType = ''PUBLIC KEY''"

definition privateKeyBlockType :: gostring where
  "privateKeyBlockType = ''RSA PRIVATE KEY''"

definition invalid_block :: "gostring \<Rightarrow> goerror" where
  "invalid_block filePath = Foreign (''error reading key file '' @ filePath @ '': invalid PEM block or key type'')"

definition ReadRSAPublicKeyFromFile ::
    "('pub, 'priv, 'e) crypto \<Rightarrow> (gostring \<Rightarrow> goerror + gostring) \<Rightarrow> gostring \<Rightarrow> goerror + 'pub" where
  "ReadRSAPublicKeyFromFile cp ReadFile filePath =
     (case ReadFile filePath of
        Inl err \<Rightarrow> Inl (errorf (''error reading key file '' @ filePath @ '': '') err [])
      | Inr bytes \<Rightarrow>
          (case cp_pem_Decode cp bytes of
             None \<Rightarrow> Inl (invalid_block filePath)
           | Some (t, block) \<Rightarrow>
               if t \<noteq> publicKeyBlockType then Inl (invalid_block filePath)
               else (case cp_ParsePKCS1PublicKey cp block of
                      Inl err \<Rightarrow> Inl (errorf ''error parsing public key: '' err [])
                    | Inr pub \<Rightarrow> Inr pub)))"

definition ReadRSAPrivateKeyFromFile ::
    "('pub, 'priv, 'e) crypto \<Rightarrow> (gostring \<Rightarrow> goerror + gostring) \<Rightarrow> gostring \<Rightarrow> goerror + 'priv" where
  "ReadRSAPrivateKeyFromFile cp ReadFile filePath =
     (case ReadFile filePath of
        Inl err \<Rightarrow> Inl (errorf (''error reading key file '' @ filePath @ '': '') err [])
      | Inr bytes \<Rightarrow>
          (case cp_pem_Decode cp bytes of
             None \<Rightarrow> Inl (invalid_block filePath)
           | Some (t, block) \<Rightarrow>
               if t \<noteq> privateKeyBlockType then Inl (invalid_block filePath)
               else (case cp_ParsePKCS1PrivateKey cp block of
                      Inl err \<Rightarrow> Inl (errorf ''error parsing public key: '' err [])
                    | Inr priv \<Rightarrow> Inr priv)))"

section \<open>Decrypting what was encrypted\<close>

lemma b64_ascii: "list_all (\<lambda>c. char_code c < 128) (b64_encode s)"
proof -
  have "list_all (\<lambda>c. char_code c < 128) b64_alphabet" "length b64_alphabet = 64" by code_simp+
  then have "n < 64 \<Longrightarrow> char_code (b64_char n) < 128" for n by (simp add: b64_char_def list_all_length)
  moreover have "char_code (CHR ''='') < 128" by code_simp
  ultimately show ?thesis unfolding list_all_iff by (blast dest: b64_encode_chars)
qed

lemma block_names [simp]: "valid_utf8 ''key''" "valid_utf8 ''cipher''" "valid_utf8 ''nonce''"
  "fold_name ''key'' = ''key''" "fold_name ''cipher'' = ''cipher''" "fold_name ''nonce'' = ''nonce''"
  by (rule valid_utf8_ascii; simp add: char_code_def)+ code_simp+

lemma Unmarshal_block_Marshal:
  assumes "valid_utf8 (rb_Key b)" and "valid_utf8 (rb_Cipher b)" and "valid_utf8 (rb_Nonce b)"
  shows "Unmarshal_block (json_print (block_json b)) = Some b"
proof -
  have "parse_json (json_print (block_json b)) = Some (block_json b)"
    using assms by (intro parse_json_print) (simp_all add: block_json_def max_nesting_depth_def)
  then show ?thesis
    by (cases b) (simp add: Unmarshal_block_def block_json_def decode_block_member_def string_member_def zero_block_def)
qed

lemma Unmarshal_b64_block:
  "Unmarshal_block (json_print (block_json \<lparr>rb_Key = b64_encode k, rb_Cipher = b64_encode c, rb_Nonce = b64_encode n\<rparr>)) =
   Some \<lparr>rb_Key = b64_encode k, rb_Cipher = b64_encode c, rb_Nonce = b64_encode n\<rparr>"
  by (intro Unmarshal_block_Marshal) (simp_all add: valid_utf8_ascii [OF b64_ascii])

text \<open>What is relied on of \<open>crypto/rand\<close> and \<open>crypto/rsa\<close>: random bytes come in the number asked
  for; the private key opens what OAEP made with its public key and the same label.\<close>

definition rand_lawful :: "('pub, 'priv, 'e) crypto \<Rightarrow> bool" where
  "rand_lawful cp \<longleftrightarrow> (\<forall>n e b e'. cp_Read cp n e = (Inr b, e') \<longrightarrow> length b = n)"

definition key_pair :: "('pub, 'priv, 'e) crypto \<Rightarrow> 'pub \<Rightarrow> 'priv \<Rightarrow> bool" where
  "key_pair cp pub priv \<longleftrightarrow>
     (\<forall>label msg e c e'. cp_EncryptOAEP cp pub label msg e = (Inr c, e') \<longrightarrow> cp_DecryptOAEP cp priv label c = Inr msg)"

lemma rand_length: "rand_lawful cp \<Longrightarrow> cp_Read cp n e = (Inr b, e') \<Longrightarrow> length b = n"
  unfolding rand_lawful_def by blast

lemma key_pair_opens:
  "key_pair cp pub priv \<Longrightarrow> cp_EncryptOAEP cp pub label msg e = (Inr c, e') \<Longrightarrow> cp_DecryptOAEP cp priv label c = Inr msg"
  unfolding key_pair_def by blast

lemma NewCipher_size: "length key \<in> {16, 24, 32} \<Longrightarrow> NewCipher key = Inr (round_keys (octets key))"
  by (simp add: NewCipher_def)

lemma aesEncrypt_cases:
  assumes "rand_lawful cp" and "length data \<le> gcm_max"
  obtains err e' where "aesEncrypt cp data e = (Done (Inl err), e')"
  | enc e' where "aesEncrypt cp data e = (Done (Inr enc), e')" "aesDecrypt enc = Done (Inr data)"
      "length (ae_Key enc) = aesKeySize"
proof (cases "cp_Read cp aesKeySize e")
  case (Pair r1 e1)
  show thesis
  proof (cases r1)
    case (Inl err)
    then show thesis using Pair that(1) by (simp add: aesEncrypt_def generateRandomBytes_def)
  next
    case (Inr key)
    then have k: "length key = aesKeySize" using rand_length [OF assms(1)] Pair by blast
    then have n: "NewCipher key = Inr (round_keys (octets key))" by (intro NewCipher_size) (simp add: aesKeySize_def)
    obtain r2 e2 where r2: "cp_Read cp NonceSize e1 = (r2, e2)" by fastforce
    show thesis
    proof (cases r2)
      case (Inl err)
      then show thesis using Pair Inr r2 n that(1) by (simp add: aesEncrypt_def generateRandomBytes_def)
    next
      case (Inr nonce)
      then have "length nonce = NonceSize" using rand_length [OF assms(1)] r2 by blast
      then obtain ct where "gcm_Seal (round_keys (octets key)) nonce data = Done ct"
          "gcm_Open (round_keys (octets key)) nonce ct = Done (Inr data)"
        using gcm_Seal_cases assms(2) by blast
      then show thesis using Pair \<open>r1 = Inr key\<close> r2 Inr n k
        by (intro that(2) [of "\<lparr>ae_Key = key, ae_Nonce = nonce, ae_Ciphertext = ct\<rparr>" e2])
          (simp_all add: aesEncrypt_def generateRandomBytes_def aesDecrypt_def)
    qed
  qed
qed

lemma decrypted:
  assumes "rand_lawful cp" and "key_pair cp pub priv" and "length data \<le> gcm_max"
    and "en_publicKey enc = Some pub" and "en_privateKey dec = Some priv" and "en_label enc = en_label dec"
    and "engine_Encrypt cp enc data e = (Done (Inr body), e')"
  shows "engine_Decrypt cp dec body = Done (Inr data)"
  using assms(1,3)
proof (cases rule: aesEncrypt_cases [of cp data e])
  case (1 err e')
  then show ?thesis using assms(4,7) by (simp add: engine_Encrypt_def)
next
  case (2 ae e1)
  obtain q e2 where q: "cp_EncryptOAEP cp pub (en_label enc) (ae_Key ae) e1 = (q, e2)" by fastforce
  then obtain c where c: "q = Inr c" using 2(1) assms(4,7) by (cases q) (auto simp: engine_Encrypt_def)
  then have "cp_DecryptOAEP cp priv (en_label dec) c = Inr (ae_Key ae)"
    using key_pair_opens [OF assms(2)] q assms(6) by simp
  moreover have "aesDecrypt \<lparr>ae_Key = ae_Key ae, ae_Nonce = ae_Nonce ae, ae_Ciphertext = ae_Ciphertext ae\<rparr> = Done (Inr data)"
    using 2(2) by (cases ae) simp
  ultimately show ?thesis using 2 q c assms(4,5,7)
    by (auto simp add: engine_Encrypt_def engine_Decrypt_def Unmarshal_b64_block)
qed

text \<open>C12. What the engine of a public key encrypts, the engine of its private key decrypts, with the
  same label: encrypting never panics, and either fails or gives a body that decrypts to the data. It
  succeeds whenever random bytes are available and the RSA key has room for an AES key.\<close>

theorem decrypt_encrypt:
  assumes "rand_lawful cp" and "key_pair cp pub priv" and "length data \<le> gcm_max"
    and "en_publicKey enc = Some pub" and "en_privateKey dec = Some priv" and "en_label enc = en_label dec"
  shows "\<exists>r e'. engine_Encrypt cp enc data e = (Done r, e') \<and>
    (case r of
       Inr body \<Rightarrow> engine_Decrypt cp dec body = Done (Inr data)
     | Inl err \<Rightarrow> (\<exists>n e err. fst (cp_Read cp n e) = Inl err) \<or>
         (\<exists>key e err. length key = aesKeySize \<and> fst (cp_EncryptOAEP cp pub (en_label enc) key e) = Inl err))"
proof -
  have fails: "\<exists>n e err. fst (cp_Read cp n e) = Inl err"
    if "aesEncrypt cp data e = (Done (Inl err), e')" for err e'
  proof (rule ccontr)
    assume no: "\<not> ?thesis"
    then have "\<exists>b e2. cp_Read cp n e1 = (Inr b, e2)" for n e1
      by (metis fst_conv prod.exhaust sumE)
    then obtain key e1 nonce e2 where r: "cp_Read cp aesKeySize e = (Inr key, e1)" "cp_Read cp NonceSize e1 = (Inr nonce, e2)"
      by metis
    then have "NewCipher key = Inr (round_keys (octets key))"
      using rand_length [OF assms(1) r(1)] by (intro NewCipher_size) (simp add: aesKeySize_def)
    with r that show False by (simp add: aesEncrypt_def generateRandomBytes_def split: outcome.splits)
  qed
  from assms(1,3) show ?thesis
  proof (cases rule: aesEncrypt_cases [of cp data e])
    case (1 err e')
    then show ?thesis using assms(4) fails by (auto simp: engine_Encrypt_def)
  next
    case (2 ae e1)
    obtain q e2 where q: "cp_EncryptOAEP cp pub (en_label enc) (ae_Key ae) e1 = (q, e2)" by fastforce
    show ?thesis
    proof (cases q)
      case (Inl err)
      then have "fst (cp_EncryptOAEP cp pub (en_label enc) (ae_Key ae) e1) = Inl err" using q by simp
      then have "\<exists>key e err. length key = aesKeySize \<and> fst (cp_EncryptOAEP cp pub (en_label enc) key e) = Inl err"
        using 2(3) by blast
      then show ?thesis using 2 q Inl assms(4) by (simp add: engine_Encrypt_def)
    next
      case (Inr c)
      then obtain body where "engine_Encrypt cp enc data e = (Done (Inr body), e2)"
        using 2 q assms(4) by (simp add: engine_Encrypt_def)
      then show ?thesis using decrypted [OF assms] by simp
    qed
  qed
qed

text \<open>A library where RSA writes the label and the message in base64, for the witnesses. Its random
  source counts.\<close>

definition test_crypto :: "(unit, unit, nat) crypto" where
  "test_crypto = \<lparr>
     cp_Read = (\<lambda>n e. (Inr (replicate n (char_of e)), Suc e)),
     cp_EncryptOAEP = (\<lambda>pub label msg e. (Inr (b64_encode label @ CHR '':'' # b64_encode msg), Suc e)),
     cp_DecryptOAEP = (\<lambda>priv label c.
       let l = b64_encode label @ '':''
       in if take (length l) c \<noteq> l then Inl (Foreign ''crypto/rsa: decryption error'')
          else case b64_decode (drop (length l) c) of
                 None \<Rightarrow> Inl (Foreign ''crypto/rsa: decryption error'') | Some msg \<Rightarrow> Inr msg),
     cp_pem_Decode = (\<lambda>s. Some (publicKeyBlockType, s)),
     cp_ParsePKCS1PublicKey = (\<lambda>s. Inr ()), cp_ParsePKCS1PrivateKey = (\<lambda>s. Inr ()),
     cp_json_error = (\<lambda>s. ''invalid JSON'')\<rparr>"

lemma test_crypto_laws [simp]: "rand_lawful test_crypto" "key_pair test_crypto pub priv"
  by (simp_all add: rand_lawful_def key_pair_def test_crypto_def Let_def)

lemma decrypt_encrypt_witness:
  "\<exists>body e'. engine_Encrypt test_crypto (builder_Build (builder_PublicKey (Some ()) NewRSAEngineBuilder)) ''data'' 7 =
      (Done (Inr body), e') \<and>
    engine_Decrypt test_crypto (builder_Build (builder_PrivateKey (Some ()) NewRSAEngineBuilder)) body = Done (Inr ''data'')"
proof -
  let ?enc = "builder_Build (builder_PublicKey (Some ()) NewRSAEngineBuilder) :: (unit, unit) rsa_aes_engine"
  let ?dec = "builder_Build (builder_PrivateKey (Some ()) NewRSAEngineBuilder) :: (unit, unit) rsa_aes_engine"
  note b = builder_Build_def builder_PublicKey_def builder_PrivateKey_def NewRSAEngineBuilder_def
  have "length ''data'' \<le> gcm_max" by (simp add: gcm_max_def)
  then obtain r e' where r: "engine_Encrypt test_crypto ?enc ''data'' 7 = (Done r, e')" and
    c: "case r of Inr body \<Rightarrow> engine_Decrypt test_crypto ?dec body = Done (Inr ''data'')
        | Inl err \<Rightarrow> (\<exists>n e err. fst (cp_Read test_crypto n e) = Inl err) \<or>
            (\<exists>key e err. length key = aesKeySize \<and> fst (cp_EncryptOAEP test_crypto () (en_label ?enc) key e) = Inl err)"
    using decrypt_encrypt [of test_crypto "()" "()" "''data''" ?enc ?dec 7] by (auto simp: b)
  then obtain body where "r = Inr body" by (cases r) (auto simp: test_crypto_def)
  then show ?thesis using r c by auto
qed

section \<open>What the decrypter does not check\<close>

text \<open>C35. The nonce of an encrypted block comes from the client, and its length is not checked: if
  the rest of the block is in order, a nonce that is not 12 bytes long makes the decrypter, and
  with it the request, panic instead of being refused.\<close>

theorem nonce_length_panics:
  assumes "en_privateKey engine = Some priv" and "cp_DecryptOAEP cp priv (en_label engine) k = Inr key"
    and "length key \<in> {16, 24, 32}" and "length nonce \<noteq> NonceSize"
    and "rq_body r = Inr (json_print (block_json
      \<lparr>rb_Key = b64_encode k, rb_Cipher = b64_encode c, rb_Nonce = b64_encode nonce\<rparr>))"
  shows "decryption_Middleware (engine_decrypter cp engine) next r w st = (Panic, w, st)"
proof -
  have "aesDecrypt \<lparr>ae_Key = key, ae_Nonce = nonce, ae_Ciphertext = c\<rparr> = Panic"
    using assms(4) NewCipher_size [OF assms(3)] by (simp add: aesDecrypt_def gcm_Open_def)
  then show ?thesis using assms(1,2,5)
    by (simp add: decryption_Middleware_def engine_decrypter_def DecryptingEnabled_def engine_Decrypt_def Unmarshal_b64_block)
qed

lemma nonce_length_panics_witness:
  "decryption_Middleware (engine_decrypter test_crypto \<lparr>en_publicKey = None, en_privateKey = Some (), en_label = []\<rparr>)
     (\<lambda>r w st. (Done (), WriteHeader 200 w, st))
     \<lparr>rq_header = [], rq_body = Inr (json_print (block_json
        \<lparr>rb_Key = b64_encode (CHR '':'' # b64_encode (replicate 16 (CHR ''x''))), rb_Cipher = b64_encode [], rb_Nonce = b64_encode ''short''\<rparr>)),
      rq_RemoteAddr = [], rq_URLParam = (\<lambda>_. [])\<rparr>
     (ServerWriter new_writer) () = (Panic, ServerWriter new_writer, ())"
  by (rule nonce_length_panics [where priv = "()" and key = "replicate 16 (CHR ''x'')" and nonce = "''short''"
        and k = "CHR '':'' # b64_encode (replicate 16 (CHR ''x''))" and c = "[]"])
    (simp_all del: b64_encode.simps add: test_crypto_def Let_def NonceSize_def b64_encode.simps(1))

text \<open>C36. A private key on the server turns every request without a body away, which is what the
  update by path sends: the empty body is not an encrypted block, so the answer is 400 and the handler is
  never called.\<close>

theorem empty_body_refused:
  assumes "en_privateKey engine = Some priv" and "rq_body r = Inr []" and "fresh w"
  shows "\<exists>w'. decryption_Middleware (engine_decrypter cp engine) next r w st = (Done (), w', st) \<and> status_of w' = 400"
proof -
  have "Unmarshal_block [] = None" by code_simp
  then show ?thesis using assms
    by (simp add: decryption_Middleware_def engine_decrypter_def DecryptingEnabled_def engine_Decrypt_def)
qed

lemma empty_body_refused_witness:
  "\<exists>w'. decryption_Middleware (engine_decrypter test_crypto \<lparr>en_publicKey = None, en_privateKey = Some (), en_label = []\<rparr>)
     (\<lambda>r w st. (Done (), WriteHeader 200 w, st + 1))
     \<lparr>rq_header = [], rq_body = Inr [], rq_RemoteAddr = [], rq_URLParam = (\<lambda>_. [])\<rparr> (ServerWriter new_writer) (0 :: nat) =
       (Done (), w', 0) \<and> status_of w' = 400"
  by (rule empty_body_refused [where priv = "()"]) (simp_all add: fresh_def new_writer_def)

end
