(* ===== verification/MetricsJson.thy ===== *)
theory MetricsJson
  imports JsonRoundtrip Metrics
begin

text \<open>
  The JSON form of \<open>model.Metrics\<close> (its struct tags) as \<open>encoding/json\<close> writes and reads it:
  \<open>omitempty\<close> leaves out nil pointers, the hash is not part of it, a double that is not finite
  cannot be written; reading ignores unknown members and the case of the names, lets \<open>null\<close>
  reset a pointer, and fails on a member of the wrong kind. The lemmas: the numbers written are
  JSON numbers that read back to the same value, and a metric or a list of metrics that was
  written is read back up to its hash.
\<close>

section \<open>Writing numbers\<close>

text \<open>\<open>strconv.AppendFloat(b, f, 'e', -1, 64)\<close> on the shortest decimal.\<close>

definition exponent_parts :: "nat \<times> int \<Rightarrow> gostring \<times> int" where
  "exponent_parts de = (case de of (d, e) \<Rightarrow>
     (let ds = dec_string d
      in (hd ds # (if length ds > 1 then CHR ''.'' # tl ds else []), e + int (length ds) - 1)))"

definition exponent_text :: "nat \<times> int \<Rightarrow> gostring" where
  "exponent_text de = (case exponent_parts de of (m, x) \<Rightarrow>
     m @ CHR ''e'' # (if x < 0 then CHR ''-'' else CHR ''+'') # pad_zeros 2 (dec_string (nat \<bar>x\<bar>)))"

text \<open>The clean-up of \<open>e-09\<close> to \<open>e-9\<close>.\<close>

definition clean_exponent :: "gostring \<Rightarrow> gostring" where
  "clean_exponent b =
     (let n = length b
      in if 4 \<le> n \<and> b ! (n - 4) = CHR ''e'' \<and> (b ! (n - 3) = CHR ''-'' \<or> b ! (n - 3) = CHR ''+'') \<and> b ! (n - 2) = CHR ''0''
         then take (n - 2) b @ [b ! (n - 1)] else b)"

text \<open>The magnitudes of the constants \<open>1e-6\<close> and \<open>1e21\<close>.\<close>

definition small_mag :: nat where
  "small_mag = 0x3EB0C6F7A0B5ED8D"

definition large_mag :: nat where
  "large_mag = 0x444B1AE4D6E2EF50"

definition json_float :: "float64 \<Rightarrow> gostring" where
  "json_float x =
     (let m = f64_mag x
      in if m \<noteq> 0 \<and> (m < small_mag \<or> large_mag \<le> m)
         then clean_exponent ((if f64_neg x then ''-'' else []) @ exponent_text (f64_shortest m 1383))
         else format_float x)"

section \<open>Writing metrics\<close>

definition metrics_json :: "metrics \<Rightarrow> goerror + json" where
  "metrics_json m =
     (case m_Value m of
        Some v \<Rightarrow>
          if f64_finite v then
            Inr (JObj ([(''id'', JStr (m_ID m)), (''type'', JStr (m_MType m))] @
              (case m_Delta m of None \<Rightarrow> [] | Some d \<Rightarrow> [(''delta'', JNum (format_int d))]) @
              [(''value'', JNum (json_float v))]))
          else Inl (Foreign (''json: unsupported value: '' @ format_float v))
      | None \<Rightarrow>
          Inr (JObj ([(''id'', JStr (m_ID m)), (''type'', JStr (m_MType m))] @
            (case m_Delta m of None \<Rightarrow> [] | Some d \<Rightarrow> [(''delta'', JNum (format_int d))]))))"

fun metrics_list_json :: "metrics option list \<Rightarrow> goerror + json list" where
  "metrics_list_json [] = Inr []"
| "metrics_list_json (p # ps) =
     (case (case p of None \<Rightarrow> Inr JNull | Some m \<Rightarrow> metrics_json m) of
        Inl e \<Rightarrow> Inl e
      | Inr v \<Rightarrow> (case metrics_list_json ps of Inl e \<Rightarrow> Inl e | Inr vs \<Rightarrow> Inr (v # vs)))"

definition Marshal :: "metrics \<Rightarrow> goerror + gostring" where
  "Marshal m = (case metrics_json m of Inl e \<Rightarrow> Inl e | Inr v \<Rightarrow> Inr (json_print v))"

definition MarshalIndent :: "metrics \<Rightarrow> goerror + gostring" where
  "MarshalIndent m = (case metrics_json m of Inl e \<Rightarrow> Inl e | Inr v \<Rightarrow> Inr (json_indent 0 v))"

definition Marshal_list :: "metrics option list \<Rightarrow> goerror + gostring" where
  "Marshal_list ps = (case metrics_list_json ps of Inl e \<Rightarrow> Inl e | Inr vs \<Rightarrow> Inr (json_print (JArr vs)))"

section \<open>Reading metrics\<close>

definition decode_member :: "gostring \<Rightarrow> json \<Rightarrow> metrics \<Rightarrow> metrics option" where
  "decode_member k v m =
     (let n = map lower k
      in if n = ''id'' then
           (case v of JStr s \<Rightarrow> Some (m\<lparr>m_ID := s\<rparr>) | JNull \<Rightarrow> Some m | _ \<Rightarrow> None)
         else if n = ''type'' then
           (case v of JStr s \<Rightarrow> Some (m\<lparr>m_MType := s\<rparr>) | JNull \<Rightarrow> Some m | _ \<Rightarrow> None)
         else if n = ''delta'' then
           (case v of
              JNum t \<Rightarrow> (case parse_int t of None \<Rightarrow> None | Some d \<Rightarrow> Some (m\<lparr>m_Delta := Some d\<rparr>))
            | JNull \<Rightarrow> Some (m\<lparr>m_Delta := None\<rparr>) | _ \<Rightarrow> None)
         else if n = ''value'' then
           (case v of
              JNum t \<Rightarrow> (case parse_float t of None \<Rightarrow> None | Some x \<Rightarrow> Some (m\<lparr>m_Value := Some x\<rparr>))
            | JNull \<Rightarrow> Some (m\<lparr>m_Value := None\<rparr>) | _ \<Rightarrow> None)
         else Some m)"

fun decode_members :: "(gostring \<times> json) list \<Rightarrow> metrics \<Rightarrow> metrics option" where
  "decode_members [] m = Some m"
| "decode_members ((k, v) # kvs) m =
     (case decode_member k v m of None \<Rightarrow> None | Some m' \<Rightarrow> decode_members kvs m')"

definition zero_metrics :: metrics where
  "zero_metrics = \<lparr>m_ID = [], m_MType = [], m_Delta = None, m_Value = None, m_Hash = []\<rparr>"

text \<open>A \<open>*Metrics\<close>: \<open>null\<close> is the nil pointer.\<close>

definition decode_pointer :: "json \<Rightarrow> metrics option option" where
  "decode_pointer v =
     (case v of
        JNull \<Rightarrow> Some None
      | JObj kvs \<Rightarrow> (case decode_members kvs zero_metrics of None \<Rightarrow> None | Some m \<Rightarrow> Some (Some m))
      | _ \<Rightarrow> None)"

fun decode_pointers :: "json list \<Rightarrow> metrics option list option" where
  "decode_pointers [] = Some []"
| "decode_pointers (v # vs) =
     (case decode_pointer v of None \<Rightarrow> None
      | Some p \<Rightarrow> (case decode_pointers vs of None \<Rightarrow> None | Some ps \<Rightarrow> Some (p # ps)))"

definition Unmarshal :: "gostring \<Rightarrow> metrics option option" where
  "Unmarshal b = (case parse_json b of None \<Rightarrow> None | Some v \<Rightarrow> decode_pointer v)"

definition Unmarshal_list :: "gostring \<Rightarrow> metrics option list option" where
  "Unmarshal_list b =
     (case parse_json b of
        Some JNull \<Rightarrow> Some [] | Some (JArr vs) \<Rightarrow> decode_pointers vs | _ \<Rightarrow> None)"

section \<open>The numbers are JSON numbers\<close>

lemma dec_string_hd: "0 < n \<Longrightarrow> hd (dec_string n) \<noteq> CHR ''0''"
proof (induction n rule: dec_string.induct)
  case (1 n)
  show ?case
  proof (cases "n < 10")
    case True
    then have "digit_char n \<noteq> CHR ''0''" using digit_char_simps(2) [of n] 1 by (metis is_digit_0(2) less_irrefl)
    then show ?thesis using True by (subst dec_string.simps) simp
  next
    case False
    then have "hd (dec_string (n div 10)) \<noteq> CHR ''0''" using 1 by simp
    then show ?thesis using False by (subst dec_string.simps) simp
  qed
qed

lemma digit_char_0: "digit_char 0 = CHR ''0''"
  by code_simp

lemma dec_string_0: "dec_string 0 = ''0''"
  by (subst dec_string.simps) (simp add: digit_char_0)

lemma digits_span:
  assumes "list_all is_digit s" and "r = [] \<or> \<not> is_digit (hd r)"
  shows "takeWhile is_digit (s @ r) = s" "dropWhile is_digit (s @ r) = r"
  using assms by (induction s) (auto simp: neq_Nil_conv takeWhile_eq_Nil_iff dropWhile_eq_self_iff)

lemma scan_int_dec:
  assumes "r = [] \<or> \<not> is_digit (hd r)"
  shows "scan_int (dec_string n @ r) = Some (dec_string n, r)"
proof (cases "n = 0")
  case True
  then show ?thesis by (simp add: dec_string_0 scan_int_def)
next
  case False
  obtain c cs where c: "dec_string n = c # cs" by (cases "dec_string n") auto
  have d: "list_all is_digit (dec_string n)" using dec_string_digits by (simp add: list_all_iff)
  then have "c \<noteq> CHR ''0''" "is_digit c" using False dec_string_hd [of n] c by auto
  then show ?thesis using digits_span [OF d assms] c by (simp add: scan_int_def)
qed

text \<open>The optional fraction and exponent of a number.\<close>

definition frac_text :: "gostring \<Rightarrow> bool" where
  "frac_text f \<longleftrightarrow> f = [] \<or> (\<exists>fs. f = CHR ''.'' # fs \<and> fs \<noteq> [] \<and> list_all is_digit fs)"

definition exp_text :: "gostring \<Rightarrow> bool" where
  "exp_text e \<longleftrightarrow> e = [] \<or> (\<exists>sg es. e = CHR ''e'' # sg # es \<and> (sg = CHR ''+'' \<or> sg = CHR ''-'') \<and> es \<noteq> [] \<and> list_all is_digit es)"

lemma not_digit [simp]: "\<not> is_digit (CHR ''.'')" "\<not> is_digit (CHR ''e'')" "\<not> is_digit (CHR ''-'')" "\<not> is_digit (CHR ''+'')"
  by (simp_all add: is_digit_def char_code_def)

lemma scan_exp_text: "exp_text e \<Longrightarrow> scan_exp e = Some (e, [])"
  using digits_span [of _ "[]"] by (fastforce simp: exp_text_def scan_exp_def neq_Nil_conv Let_def)

lemma exp_text_start: "exp_text e \<Longrightarrow> e = [] \<or> (\<exists>u. e = CHR ''e'' # u)"
  by (auto simp: exp_text_def)

lemma scan_frac_text:
  assumes "frac_text f" and "exp_text e"
  shows "scan_frac (f @ e) = Some (f, e)"
proof (cases "f = []")
  case True
  then show ?thesis using exp_text_start [OF assms(2)] by (auto simp: scan_frac_def split: list.splits)
next
  case False
  then obtain fs where f: "f = CHR ''.'' # fs" "fs \<noteq> []" "list_all is_digit fs"
    using assms(1) by (auto simp: frac_text_def)
  then obtain d ds where d: "fs = d # ds" by (cases fs) auto
  have "e = [] \<or> \<not> is_digit (hd e)" using exp_text_start [OF assms(2)] by auto
  from digits_span [OF f(3) this] show ?thesis using f d by (simp add: scan_frac_def)
qed

lemma number_ok_parts:
  assumes "frac_text f" and "exp_text e"
  shows "number_ok ((if neg then ''-'' else []) @ dec_string n @ f @ e)"
proof -
  have "f @ e = [] \<or> \<not> is_digit (hd (f @ e))"
    using assms(1) exp_text_start [OF assms(2)] by (auto simp: frac_text_def)
  note i = scan_int_dec [OF this, of n] and fe = scan_frac_text [OF assms] scan_exp_text [OF assms(2)]
  obtain c cs where c: "dec_string n = c # cs" "is_digit c"
    using dec_string_digits [of n] by (cases "dec_string n") auto
  then have "c \<noteq> CHR ''-''" by (auto simp: is_digit_def char_code_def)
  then show ?thesis using i fe c
    by (cases neg) (simp_all add: number_ok_def scan_number_def)
qed

lemma number_ok_int: "number_ok (format_int d)"
  using number_ok_parts [of "[]" "[]" True] number_ok_parts [of "[]" "[]" False]
  by (simp add: format_int_def frac_text_def exp_text_def)

lemma frac_pad: "0 < k \<Longrightarrow> n < 10 ^ k \<Longrightarrow> frac_text (CHR ''.'' # pad_zeros k (dec_string n))"
  using pad_zeros_props [of k n] by (auto simp: frac_text_def)

lemma plain_decimal_parts: "0 < d \<Longrightarrow> \<exists>n f. plain_decimal (d, e) = dec_string n @ f \<and> frac_text f"
proof (cases "0 \<le> e")
  case True
  assume d: "0 < d"
  have "\<exists>n. dec_string d @ replicate k (CHR ''0'') = dec_string n" for k
  proof (induction k)
    case (Suc k)
    then obtain n where n: "dec_string d @ replicate k (CHR ''0'') = dec_string n" by blast
    have "hd (dec_string d @ replicate k (CHR ''0'')) \<noteq> CHR ''0''" using d dec_string_hd [of d] by simp
    then have "0 < n" using n by (cases "n = 0") (simp_all add: dec_string_0)
    then have "dec_string (n * 10) = dec_string n @ ''0''"
      by (subst dec_string.simps) (simp add: digit_char_0)
    then have "dec_string d @ replicate (Suc k) (CHR ''0'') = dec_string (n * 10)"
      using n by (simp only: replicate_Suc replicate_append_same [symmetric] append_assoc [symmetric])
    then show ?case by blast
  qed auto
  then obtain n where "dec_string d @ replicate (nat e) (CHR ''0'') = dec_string n" by blast
  then show ?thesis using True d by (intro exI [of _ n] exI [of _ "[]"]) (simp add: plain_decimal_def frac_text_def)
next
  case False
  then have "frac_text (CHR ''.'' # pad_zeros (nat (- e)) (dec_string (d mod 10 ^ nat (- e))))"
    by (intro frac_pad) auto
  then show ?thesis using False by (auto simp: plain_decimal_def Let_def)
qed

lemma number_ok_plain:
  assumes "f64_finite x"
  shows "number_ok (format_float x)"
proof (cases "f64_mag x = 0")
  case True
  then show ?thesis using number_ok_parts [of "[]" "[]" "f64_neg x" 0] assms
    by (cases "f64_neg x") (simp_all add: format_float_def f64_finite_simps frac_text_def exp_text_def dec_string_0)
next
  case False
  obtain d e where de: "f64_shortest (f64_mag x) 1383 = (d, e)" by fastforce
  then have "f64_scaled 10 d e = f64_mag x" using f64_shortest_scaled assms by (simp add: f64_finite_def)
  then have "0 < d" using False by (cases "d = 0") (auto simp: f64_scaled_def split: if_splits)
  then obtain n f where "plain_decimal (d, e) = dec_string n @ f" "frac_text f" using plain_decimal_parts by blast
  then show ?thesis using number_ok_parts [of f "[]" "f64_neg x" n] assms False de
    by (cases "f64_neg x") (simp_all add: format_float_def f64_finite_simps exp_text_def)
qed

section \<open>The exponent format\<close>

lemma digit_char_val: "is_digit c \<Longrightarrow> digit_char (digit_val c) = c \<and> digit_val c < 10"
  by (auto simp: is_digit_def digit_val_def digit_char_def)

lemma dec_string_digit: "is_digit c \<Longrightarrow> dec_string (digit_val c) = [c]"
  using digit_char_val [of c] by (subst dec_string.simps) simp

lemma dec_string_long: "10 \<le> k \<Longrightarrow> 2 \<le> length (dec_string k)"
proof -
  assume "10 \<le> k"
  then have "dec_string k = dec_string (k div 10) @ [digit_char (k mod 10)]" by (subst dec_string.simps) simp
  then show ?thesis by (simp add: Suc_le_eq)
qed

lemma clean_exponent_text:
  assumes "sg = CHR ''+'' \<or> sg = CHR ''-''"
  shows "clean_exponent (u @ CHR ''e'' # sg # pad_zeros 2 (dec_string k)) = u @ CHR ''e'' # sg # dec_string k"
proof (cases "k < 10")
  case True
  then have "dec_string k = [digit_char k]" by (subst dec_string.simps) simp
  then show ?thesis using assms by (auto simp: clean_exponent_def pad_zeros_def nth_append)
next
  case False
  let ?es = "dec_string k"
  have l: "2 \<le> length ?es" using False by (intro dec_string_long) simp
  have h: "?es ! 0 \<noteq> CHR ''0''" using False dec_string_hd [of k] by (simp add: hd_conv_nth)
  have d: "i < length ?es \<Longrightarrow> ?es ! i \<noteq> CHR ''e''" for i
    using dec_string_digits [of k] not_digit(2) nth_mem by metis
  let ?b = "u @ CHR ''e'' # sg # ?es" and ?n = "length u + length ?es + 2"
  have "\<not> (?b ! (?n - 4) = CHR ''e'' \<and> ?b ! (?n - 2) = CHR ''0'')"
  proof -
    consider "length ?es = 2" | "length ?es = 3" | "4 \<le> length ?es" using l by linarith
    then show ?thesis
    proof cases
      case 1
      then show ?thesis using h by (simp add: nth_append)
    next
      case 2
      then show ?thesis using assms by (auto simp: nth_append)
    next
      case 3
      then have "?n - 4 = length u + Suc (Suc (length ?es - 4))" by simp
      then have "?b ! (?n - 4) = ?es ! (length ?es - 4)" by (simp only: nth_append_length_plus nth_Cons_Suc)
      then show ?thesis using d [of "length ?es - 4"] 3 by simp
    qed
  qed
  then show ?thesis using l by (auto simp: clean_exponent_def pad_zeros_def)
qed

lemma clean_exponent_parts:
  assumes c: "dec_string d = c # cs"
  shows "clean_exponent ((if neg then ''-'' else []) @ exponent_text (d, e)) =
    (if neg then ''-'' else []) @ [c] @ (if cs = [] then [] else CHR ''.'' # cs) @
      CHR ''e'' # (if e + int (length cs) < 0 then CHR ''-'' else CHR ''+'') # dec_string (nat \<bar>e + int (length cs)\<bar>)"
proof -
  let ?f = "if cs = [] then [] else CHR ''.'' # cs" and ?x = "e + int (length cs)"
  let ?sg = "if ?x < 0 then CHR ''-'' else CHR ''+''" and ?k = "nat \<bar>?x\<bar>"
  have "exponent_text (d, e) = [c] @ ?f @ CHR ''e'' # ?sg # pad_zeros 2 (dec_string ?k)"
    using c by (simp add: exponent_text_def exponent_parts_def Let_def)
  moreover have "?sg = CHR ''+'' \<or> ?sg = CHR ''-''" by simp
  ultimately show ?thesis using clean_exponent_text [of ?sg "(if neg then ''-'' else []) @ [c] @ ?f" ?k]
    by (simp only: append_assoc)
qed

lemma number_ok_exponent:
  assumes "0 < d"
  shows "number_ok (clean_exponent ((if neg then ''-'' else []) @ exponent_text (d, e)))"
proof -
  obtain c cs where c: "dec_string d = c # cs" by (cases "dec_string d") auto
  then have dg: "is_digit c" "list_all is_digit cs" using dec_string_digits [of d] by (auto simp: list_all_iff)
  let ?f = "if cs = [] then [] else CHR ''.'' # cs" and ?x = "e + int (length cs)"
  let ?sg = "if ?x < 0 then CHR ''-'' else CHR ''+''" and ?k = "nat \<bar>?x\<bar>"
  have "frac_text ?f" using dg by (auto simp: frac_text_def)
  moreover have "exp_text (CHR ''e'' # ?sg # dec_string ?k)"
    using dec_string_digits [of ?k] by (auto simp: exp_text_def list_all_iff)
  ultimately have "number_ok ((if neg then ''-'' else []) @ [c] @ ?f @ CHR ''e'' # ?sg # dec_string ?k)"
    using number_ok_parts [of ?f "CHR ''e'' # ?sg # dec_string ?k" neg "digit_val c"] dg by (simp add: dec_string_digit)
  then show ?thesis by (simp only: clean_exponent_parts [OF c] append_assoc)
qed

lemma shortest_pos:
  assumes "f64_finite x" and "f64_mag x \<noteq> 0"
  obtains d e where "f64_shortest (f64_mag x) 1383 = (d, e)" "f64_scaled 10 d e = f64_mag x" "0 < d"
proof -
  obtain d e where de: "f64_shortest (f64_mag x) 1383 = (d, e)" by fastforce
  then have s: "f64_scaled 10 d e = f64_mag x" using f64_shortest_scaled assms by (simp add: f64_finite_def)
  then have "0 < d" using assms(2) by (cases "d = 0") (auto simp: f64_scaled_def split: if_splits)
  with de s that show thesis by blast
qed

lemma json_float_cases:
  assumes "f64_finite x"
  obtains (plain) "json_float x = format_float x"
  | (exponent) d e where "f64_shortest (f64_mag x) 1383 = (d, e)" "f64_scaled 10 d e = f64_mag x" "0 < d"
      "json_float x = clean_exponent ((if f64_neg x then ''-'' else []) @ exponent_text (d, e))"
proof (cases "f64_mag x \<noteq> 0 \<and> (f64_mag x < small_mag \<or> large_mag \<le> f64_mag x)")
  case True
  then obtain d e where de: "f64_shortest (f64_mag x) 1383 = (d, e)" "f64_scaled 10 d e = f64_mag x" "0 < d"
    using shortest_pos [OF assms] by blast
  show thesis using True de by (intro exponent [of d e]) (simp_all add: json_float_def Let_def)
next
  case False
  show thesis using False by (intro plain) (auto simp: json_float_def Let_def)
qed

lemma number_ok_float: "f64_finite x \<Longrightarrow> number_ok (json_float x)"
  by (cases rule: json_float_cases [of x]) (simp_all only: number_ok_exponent number_ok_plain)

section \<open>The numbers read back\<close>

definition sci_char :: "char \<Rightarrow> bool" where
  "sci_char c \<longleftrightarrow> is_digit c \<or> c \<in> {CHR ''.'', CHR ''e'', CHR ''+'', CHR ''-''}"

lemma sci_char_props:
  "sci_char c \<Longrightarrow> lower c = c \<and> c \<noteq> CHR ''x'' \<and> c \<noteq> CHR ''_'' \<and> c \<noteq> CHR ''i'' \<and> c \<noteq> CHR ''n''"
  by (auto simp: sci_char_def lower_def is_digit_def char_code_def)

lemma sci_text_parse:
  assumes "is_digit c" and "list_all sci_char cs" and s: "s = (if neg then CHR ''-'' # c # cs else c # cs)"
  shows "split_sign s = (neg, c # cs)" "parse_special s = None" "CHR ''_'' \<notin> set s"
    "\<not> (2 < length (c # cs) \<and> hd (c # cs) = CHR ''0'' \<and> lower ((c # cs) ! 1) = CHR ''x'')"
proof -
  have c: "sci_char c" using assms(1) by (simp add: sci_char_def)
  have all: "x \<in> set (c # cs) \<Longrightarrow> lower x = x \<and> x \<noteq> CHR ''x'' \<and> x \<noteq> CHR ''_'' \<and> x \<noteq> CHR ''i'' \<and> x \<noteq> CHR ''n''" for x
    using c assms(2) sci_char_props by (auto simp: list_all_iff)
  have nc: "c \<noteq> CHR ''-''" "c \<noteq> CHR ''+''" using assms(1) by (auto simp: is_digit_def char_code_def)
  then show 1: "split_sign s = (neg, c # cs)" using s by (simp add: split_sign_def)
  have "lower c = c" "c \<noteq> CHR ''i''" "c \<noteq> CHR ''n''" using all [of c] by simp_all
  moreover have "lower (CHR ''-'') = CHR ''-''" by (simp add: lower_def char_code_def)
  ultimately show "parse_special s = None" using s 1 by (simp add: parse_special_def)
  show "CHR ''_'' \<notin> set s" using s all by auto
  show "\<not> (2 < length (c # cs) \<and> hd (c # cs) = CHR ''0'' \<and> lower ((c # cs) ! 1) = CHR ''x'')"
    using all [OF nth_mem [of 1 "c # cs"]] by (cases cs) auto
qed

lemma scan_exponent_digits:
  "list_all is_digit s \<Longrightarrow> foldl (\<lambda>n c. n * 10 + digit_val c) k s < 10000 \<Longrightarrow>
   scan_exponent s (int k) = (int (foldl (\<lambda>n c. n * 10 + digit_val c) k s), [])"
proof (induction s arbitrary: k)
  case (Cons c s)
  have mono: "n \<le> foldl (\<lambda>n c. n * 10 + digit_val c) n t" for n t
    by (simp add: dec_value_append trans_le_add1)
  have "k * 10 + digit_val c \<le> foldl (\<lambda>n c. n * 10 + digit_val c) k (c # s)" using mono by simp
  then have "k < 10000" using Cons.prems(2) by linarith
  then show ?case using Cons.IH [of "k * 10 + digit_val c"] Cons.prems by simp
qed simp

text \<open>How long the shortest decimal can be, and so how large an exponent: far below the 10000 at
  which the parser stops counting.\<close>

definition digits_bound :: nat where
  "digits_bound = 3172"

lemma f64_units_bound: "m < f64_inf_mag \<Longrightarrow> f64_units m \<le> 10 ^ 2098"
proof -
  assume m: "m < f64_inf_mag"
  define e f where "e = m div 2 ^ 52" and "f = m mod 2 ^ 52"
  have f: "f < 2 ^ 52" by (simp add: f_def)
  have "e < 2047" using m by (simp add: e_def f64_inf_mag_def less_mult_imp_div_less)
  then have p: "(2 :: nat) ^ (e - 1) \<le> 2 ^ 2045" by (intro power_increasing) auto
  have "f + 2 ^ 52 \<le> 2 ^ 53" using f by simp
  then have "(f + 2 ^ 52) * 2 ^ (e - 1) \<le> 2 ^ 53 * 2 ^ 2045" using p by (rule mult_le_mono)
  moreover have "f \<le> f * 2 ^ (e - 1)" by simp
  then have "f \<le> (f + 2 ^ 52) * 2 ^ (e - 1)" unfolding add_mult_distrib by (rule trans_le_add1)
  ultimately have "f64_units m \<le> 2 ^ 53 * 2 ^ 2045" 
    by (auto simp only: f64_units_def Let_def e_def [symmetric] f_def [symmetric] split: if_split)
  also have "\<dots> = 2 ^ (53 + 2045)" by (simp only: power_add)
  also have "\<dots> \<le> 10 ^ (53 + 2045)" by (rule power_mono) simp_all
  finally show ?thesis by (simp only: arith_simps)
qed

lemma f64_decimal_at_bound:
  assumes "m < f64_inf_mag" and "- 1074 \<le> e" and "f64_decimal_at m e = Some d"
  shows "d \<le> 10 ^ digits_bound + 1"
proof -
  define n where "n = (if 0 \<le> e then f64_units m else f64_units m * 10 ^ nat (- e))"
  define dd :: nat where "dd = (if 0 \<le> e then 10 ^ nat e * 2 ^ 1074 else 2 ^ 1074)"
  have "d = n div dd \<or> d = n div dd + 1"
    using assms(3) unfolding f64_decimal_at_def Let_def n_def [symmetric] dd_def [symmetric] by (auto split: if_splits)
  then have "d \<le> n + 1" using div_le_dividend [of n dd] by linarith
  moreover have "n \<le> 10 ^ 2098 * 10 ^ 1074"
  proof -
    have "(10 :: nat) ^ nat (- e) \<le> 10 ^ 1074" using assms(2) by (intro power_increasing) auto
    then have "f64_units m * 10 ^ nat (- e) \<le> 10 ^ 2098 * 10 ^ 1074"
      using f64_units_bound [OF assms(1)] by (intro mult_le_mono)
    moreover have "f64_units m \<le> f64_units m * 10 ^ nat (- e)" by simp
    ultimately show ?thesis by (auto simp only: n_def split: if_split)
  qed
  moreover have "(10 :: nat) ^ 2098 * 10 ^ 1074 = 10 ^ digits_bound"
    unfolding digits_bound_def power_add [symmetric] by (simp only: arith_simps)
  ultimately show ?thesis by linarith
qed

lemma f64_shortest_bound:
  assumes "m < f64_inf_mag"
  shows "f64_shortest m i = (d, e) \<Longrightarrow> d \<le> 10 ^ digits_bound + 1 \<and> - 1074 \<le> e \<and> e \<le> int i"
proof (induction i)
  case 0
  have "(5 :: nat) ^ 1074 \<le> 10 ^ 1074" by (rule power_mono) simp_all
  then have "f64_units m * 5 ^ 1074 \<le> 10 ^ 2098 * 10 ^ 1074"
    using f64_units_bound [OF assms] by (intro mult_le_mono)
  also have "\<dots> = 10 ^ digits_bound" unfolding digits_bound_def power_add [symmetric] by (simp only: arith_simps)
  finally have "f64_units m * 5 ^ 1074 \<le> 10 ^ digits_bound" .
  moreover have "d = f64_units m * 5 ^ 1074" "e = - 1074" using 0 by (simp_all only: f64_shortest.simps prod.inject)
  ultimately show ?case by linarith
next
  case (Suc i)
  show ?case
  proof (cases "f64_decimal_at m (int i - 1073)")
    case None
    then show ?thesis using Suc by simp
  next
    case (Some c)
    then have "d = c" "e = int i - 1073" using Suc.prems by simp_all
    then show ?thesis using f64_decimal_at_bound [OF assms _ Some] by simp
  qed
qed

lemma length_le_power: "n \<le> 10 ^ k + 1 \<Longrightarrow> length (dec_string n) \<le> k + 1"
proof -
  assume n: "n \<le> 10 ^ k + 1"
  have "(10 :: nat) ^ k + 1 < 10 ^ (k + 1)"
  proof -
    have "1 \<le> (10 :: nat) ^ k" by simp
    then show ?thesis unfolding power_add power_one_right by linarith
  qed
  then show ?thesis using n length_dec_string [of "k + 1" n] by simp
qed

lemma parse_exponent_text:
  assumes "dec_string d = c # cs" and "nat \<bar>x\<bar> < 10000" and "0 < d"
    and "s = [c] @ (if cs = [] then [] else CHR ''.'' # cs) @ CHR ''e'' # (if x < 0 then CHR ''-'' else CHR ''+'') # dec_string (nat \<bar>x\<bar>)"
    and "f64_scaled 10 d (x - int (length cs)) < f64_inf_mag"
  shows "parse_float ((if neg then ''-'' else []) @ s) = Some (f64_pack neg (f64_scaled 10 d (x - int (length cs))))"
proof -
  let ?es = "dec_string (nat \<bar>x\<bar>)" and ?sg = "if x < 0 then CHR ''-'' else CHR ''+''"
  let ?tail = "CHR ''e'' # ?sg # ?es"
  have dg: "is_digit c" "list_all is_digit cs" and de: "list_all is_digit ?es"
    using dec_string_digits [of d] dec_string_digits [of "nat \<bar>x\<bar>"] assms(1) by (auto simp: list_all_iff)
  obtain u where s: "s = c # u" using assms(4) by auto
  have u: "list_all sci_char u"
    using s assms(4) dg de by (cases "cs = []") (auto simp: list_all_iff sci_char_def)
  note p = sci_text_parse [where neg = neg, OF dg(1) u refl]
  have v: "foldl (\<lambda>n c. n * 10 + digit_val c) (digit_val c) cs = d"
    using dec_value_dec_string [of d] assms(1) by (simp add: dec_value_def)
  have m: "scan_mantissa False s 0 0 False False = (d, int (length cs), True, ?tail)"
  proof (cases "cs = []")
    case True
    then show ?thesis using assms(4) dg(1) v scan_mantissa_digits [of "[c]" ?tail 0 0 False False] by simp
  next
    case False
    have "scan_mantissa False s 0 0 False False = scan_mantissa False (cs @ ?tail) (digit_val c) 0 True True"
      using assms(4) dg(1) False scan_mantissa_digits [of "[c]" "CHR ''.'' # cs @ ?tail" 0 0 False False] by simp
    then show ?thesis using scan_mantissa_digits [OF dg(2), of ?tail "digit_val c" 0 True True] v by simp
  qed
  have "scan_exponent ?es (int 0) = (int (nat \<bar>x\<bar>), [])"
    using scan_exponent_digits [OF de, of 0] assms(2) dec_value_dec_string [of "nat \<bar>x\<bar>"] by (simp add: dec_value_def)
  moreover obtain e es where "?es = e # es" "is_digit e" using de by (cases ?es) auto
  ultimately have x: "parse_exponent False ?tail = Some (x, [])"
    by (simp add: parse_exponent_def split_sign_def lower_def char_code_def)
  let ?S = "if neg then CHR ''-'' # c # u else c # u"
  have hex: "(2 < length (c # u) \<and> hd (c # u) = CHR ''0'' \<and> lower ((c # u) ! 1) = CHR ''x'') = False"
    using p(4) by (simp only:)
  have ne: "(f64_scaled 10 d (x - int (length cs)) = f64_inf_mag) = False" using assms(5) by auto
  have us: "(CHR ''_'' \<in> set ?S) = False" using p(3) by (simp only:)
  have "parse_number ?S = Some (f64_pack neg (f64_scaled 10 d (x - int (length cs))))"
    by (simp only: parse_number_def p(1) prod.case Let_def hex if_False m [unfolded s] x option.case us ne simp_thms)
  moreover have "(if neg then ''-'' else []) @ s = ?S" using s by (simp only: append.simps if_distrib [of "\<lambda>z. z @ c # u"])
  ultimately show ?thesis by (simp only: parse_float_def p(2) option.case)
qed

lemma parse_json_float:
  assumes "f64_finite v"
  shows "parse_float (json_float v) = Some v"
proof (cases rule: json_float_cases [OF assms])
  case 1
  then show ?thesis using parse_float_format_float assms by (simp add: f64_finite_simps)
next
  case (2 d e)
  have fin: "f64_mag v < f64_inf_mag" using assms by (simp add: f64_finite_def)
  obtain c cs where c: "dec_string d = c # cs" by (cases "dec_string d") auto
  have b: "d \<le> 10 ^ digits_bound + 1" "- 1074 \<le> e" "e \<le> 1383"
    using f64_shortest_bound [OF fin 2(1)] by simp_all
  have "length (dec_string d) \<le> digits_bound + 1" using b(1) by (rule length_le_power)
  then have "length cs \<le> 3172" using c by (simp add: digits_bound_def)
  then have x: "nat \<bar>e + int (length cs)\<bar> < 10000" using b(2,3) by linarith
  have "f64_scaled 10 d (e + int (length cs) - int (length cs)) = f64_mag v" using 2(2) by simp
  then show ?thesis
    using parse_exponent_text [OF c x 2(3) refl, of "f64_neg v"] fin
    unfolding 2(4) clean_exponent_parts [OF c] by simp
qed

section \<open>Metrics read back\<close>

text \<open>What the decoder restores of a metric: all but the hash.\<close>

definition without_hash :: "metrics \<Rightarrow> metrics" where
  "without_hash m = m\<lparr>m_Hash := []\<rparr>"

text \<open>A metric that JSON can carry unchanged.\<close>

definition encodable :: "metrics \<Rightarrow> bool" where
  "encodable m \<longleftrightarrow> valid_utf8 (m_ID m) \<and> valid_utf8 (m_MType m) \<and>
     (case m_Value m of None \<Rightarrow> True | Some v \<Rightarrow> f64_finite v)"

lemma valid_names [simp]: "valid_utf8 ''id''" "valid_utf8 ''type''" "valid_utf8 ''delta''" "valid_utf8 ''value''"
  by (rule valid_utf8_ascii; simp add: char_code_def)+

lemma decode_known [simp]:
  "decode_member ''id'' (JStr s) m = Some (m\<lparr>m_ID := s\<rparr>)"
  "decode_member ''type'' (JStr s) m = Some (m\<lparr>m_MType := s\<rparr>)"
  "decode_member ''delta'' (JNum (format_int d)) m = Some (m\<lparr>m_Delta := Some d\<rparr>)"
  "f64_finite v \<Longrightarrow> decode_member ''value'' (JNum (json_float v)) m = Some (m\<lparr>m_Value := Some v\<rparr>)"
  by (simp_all add: decode_member_def Let_def lower_def char_code_def parse_json_float)

definition metrics_members :: "metrics \<Rightarrow> (gostring \<times> json) list" where
  "metrics_members m = [(''id'', JStr (m_ID m)), (''type'', JStr (m_MType m))] @
    (case m_Delta m of None \<Rightarrow> [] | Some d \<Rightarrow> [(''delta'', JNum (format_int d))]) @
    (case m_Value m of None \<Rightarrow> [] | Some v \<Rightarrow> [(''value'', JNum (json_float v))])"

lemma metrics_json_ok:
  assumes "encodable m"
  shows "metrics_json m = Inr (JObj (metrics_members m))" "json_ok (JObj (metrics_members m))"
    "json_depth (JObj (metrics_members m)) = 1"
    "decode_pointer (JObj (metrics_members m)) = Some (Some (without_hash m))"
proof -
  obtain i t d v h where m: "m = \<lparr>m_ID = i, m_MType = t, m_Delta = d, m_Value = v, m_Hash = h\<rparr>" by (cases m) auto
  have fin: "v = Some x \<Longrightarrow> f64_finite x" for x using assms m by (simp add: encodable_def)
  show "metrics_json m = Inr (JObj (metrics_members m))"
    using m fin by (cases v) (simp_all add: metrics_json_def metrics_members_def)
  show "json_ok (JObj (metrics_members m))"
    using m fin assms
    by (cases d; cases v) (simp_all add: metrics_members_def encodable_def number_ok_int number_ok_float)
  show "json_depth (JObj (metrics_members m)) = 1"
    using m by (cases d; cases v) (simp_all add: metrics_members_def)
  show "decode_pointer (JObj (metrics_members m)) = Some (Some (without_hash m))"
    using m fin by (cases d; cases v)
      (simp_all add: metrics_members_def decode_pointer_def zero_metrics_def without_hash_def)
qed

lemma parse_metrics_tree: "json_ok v \<Longrightarrow> json_depth v \<le> 2 \<Longrightarrow> parse_json (json_print v) = Some v"
  by (intro parse_json_print) (simp_all add: max_nesting_depth_def)

lemma Unmarshal_Marshal:
  assumes "encodable m"
  obtains b where "Marshal m = Inr b" "Unmarshal b = Some (Some (without_hash m))"
  using that [of "json_print (JObj (metrics_members m))"] metrics_json_ok [OF assms]
    parse_metrics_tree [of "JObj (metrics_members m)"]
  by (simp only: Marshal_def Unmarshal_def sum.case option.case)

lemma metrics_list_json_ok:
  "list_all encodable ms \<Longrightarrow> \<exists>vs. metrics_list_json (map Some ms) = Inr vs \<and> list_all json_ok vs \<and>
     depths vs \<le> 1 \<and> decode_pointers vs = Some (map (\<lambda>m. Some (without_hash m)) ms)"
proof (induction ms)
  case (Cons m ms)
  then obtain vs where vs: "metrics_list_json (map Some ms) = Inr vs" "list_all json_ok vs" "depths vs \<le> 1"
      "decode_pointers vs = Some (map (\<lambda>m. Some (without_hash m)) ms)"
    by auto
  let ?v = "JObj (metrics_members m)"
  note k = metrics_json_ok [of m]
  show ?case using vs k Cons.prems
    by (intro exI [of _ "?v # vs"]) (simp del: json_depth_containers json_ok.simps)
qed simp

lemma Unmarshal_Marshal_list:
  assumes "list_all encodable ms"
  obtains b where "Marshal_list (map Some ms) = Inr b" "Unmarshal_list b = Some (map (\<lambda>m. Some (without_hash m)) ms)"
proof -
  obtain vs where v: "metrics_list_json (map Some ms) = Inr vs" "list_all json_ok vs" "depths vs \<le> 1"
      "decode_pointers vs = Some (map (\<lambda>m. Some (without_hash m)) ms)"
    using metrics_list_json_ok [OF assms] by blast
  then have "parse_json (json_print (JArr vs)) = Some (JArr vs)" by (intro parse_metrics_tree) simp_all
  with v that [of "json_print (JArr vs)"] show thesis
    by (simp only: Marshal_list_def Unmarshal_list_def sum.case option.case json.case)
qed

end
