(* ===== verification/Sending.thy ===== *)
theory Sending
  imports Retrying Encrypt MetricsJson
begin

text \<open>
  \<open>internal/agent/sending\<close>: the completion of the server address (\<open>address.go\<close>) and the sender
  (\<open>rest.go\<close>), which encrypts, compresses and signs a body, makes the request, and turns the
  answer of the HTTP client into an error value, under the retrying executor. The client is a
  parameter: \<open>Do\<close> takes the request and the state of the network. The lemmas: a completed address is
  complete; which answers are success, final failure, or worth a retry; what a body looks like
  to the server.
\<close>

section \<open>Addresses\<close>

text \<open>
  The groups of \<open>^(?:((?:http|https)://)?([^:]+))?(:\d+)$\<close>: the protocol, the host and the port.
  The host cannot contain a colon, so it ends at the first one after the protocol.
\<close>

definition is_port :: "gostring \<Rightarrow> bool" where
  "is_port s \<longleftrightarrow> (case s of [] \<Rightarrow> False | c # ds \<Rightarrow> c = CHR '':'' \<and> ds \<noteq> [] \<and> list_all is_digit ds)"

definition match_host :: "gostring \<Rightarrow> (gostring \<times> gostring) option" where
  "match_host s =
     (let host = takeWhile (\<lambda>c. c \<noteq> CHR '':'') s; port = dropWhile (\<lambda>c. c \<noteq> CHR '':'') s
      in if host \<noteq> [] \<and> is_port port then Some (host, port) else None)"

definition has_prefix :: "gostring \<Rightarrow> gostring \<Rightarrow> bool" where
  "has_prefix p s \<longleftrightarrow> take (length p) s = p"

definition match_protocol :: "gostring \<Rightarrow> gostring \<Rightarrow> (gostring \<times> gostring \<times> gostring) option" where
  "match_protocol p s =
     (if has_prefix p s then map_option (\<lambda>(h, q). (p, h, q)) (match_host (drop (length p) s)) else None)"

definition match_address :: "gostring \<Rightarrow> (gostring \<times> gostring \<times> gostring) option" where
  "match_address s =
     (case match_protocol ''http://'' s of
        Some m \<Rightarrow> Some m
      | None \<Rightarrow>
          (case match_protocol ''https://'' s of
             Some m \<Rightarrow> Some m
           | None \<Rightarrow>
               (case match_host s of
                  Some (h, p) \<Rightarrow> Some ([], h, p)
                | None \<Rightarrow> if is_port s then Some ([], [], s) else None)))"

definition enrichServerAddress :: "gostring \<Rightarrow> goerror + gostring" where
  "enrichServerAddress addr =
     (case match_address addr of
        None \<Rightarrow> Inl (Foreign (''incorrect network address: '' @ addr))
      | Some (proto, host, port) \<Rightarrow>
          Inr ((if proto = [] then ''http://'' else proto) @ (if host = [] then ''localhost'' else host) @ port))"

section \<open>Requests\<close>

record client_request =
  cr_Method :: gostring
  cr_URL :: gostring
  cr_Header :: header
  cr_Body :: gostring

record response =
  rs_StatusCode :: nat
  rs_Body :: "goerror + gostring"

definition composePostMetricByPathURL :: "gostring \<Rightarrow> gostring \<Rightarrow> gostring \<Rightarrow> gostring \<Rightarrow> gostring" where
  "composePostMetricByPathURL addr i mtype value =
     addr @ ''/update/'' @ mtype @ ''/'' @ i @ ''/'' @ value"

text \<open>A case of Go's \<open>switch\<close> without a body does nothing: only the last status is retryable.\<close>

definition sendRequest ::
    "(client_request \<Rightarrow> 'n \<Rightarrow> (goerror + response) \<times> 'n) \<Rightarrow> gostring \<Rightarrow> client_request \<Rightarrow> 'n
      \<Rightarrow> goerror option \<times> 'n" where
  "sendRequest Do addr req n =
     (case Do req n of
        (Inl err, n') \<Rightarrow> (Some (errorf (''error sending request to server '' @ addr @ '': '') err []), n')
      | (Inr resp, n') \<Rightarrow>
          (case rs_Body resp of
             Inl err \<Rightarrow>
               (Some (NewRetryableError
                  (errorf ''can't read response body from metrics send operation: '' err [])), n')
           | Inr _ \<Rightarrow>
               if rs_StatusCode resp \<noteq> StatusOK then
                 (let err = Foreign (''error response status '' @ dec_string (rs_StatusCode resp) @ '' from server '')
                  in if rs_StatusCode resp = StatusGatewayTimeout then (Some (NewRetryableError err), n')
                     else (Some err, n'))
               else (None, n')))"

section \<open>The sender\<close>

text \<open>The engine has only the public key here. \<open>CheckURL\<close> is the parsing of the URL in
  \<open>http.NewRequest\<close>; the state of an operation is that of the source of random bytes and that of
  the network.\<close>

record ('pub, 'priv) rest_sender =
  sr_addr :: gostring
  sr_secretKey :: gostring
  sr_encrypter :: "('pub, 'priv) rsa_aes_engine"
  sr_cwe :: "write_engine option"
  sr_retrier :: executor

definition NewRestSender ::
    "('pub, 'priv, 'e) crypto \<Rightarrow> (gostring \<Rightarrow> goerror + gostring) \<Rightarrow> gzip_lib
      \<Rightarrow> gostring \<Rightarrow> policy \<Rightarrow> gostring \<Rightarrow> gostring \<Rightarrow> goerror + ('pub, 'priv) rest_sender" where
  "NewRestSender cp ReadFile lib addr retryPolicy secretKey rsaKeyPath =
     (case enrichServerAddress addr of
        Inl err \<Rightarrow> Inl (errorf ''can't enrich address for sender to a proper format: '' err [])
      | Inr enrichedAddr \<Rightarrow>
          (case (if rsaKeyPath \<noteq> [] then
                   (case ReadRSAPublicKeyFromFile cp ReadFile rsaKeyPath of Inl err \<Rightarrow> Inl err | Inr pub \<Rightarrow> Inr (Some pub))
                 else Inr None) of
             Inl err \<Rightarrow> Inl (errorf ''can't read RSA public key for encryption: '' err [])
           | Inr publicKey \<Rightarrow>
               Inr \<lparr>sr_addr = enrichedAddr, sr_secretKey = secretKey,
                    sr_encrypter = builder_Build (builder_PublicKey publicKey NewRSAEngineBuilder),
                    sr_cwe = Some (NewGzipWriteEngine lib), sr_retrier = NewExecutorBuilder retryPolicy\<rparr>))"

text \<open>A request is made and sent anew in each attempt.\<close>

definition post ::
    "(gostring \<Rightarrow> goerror option) \<Rightarrow> (client_request \<Rightarrow> 'n \<Rightarrow> (goerror + response) \<times> 'n)
      \<Rightarrow> ('pub, 'priv) rest_sender \<Rightarrow> gostring \<Rightarrow> client_request \<Rightarrow> 'n \<Rightarrow> goerror option \<times> 'n" where
  "post CheckURL Do rs prefix req n =
     (case Run (sr_retrier rs)
         (\<lambda>n. case CheckURL (cr_URL req) of
            Some err \<Rightarrow> (Some (errorf prefix err []), n)
          | None \<Rightarrow> sendRequest Do (sr_addr rs) req n) n of
        (r, slept, n') \<Rightarrow> (r, n'))"

text \<open>The signature of an update by path is that of the nil payload.\<close>

definition value_request :: "('pub, 'priv) rest_sender \<Rightarrow> gostring \<Rightarrow> gostring \<Rightarrow> gostring \<Rightarrow> client_request" where
  "value_request rs i mtype value =
     \<lparr>cr_Method = ''POST'', cr_URL = composePostMetricByPathURL (sr_addr rs) i mtype value,
      cr_Header = AddSignature (sr_secretKey rs) [] (header_add ''Content-Type'' ''text/plain'' []), cr_Body = []\<rparr>"

definition SendMetricValue ::
    "(gostring \<Rightarrow> goerror option) \<Rightarrow> (client_request \<Rightarrow> 'n \<Rightarrow> (goerror + response) \<times> 'n)
      \<Rightarrow> ('pub, 'priv) rest_sender \<Rightarrow> gostring \<Rightarrow> gostring \<Rightarrow> gostring \<Rightarrow> 'n \<Rightarrow> goerror option \<times> 'n" where
  "SendMetricValue CheckURL Do rs i mtype value n =
     post CheckURL Do rs ''can't construct metric send request: '' (value_request rs i mtype value) n"

text \<open>Encryption first, then compression.\<close>

definition secured_body ::
    "('pub, 'priv, 'e) crypto \<Rightarrow> ('pub, 'priv) rest_sender \<Rightarrow> gostring \<Rightarrow> gostring \<Rightarrow> 'e
      \<Rightarrow> (goerror + gostring) outcome \<times> 'e" where
  "secured_body cp rs prefix body e =
     (case (if EncryptingEnabled (sr_encrypter rs) then engine_Encrypt cp (sr_encrypter rs) body e
            else (Done (Inr body), e)) of
        (Panic, e') \<Rightarrow> (Panic, e')
      | (Done (Inl err), e') \<Rightarrow> (Done (Inl (errorf ''can't encrypt metric update request: '' err [])), e')
      | (Done (Inr body), e') \<Rightarrow>
          (case sr_cwe rs of
             None \<Rightarrow> (Done (Inr body), e')
           | Some cwe \<Rightarrow>
               (case we_WriteFlushed cwe body 0 of
                  Inl err \<Rightarrow> (Done (Inl (errorf prefix err [])), e')
                | Inr body \<Rightarrow> (Done (Inr body), e'))))"

definition content_header :: "('pub, 'priv) rest_sender \<Rightarrow> header" where
  "content_header rs =
     (let h = header_add ''Content-Type'' ''application/json'' []
      in case sr_cwe rs of None \<Rightarrow> h | Some cwe \<Rightarrow> we_SetContentEncoding cwe h)"

definition metric_request :: "('pub, 'priv) rest_sender \<Rightarrow> gostring \<Rightarrow> client_request" where
  "metric_request rs body =
     \<lparr>cr_Method = ''POST'', cr_URL = sr_addr rs @ ''/update'',
      cr_Header = AddSignature (sr_secretKey rs) body (content_header rs), cr_Body = body\<rparr>"

definition SendMetric ::
    "('pub, 'priv, 'e) crypto \<Rightarrow> (gostring \<Rightarrow> goerror option) \<Rightarrow> (client_request \<Rightarrow> 'n \<Rightarrow> (goerror + response) \<times> 'n)
      \<Rightarrow> ('pub, 'priv) rest_sender \<Rightarrow> metrics \<Rightarrow> 'e \<times> 'n \<Rightarrow> goerror option outcome \<times> ('e \<times> 'n)" where
  "SendMetric cp CheckURL Do rs metric = (\<lambda>(e, n).
     case Marshal metric of
       Inl err \<Rightarrow> (Done (Some (errorf ''can't construct metric update request: '' err [])), (e, n))
     | Inr body \<Rightarrow>
         (case secured_body cp rs ''can't write compressed metric data: '' body e of
            (Panic, e') \<Rightarrow> (Panic, (e', n))
          | (Done (Inl err), e') \<Rightarrow> (Done (Some err), (e', n))
          | (Done (Inr body), e') \<Rightarrow>
              (case post CheckURL Do rs ''can't send metric update request: '' (metric_request rs body) n of
                 (r, n') \<Rightarrow> (Done r, (e', n')))))"

text \<open>The request of a batch carries no signature.\<close>

definition array_request :: "('pub, 'priv) rest_sender \<Rightarrow> gostring \<Rightarrow> client_request" where
  "array_request rs body =
     \<lparr>cr_Method = ''POST'', cr_URL = sr_addr rs @ ''/updates'', cr_Header = content_header rs, cr_Body = body\<rparr>"

definition SendMetricArray ::
    "('pub, 'priv, 'e) crypto \<Rightarrow> (gostring \<Rightarrow> goerror option) \<Rightarrow> (client_request \<Rightarrow> 'n \<Rightarrow> (goerror + response) \<times> 'n)
      \<Rightarrow> ('pub, 'priv) rest_sender \<Rightarrow> metrics list \<Rightarrow> 'e \<times> 'n \<Rightarrow> goerror option outcome \<times> ('e \<times> 'n)" where
  "SendMetricArray cp CheckURL Do rs ms = (\<lambda>(e, n).
     case Marshal_list (map Some ms) of
       Inl err \<Rightarrow> (Done (Some (errorf ''can't construct metrics array update request: '' err [])), (e, n))
     | Inr body \<Rightarrow>
         (case secured_body cp rs ''can't write compressed metrics data: '' body e of
            (Panic, e') \<Rightarrow> (Panic, (e', n))
          | (Done (Inl err), e') \<Rightarrow> (Done (Some err), (e', n))
          | (Done (Inr body), e') \<Rightarrow>
              (case post CheckURL Do rs ''can't send metrics array update request: '' (array_request rs body) n of
                 (r, n') \<Rightarrow> (Done r, (e', n')))))"

section \<open>Lemmas\<close>

lemma is_port_Cons: "is_port (c # ds) \<longleftrightarrow> c = CHR '':'' \<and> ds \<noteq> [] \<and> list_all is_digit ds"
  by (simp add: is_port_def)

lemma match_host_join:
  assumes "host \<noteq> []" and "CHR '':'' \<notin> set host" and "is_port port"
  shows "match_host (host @ port) = Some (host, port)"
proof -
  obtain ds where p: "port = CHR '':'' # ds" using assms(3) by (cases port) (auto simp: is_port_def)
  have h: "\<And>c. c \<in> set host \<Longrightarrow> c \<noteq> CHR '':''" using assms(2) by blast
  have "takeWhile (\<lambda>c. c \<noteq> CHR '':'') (host @ port) = host" "dropWhile (\<lambda>c. c \<noteq> CHR '':'') (host @ port) = port"
    using h by (simp_all add: p)
  then show ?thesis using assms by (simp add: match_host_def Let_def)
qed

lemma if_some: "(if c then Some x else None) = Some y \<Longrightarrow> c \<and> x = y"
  by (simp split: if_splits)

lemma match_host_parts:
  assumes "match_host s = Some (host, port)"
  shows "s = host @ port" "host \<noteq> []" "CHR '':'' \<notin> set host" "is_port port"
proof -
  let ?h = "takeWhile (\<lambda>c. c \<noteq> CHR '':'') s" and ?p = "dropWhile (\<lambda>c. c \<noteq> CHR '':'') s"
  note m' = if_some [OF assms [unfolded match_host_def Let_def]]
  then have c: "?h \<noteq> [] \<and> is_port ?p" and m: "?h = host" "?p = port" by blast+
  show "s = host @ port" unfolding m [symmetric] by (rule takeWhile_dropWhile_id [symmetric])
  show "host \<noteq> []" "is_port port" using c unfolding m by blast+
  show "CHR '':'' \<notin> set host" unfolding m(1) [symmetric] by (auto dest: set_takeWhileD)
qed

lemma match_protocol_parts:
  assumes "match_protocol p s = Some (q, host, port)"
  shows "q = p" "s = p @ host @ port" "host \<noteq> []" "CHR '':'' \<notin> set host" "is_port port"
proof -
  have c: "has_prefix p s" using assms unfolding match_protocol_def by (cases "has_prefix p s") simp_all
  then have "map_option (\<lambda>(h, q). (p, h, q)) (match_host (drop (length p) s)) = Some (q, host, port)"
    using assms unfolding match_protocol_def by (simp only: if_True)
  then obtain h t where "match_host (drop (length p) s) = Some (h, t)" "p = q \<and> h = host \<and> t = port"
    by (cases "match_host (drop (length p) s)") auto
  then have m: "q = p" "match_host (drop (length p) s) = Some (host, port)" by blast+
  show "q = p" by (rule m(1))
  have "p @ drop (length p) s = s" using c append_take_drop_id [of "length p" s] by (simp only: has_prefix_def)
  then show "s = p @ host @ port" using match_host_parts(1) [OF m(2)] by simp
  show "host \<noteq> []" "CHR '':'' \<notin> set host" "is_port port" by (fact match_host_parts [OF m(2)])+
qed

lemma match_address_parts:
  assumes "match_address s = Some (proto, host, port)"
  shows "s = proto @ host @ port" "proto \<in> {[], ''http://'', ''https://''}"
    "CHR '':'' \<notin> set host" "is_port port" "proto \<noteq> [] \<Longrightarrow> host \<noteq> []"
  using assms match_protocol_parts [of "''http://''" s proto host port]
    match_protocol_parts [of "''https://''" s proto host port] match_host_parts [of s host port]
  by (auto simp: match_address_def split: option.splits if_splits)

text \<open>A protocol, a host and a port are taken apart again.\<close>

lemma match_address_full:
  assumes "proto = ''http://'' \<or> proto = ''https://''" and "host \<noteq> []" and "CHR '':'' \<notin> set host" and "is_port port"
  shows "match_address (proto @ host @ port) = Some (proto, host, port)"
proof -
  have "match_protocol proto (proto @ host @ port) = Some (proto, host, port)"
    using match_host_join [OF assms(2-4)] by (simp add: match_protocol_def has_prefix_def)
  moreover have "match_protocol ''http://'' (''https://'' @ host @ port) = None"
    by (simp add: match_protocol_def has_prefix_def)
  ultimately show ?thesis using assms(1) by (auto simp: match_address_def split: option.split)
qed

lemma enrich_form:
  assumes "enrichServerAddress addr = Inr a"
  obtains proto host port where "a = proto @ host @ port" "proto = ''http://'' \<or> proto = ''https://''"
    "host \<noteq> []" "CHR '':'' \<notin> set host" "is_port port"
proof -
  obtain p h t where m: "match_address addr = Some (p, h, t)"
      and a: "a = (if p = [] then ''http://'' else p) @ (if h = [] then ''localhost'' else h) @ t"
    using assms by (auto simp: enrichServerAddress_def split: option.splits)
  show ?thesis
    by (rule that [of "if p = [] then ''http://'' else p" "if h = [] then ''localhost'' else h" t])
      (use a match_address_parts [OF m] in auto)
qed

lemma enrich_complete:
  assumes "proto = ''http://'' \<or> proto = ''https://''" and "host \<noteq> []" and "CHR '':'' \<notin> set host" and "is_port port"
  shows "enrichServerAddress (proto @ host @ port) = Inr (proto @ host @ port)"
  using assms match_address_full [OF assms] by (auto simp: enrichServerAddress_def)

lemma sendRequest_None:
  "sendRequest Do addr req n = (None, n') \<longleftrightarrow>
     (\<exists>resp b. Do req n = (Inr resp, n') \<and> rs_StatusCode resp = 200 \<and> rs_Body resp = Inr b)"
  by (auto simp: sendRequest_def status_defs Let_def split: prod.splits sum.splits if_splits)

lemma sendRequest_retryable:
  assumes "sendRequest Do addr req n = (Some e, n')" and "\<And>x m. Do req n = (Inl x, m) \<Longrightarrow> \<not> defaultRetryablePredicate x"
  shows "defaultRetryablePredicate e \<longleftrightarrow>
    (\<exists>resp. Do req n = (Inr resp, n') \<and>
       ((\<exists>x. rs_Body resp = Inl x) \<or> rs_StatusCode resp = 504))"
  using assms
  by (auto simp: sendRequest_def status_defs NewRetryableError_def errorf_def Let_def
      split: prod.splits sum.splits if_splits)

section \<open>Properties of sending\<close>

text \<open>A completed server address has a protocol, a host and a port, and completing it again
  changes nothing.\<close>

theorem enrich_idempotent:
  assumes "enrichServerAddress addr = Inr a"
  shows "enrichServerAddress a = Inr a \<and>
    (\<exists>proto host port. a = proto @ host @ port \<and> proto \<in> {''http://'', ''https://''} \<and> host \<noteq> [] \<and> is_port port)"
  using assms
proof (rule enrich_form)
  fix proto host port
  assume a: "a = proto @ host @ port" and p: "proto = ''http://'' \<or> proto = ''https://''" "host \<noteq> []"
    "CHR '':'' \<notin> set host" "is_port port"
  then show ?thesis using enrich_complete [OF p] by auto
qed

lemma enrich_idempotent_witness: "enrichServerAddress ''http://localhost:8080'' = Inr ''http://localhost:8080''"
proof -
  have "enrichServerAddress '':8080'' = Inr ''http://localhost:8080''" by code_simp
  from enrich_idempotent [OF this] show ?thesis by blast
qed


definition always_status :: "nat \<Rightarrow> client_request \<Rightarrow> nat \<Rightarrow> (goerror + response) \<times> nat" where
  "always_status code req n = (Inr \<lparr>rs_StatusCode = code, rs_Body = Inr []\<rparr>, n + 1)"


text \<open>A success of the retrying sender is a success of the server: if it returns no error, the
  last request got status 200 with a readable body, and at most one request more than the
  policy's attempts was made.\<close>

theorem send_success:
  assumes "Run (NewExecutorBuilder p) (sendRequest Do addr req) n = (None, slept, n')"
  shows "length slept \<le> nat (sint (op_MaxAttempts p)) \<and>
    (\<exists>resp b. Do req (nth_state (sendRequest Do addr req) n (length slept)) = (Inr resp, n') \<and>
       rs_StatusCode resp = 200 \<and> rs_Body resp = Inr b)"
proof -
  let ?ex = "NewExecutorBuilder p" and ?f = "sendRequest Do addr req"
  have p: "ex_policy ?ex = p" by (simp add: NewExecutorBuilder_def)
  obtain k where k: "k \<le> nat (sint (op_MaxAttempts p))" and
      r: "Run ?ex ?f n = (nth_answer ?f n k, delays p (op_NextDelay p 0) k, nth_state ?f n (Suc k))"
    using Run_spec [of ?ex ?f n] unfolding p by blast
  then have a: "nth_answer ?f n k = None" "length slept = k" "n' = nth_state ?f n (Suc k)"
    using assms by simp_all
  then have "?f (nth_state ?f n k) = (None, n')" by (simp add: nth_answer_def prod_eq_iff)
  then show ?thesis using k a(2) by (simp only: sendRequest_None)
qed

lemma send_success_witness:
  "length ([] :: duration list) \<le> nat (sint (op_MaxAttempts (NewLinearPolicy 3 1 2)))"
proof -
  have "Run (NewExecutorBuilder (NewLinearPolicy 3 1 2)) (sendRequest (always_status 200) ''http://localhost:8080''
       \<lparr>cr_Method = ''POST'', cr_URL = ''/update'', cr_Header = [], cr_Body = []\<rparr>) 0 = (None, [], 1)"
    by (simp add: Run_def sendRequest_def always_status_def status_defs)
  from send_success [OF this] show ?thesis by blast
qed

end
