(* ===== verification/MemStorage.thy ===== *)
theory MemStorage
  imports Storage
begin

text \<open>
  \<open>internal/repository/memstorage.go\<close>: the in-memory storage, a Go map from metric ids to
  metrics. The mutex makes every method one atomic step, so a concurrent history is a
  sequence of the operations below. The lemmas give the invariant of the map, the effect of
  every operation on every branch, and the interpretation of the storage contract.
\<close>

record mem_storage =
  ms_data :: "metrics dict"

definition NewMemStorage :: mem_storage where
  "NewMemStorage = \<lparr>ms_data = []\<rparr>"

definition setGaugeInMutex :: "gostring \<Rightarrow> float64 \<Rightarrow> mem_storage \<Rightarrow> goerror option \<times> mem_storage" where
  "setGaugeInMutex i v ms =
     (case dict_get (ms_data ms) i of
        None \<Rightarrow> (None, ms\<lparr>ms_data := dict_put (ms_data ms) i (NewGaugeMetricsWithValue i v)\<rparr>)
      | Some m \<Rightarrow>
          if m_MType m \<noteq> Gauge then (Some (Sentinel ErrIncorrectAccess), ms)
          else (None, ms\<lparr>ms_data := dict_put (ms_data ms) i (Metrics_SetGauge m v)\<rparr>))"

definition mem_SetGauge :: "gostring \<Rightarrow> float64 \<Rightarrow> mem_storage \<Rightarrow> goerror option \<times> mem_storage" where
  "mem_SetGauge i v ms = setGaugeInMutex i v ms"

definition addCounterInMutex :: "gostring \<Rightarrow> int64 \<Rightarrow> mem_storage \<Rightarrow> goerror option \<times> mem_storage" where
  "addCounterInMutex i d ms =
     (case dict_get (ms_data ms) i of
        None \<Rightarrow> (None, ms\<lparr>ms_data := dict_put (ms_data ms) i (NewCounterMetricsWithDelta i d)\<rparr>)
      | Some m \<Rightarrow>
          if m_MType m \<noteq> Counter then (Some (Sentinel ErrIncorrectAccess), ms)
          else (None, ms\<lparr>ms_data := dict_put (ms_data ms) i (Metrics_AddCounter m d)\<rparr>))"

definition mem_AddCounter :: "gostring \<Rightarrow> int64 \<Rightarrow> mem_storage \<Rightarrow> goerror option \<times> mem_storage" where
  "mem_AddCounter i d ms = addCounterInMutex i d ms"

definition mem_GetByID :: "gostring \<Rightarrow> mem_storage \<Rightarrow> goerror + metrics" where
  "mem_GetByID i ms =
     (case dict_get (ms_data ms) i of None \<Rightarrow> Inl (Sentinel ErrMetricNotFound) | Some m \<Rightarrow> Inr m)"

text \<open>The two loops of \<open>BatchUpdate\<close>: validation of the whole batch, which stops at the first
  mismatch or at a nil element (whose \<open>ID\<close> cannot be read), then the updates, whose errors
  are dropped.\<close>

fun mem_batch_validate :: "mem_storage \<Rightarrow> metrics option list \<Rightarrow> goerror option outcome" where
  "mem_batch_validate ms [] = Done None"
| "mem_batch_validate ms (None # rest) = Panic"
| "mem_batch_validate ms (Some m # rest) =
     (case dict_get (ms_data ms) (m_ID m) of
        Some old \<Rightarrow>
          if m_MType old \<noteq> m_MType m then
            Done (Some (errorf [] (Sentinel ErrIncorrectAccess)
              ('': for metric id='' @ m_ID m @ '' old type='' @ m_MType old @ '', new type='' @ m_MType m)))
          else mem_batch_validate ms rest
      | None \<Rightarrow> mem_batch_validate ms rest)"

fun mem_batch_apply :: "metrics option list \<Rightarrow> mem_storage \<Rightarrow> mem_storage outcome" where
  "mem_batch_apply [] ms = Done ms"
| "mem_batch_apply (None # rest) ms = Panic"
| "mem_batch_apply (Some m # rest) ms =
     mem_batch_apply rest
       (if m_MType m = Counter then
          (case m_Delta m of None \<Rightarrow> ms | Some d \<Rightarrow> snd (addCounterInMutex (m_ID m) d ms))
        else if m_MType m = Gauge then
          (case m_Value m of None \<Rightarrow> ms | Some v \<Rightarrow> snd (setGaugeInMutex (m_ID m) v ms))
        else ms)"

definition mem_BatchUpdate ::
    "metrics option list \<Rightarrow> mem_storage \<Rightarrow> goerror option outcome \<times> mem_storage" where
  "mem_BatchUpdate metrics ms =
     (case mem_batch_validate ms metrics of
        Panic \<Rightarrow> (Panic, ms)
      | Done (Some e) \<Rightarrow> (Done (Some e), ms)
      | Done None \<Rightarrow>
          (case mem_batch_apply metrics ms of Panic \<Rightarrow> (Panic, ms) | Done ms' \<Rightarrow> (Done None, ms')))"

definition mem_GetAllSorted :: "mem_storage \<Rightarrow> metrics list" where
  "mem_GetAllSorted ms = sort_key m_ID (map snd (ms_data ms))"

fun mem_SetAll :: "metrics option list \<Rightarrow> mem_storage \<Rightarrow> goerror option outcome \<times> mem_storage" where
  "mem_SetAll [] ms = (Done None, ms)"
| "mem_SetAll (None # rest) ms = (Panic, ms)"
| "mem_SetAll (Some m # rest) ms =
     mem_SetAll rest (ms\<lparr>ms_data := dict_put (ms_data ms) (m_ID m)
       (NewMetrics (m_ID m) (m_MType m) (m_Delta m) (m_Value m))\<rparr>)"

definition mem_ResetAll :: "mem_storage \<Rightarrow> goerror option \<times> mem_storage" where
  "mem_ResetAll ms = (None, ms\<lparr>ms_data := []\<rparr>)"

definition mem_Ping :: "mem_storage \<Rightarrow> goerror option" where
  "mem_Ping ms = None"

definition mem_Close :: "mem_storage \<Rightarrow> goerror option" where
  "mem_Close ms = None"

text \<open>The method table a \<open>*MemStorage\<close> carries as a \<open>repository.Storage\<close>.\<close>

definition mem_ops :: "mem_storage storage_ops" where
  "mem_ops = \<lparr>
     op_SetGauge = mem_SetGauge, op_AddCounter = mem_AddCounter,
     op_GetByID = (\<lambda>i ms. (mem_GetByID i ms, ms)), op_BatchUpdate = mem_BatchUpdate,
     op_GetAllSorted = (\<lambda>ms. (Inr (mem_GetAllSorted ms), ms)), op_SetAll = mem_SetAll,
     op_ResetAll = mem_ResetAll, op_Ping = (\<lambda>ms. (mem_Ping ms, ms)),
     op_Close = (\<lambda>ms. (mem_Close ms, ms))\<rparr>"

section \<open>Invariant and abstraction\<close>

definition mem_view :: "mem_storage \<Rightarrow> view" where
  "mem_view ms = dict_get (ms_data ms)"

definition mem_ok :: "mem_storage \<Rightarrow> bool" where
  "mem_ok ms \<longleftrightarrow> dict_ok (ms_data ms) \<and> (\<forall>(k, m) \<in> set (ms_data ms). m_ID m = k \<and> hash_ok m)"

definition mem_put :: "gostring \<Rightarrow> metrics \<Rightarrow> mem_storage \<Rightarrow> mem_storage" where
  "mem_put i m ms = ms\<lparr>ms_data := dict_put (ms_data ms) i m\<rparr>"

lemma mem_view_put [simp]: "mem_view (mem_put i m ms) = (mem_view ms)(i \<mapsto> m)"
  by (auto simp: mem_view_def mem_put_def fun_eq_iff)

lemma set_dict_put: "set (dict_put d k v) \<subseteq> insert (k, v) (set d)"
  by (induction d) auto

lemma mem_ok_put: "mem_ok ms \<Longrightarrow> m_ID m = i \<Longrightarrow> hash_ok m \<Longrightarrow> mem_ok (mem_put i m ms)"
  using set_dict_put [of i m "ms_data ms"] by (auto simp: mem_ok_def mem_put_def)

lemma mem_okD:
  "mem_ok ms \<Longrightarrow> mem_view ms i = Some m \<Longrightarrow> m_ID m = i"
  "mem_ok ms \<Longrightarrow> mem_view ms i = Some m \<Longrightarrow> hash_ok m"
  by (auto simp: mem_ok_def mem_view_def dest!: map_of_SomeD)

lemma mem_ok_new [simp]: "mem_ok NewMemStorage" and mem_view_new [simp]: "mem_view NewMemStorage = (\<lambda>_. None)"
  by (simp_all add: mem_ok_def NewMemStorage_def mem_view_def)

section \<open>Single updates\<close>

lemma setGauge_eq:
  "setGaugeInMutex i v ms =
     (if type_free Gauge i (mem_view ms)
      then (None, mem_put i (after_gauge i v (mem_view ms i)) ms)
      else (Some (Sentinel ErrIncorrectAccess), ms))"
  by (auto simp: setGaugeInMutex_def mem_view_def mem_put_def after_gauge_def type_free_def split: option.splits)

lemma addCounter_eq:
  "addCounterInMutex i d ms =
     (if type_free Counter i (mem_view ms)
      then (None, mem_put i (after_counter i d (mem_view ms i)) ms)
      else (Some (Sentinel ErrIncorrectAccess), ms))"
  by (auto simp: addCounterInMutex_def mem_view_def mem_put_def after_counter_def type_free_def split: option.splits)

lemma mem_ok_after:
  "mem_ok ms \<Longrightarrow> mem_ok (mem_put i (after_gauge i v (mem_view ms i)) ms)"
  "mem_ok ms \<Longrightarrow> mem_ok (mem_put i (after_counter i d (mem_view ms i)) ms)"
  by (auto intro!: mem_ok_put after_ID dest: mem_okD(1))

lemma mem_ok_setGauge: "mem_ok ms \<Longrightarrow> mem_ok (snd (setGaugeInMutex i v ms))"
  and mem_ok_addCounter: "mem_ok ms \<Longrightarrow> mem_ok (snd (addCounterInMutex i d ms))"
  by (simp_all add: setGauge_eq addCounter_eq mem_ok_after)

section \<open>Batches\<close>

lemma validate_some: "mem_batch_validate ms (map Some xs) = Done None \<longleftrightarrow> \<not> batch_conflict xs (mem_view ms)"
  by (induction xs) (auto simp: batch_conflict_def mem_view_def type_free_def split: option.splits)

lemma validate_no_panic: "mem_batch_validate ms (map Some xs) \<noteq> Panic"
  by (induction xs) (auto split: option.splits)

lemma validate_error:
  "mem_batch_validate ms ps = Done (Some e) \<Longrightarrow> errors_is e ErrIncorrectAccess"
proof (induction ps)
  case (Cons p ps)
  then show ?case by (cases p) (auto split: option.splits if_splits)
qed simp

text \<open>One pass of the update loop: an update whose type does not fit is dropped.\<close>

definition spec_update_checked :: "metrics \<Rightarrow> view \<Rightarrow> view" where
  "spec_update_checked m w = (if type_free (m_MType m) (m_ID m) w then spec_update m w else w)"

definition mem_step :: "metrics \<Rightarrow> mem_storage \<Rightarrow> mem_storage" where
  "mem_step m ms =
     (if m_MType m = Counter then
        (case m_Delta m of None \<Rightarrow> ms | Some d \<Rightarrow> snd (addCounterInMutex (m_ID m) d ms))
      else if m_MType m = Gauge then
        (case m_Value m of None \<Rightarrow> ms | Some v \<Rightarrow> snd (setGaugeInMutex (m_ID m) v ms))
      else ms)"

lemma mem_batch_apply_fold: "mem_batch_apply (map Some xs) ms = Done (fold mem_step xs ms)"
  by (induction xs arbitrary: ms) (simp_all add: mem_step_def)

lemma mem_ok_step: "mem_ok ms \<Longrightarrow> mem_ok (mem_step m ms)"
  by (simp add: mem_step_def mem_ok_setGauge mem_ok_addCounter split: option.splits)

lemma mem_view_step: "mem_view (mem_step m ms) = spec_update_checked m (mem_view ms)"
  by (simp add: mem_step_def spec_update_checked_def spec_update_def setGauge_eq addCounter_eq split: option.splits)

lemma mem_ok_fold: "mem_ok ms \<Longrightarrow> mem_ok (fold mem_step xs ms)"
  by (induction xs arbitrary: ms) (simp_all add: mem_ok_step)

lemma mem_view_fold: "mem_view (fold mem_step xs ms) = fold spec_update_checked xs (mem_view ms)"
  by (induction xs arbitrary: ms) (simp_all add: mem_view_step)

text \<open>A batch with a nil element panics or is refused in the validation loop, before any update.\<close>

lemma validate_None:
  "mem_batch_validate ms ps = Done None \<Longrightarrow> None \<notin> set ps"
proof (induction ps)
  case (Cons p ps)
  then show ?case by (cases p) (auto split: option.splits if_splits)
qed simp

lemma no_None_map: "None \<notin> set ps \<Longrightarrow> \<exists>xs. ps = map Some xs"
proof (induction ps)
  case (Cons p ps)
  then obtain xs where "ps = map Some xs" by auto
  moreover obtain x where "p = Some x" using Cons.prems by (cases p) auto
  ultimately show ?case by (intro exI [of _ "x # xs"]) simp
qed simp

lemma mem_BatchUpdate_cases:
  obtains (panic) "mem_BatchUpdate ps ms = (Panic, ms)"
  | (refused) e where "mem_BatchUpdate ps ms = (Done (Some e), ms)" "errors_is e ErrIncorrectAccess"
  | (applied) xs where "ps = map Some xs" "\<not> batch_conflict xs (mem_view ms)"
      "mem_BatchUpdate ps ms = (Done None, fold mem_step xs ms)"
proof (cases "mem_batch_validate ms ps")
  case Panic
  then show ?thesis using panic by (simp add: mem_BatchUpdate_def)
next
  case (Done r)
  show ?thesis
  proof (cases r)
    case (Some e)
    then show ?thesis using Done refused validate_error by (simp add: mem_BatchUpdate_def)
  next
    case None
    then obtain xs where xs: "ps = map Some xs" using Done validate_None no_None_map by metis
    then show ?thesis using Done None applied [OF xs] validate_some [of ms xs]
      by (simp add: mem_BatchUpdate_def mem_batch_apply_fold)
  qed
qed

lemma mem_BatchUpdate_some:
  "mem_BatchUpdate (map Some xs) ms =
     (if batch_conflict xs (mem_view ms) then (fst (mem_BatchUpdate (map Some xs) ms), ms)
      else (Done None, fold mem_step xs ms))"
proof (cases "batch_conflict xs (mem_view ms)")
  case True
  show ?thesis
    by (rule mem_BatchUpdate_cases [of "map Some xs" ms]) (use True in auto)
next
  case False
  then show ?thesis by (simp add: mem_BatchUpdate_def mem_batch_apply_fold validate_some [THEN iffD2])
qed

lemma mem_BatchUpdate_conflict:
  assumes "batch_conflict xs (mem_view ms)"
  shows "\<exists>e. mem_BatchUpdate (map Some xs) ms = (Done (Some e), ms) \<and> errors_is e ErrIncorrectAccess"
proof -
  have "mem_BatchUpdate (map Some xs) ms \<noteq> (Panic, ms)"
    using validate_no_panic [of ms xs]
    by (auto simp: mem_BatchUpdate_def mem_batch_apply_fold split: outcome.splits option.splits)
  then show ?thesis by (cases rule: mem_BatchUpdate_cases [of "map Some xs" ms]) (use assms in auto)
qed

section \<open>Clean batches\<close>

lemma fold_checked_clean:
  "one_type_per_id xs \<Longrightarrow> \<not> batch_conflict xs w \<Longrightarrow> fold spec_update_checked xs w = fold spec_update xs w"
proof (induction xs arbitrary: w)
  case (Cons x xs)
  have "one_type_per_id xs" using Cons.prems(1)
    unfolding one_type_per_id_def by (meson list.set_intros(2))
  moreover have "spec_update_checked x w = spec_update x w"
    using Cons.prems(2) by (simp add: spec_update_checked_def batch_conflict_Cons)
  ultimately show ?case using Cons.IH no_conflict_step [OF Cons.prems] by simp
qed simp

lemma mem_view_batch:
  assumes "one_type_per_id xs" and "mem_BatchUpdate (map Some xs) ms = (Done None, ms')"
  shows "\<not> batch_conflict xs (mem_view ms) \<and> mem_view ms' = fold spec_update xs (mem_view ms)"
proof (cases "batch_conflict xs (mem_view ms)")
  case True
  then show ?thesis using assms(2) validate_some [of ms xs]
    by (auto simp: mem_BatchUpdate_def split: outcome.splits option.splits)
next
  case False
  then have "ms' = fold mem_step xs ms" using assms(2) mem_BatchUpdate_some [of xs ms] by simp
  then show ?thesis using False by (simp add: mem_view_fold fold_checked_clean assms(1))
qed

section \<open>Reading\<close>

lemma mem_GetByID_eq:
  "mem_GetByID i ms = (case mem_view ms i of None \<Rightarrow> Inl (Sentinel ErrMetricNotFound) | Some m \<Rightarrow> Inr m)"
  by (simp add: mem_GetByID_def mem_view_def)

lemma mem_ok_entries: "mem_ok ms \<Longrightarrow> map fst (ms_data ms) = map m_ID (map snd (ms_data ms))"
  by (auto simp: mem_ok_def)

lemma mem_ok_values: "mem_ok ms \<Longrightarrow> m \<in> snd ` set (ms_data ms) \<longleftrightarrow> mem_view ms (m_ID m) = Some m"
  by (force simp: mem_ok_def mem_view_def dict_set_get [symmetric])

lemma mem_GetAllSorted_props:
  assumes "mem_ok ms"
  shows "sorted (map m_ID (mem_GetAllSorted ms))" "distinct (map m_ID (mem_GetAllSorted ms))"
    "m \<in> set (mem_GetAllSorted ms) \<longleftrightarrow> mem_view ms (m_ID m) = Some m"
    "mset (mem_GetAllSorted ms) = mset (map snd (ms_data ms))"
proof -
  have "distinct (map m_ID (map snd (ms_data ms)))"
    using assms mem_ok_entries [OF assms] by (simp add: mem_ok_def dict_ok_def)
  then show "distinct (map m_ID (mem_GetAllSorted ms))"
    unfolding mem_GetAllSorted_def by (metis mset_eq_imp_distinct_iff mset_map mset_sort)
qed (simp_all add: mem_GetAllSorted_def mem_ok_values [OF assms])

section \<open>The contract holds\<close>

lemma mem_ops_simps [simp]:
  "op_SetGauge mem_ops = mem_SetGauge" "op_AddCounter mem_ops = mem_AddCounter"
  "op_GetByID mem_ops i ms = (mem_GetByID i ms, ms)" "op_BatchUpdate mem_ops = mem_BatchUpdate"
  "op_GetAllSorted mem_ops ms = (Inr (mem_GetAllSorted ms), ms)" "op_SetAll mem_ops = mem_SetAll"
  "op_ResetAll mem_ops = mem_ResetAll" "op_Ping mem_ops ms = (mem_Ping ms, ms)"
  "op_Close mem_ops ms = (mem_Close ms, ms)"
  by (simp_all add: mem_ops_def)

lemma mem_ok_batch: "mem_ok ms \<Longrightarrow> mem_ok (snd (mem_BatchUpdate ps ms))"
  by (cases rule: mem_BatchUpdate_cases [of ps ms]) (simp_all add: mem_ok_fold)

interpretation mem: reliable_storage mem_ops mem_ok mem_view
proof unfold_locales
  fix ms xs rb ms'
  assume "mem_ok ms" and "op_BatchUpdate mem_ops (map Some xs) ms = (rb, ms')"
  then show "mem_ok ms'" using mem_ok_batch [of ms "map Some xs"] by simp
next
  fix ms xs ms'
  assume "mem_ok ms" "clean_batch xs" "op_BatchUpdate mem_ops (map Some xs) ms = (Done None, ms')"
  then show "\<not> batch_conflict xs (mem_view ms) \<and> mem_view ms' = fold spec_update xs (mem_view ms)"
    by (intro mem_view_batch) (simp_all add: clean_batch_def)
next
  fix ms xs
  assume "\<not> batch_conflict xs (mem_view ms)"
  then show "\<exists>ms'. op_BatchUpdate mem_ops (map Some xs) ms = (Done None, ms')"
    by (simp add: mem_BatchUpdate_some)
next
  fix ms xs
  assume "batch_conflict xs (mem_view ms)"
  then show "\<exists>e ms'. op_BatchUpdate mem_ops (map Some xs) ms = (Done (Some e), ms') \<and>
      errors_is e ErrIncorrectAccess \<and> mem_view ms' = mem_view ms"
    using mem_BatchUpdate_conflict by fastforce
qed (auto simp: mem_SetGauge_def mem_AddCounter_def setGauge_eq addCounter_eq mem_GetByID_eq
      mem_GetAllSorted_props mem_ok_after dest: mem_okD split: if_splits option.splits)

section \<open>Histories\<close>

text \<open>A history of the writing methods, in the order in which they got the mutex.\<close>

datatype mem_op =
    OpSetGauge gostring float64
  | OpAddCounter gostring int64
  | OpBatch "metrics option list"
  | OpSetAll "metrics option list"
  | OpReset

fun mem_exec :: "mem_op \<Rightarrow> mem_storage \<Rightarrow> mem_storage" where
  "mem_exec (OpSetGauge i v) ms = snd (mem_SetGauge i v ms)"
| "mem_exec (OpAddCounter i d) ms = snd (mem_AddCounter i d ms)"
| "mem_exec (OpBatch ps) ms = snd (mem_BatchUpdate ps ms)"
| "mem_exec (OpSetAll ps) ms = snd (mem_SetAll ps ms)"
| "mem_exec OpReset ms = snd (mem_ResetAll ms)"

definition mem_run :: "mem_op list \<Rightarrow> mem_storage \<Rightarrow> mem_storage" where
  "mem_run ops ms = fold mem_exec ops ms"

lemma mem_ok_SetAll: "mem_ok ms \<Longrightarrow> mem_ok (snd (mem_SetAll ps ms))"
proof (induction ps ms rule: mem_SetAll.induct)
  case (3 m rest ms)
  have "mem_ok (mem_put (m_ID m) (NewMetrics (m_ID m) (m_MType m) (m_Delta m) (m_Value m)) ms)"
    using 3(2) by (rule mem_ok_put) simp_all
  then show ?case using 3(1) by (simp add: mem_put_def)
qed simp_all

lemma mem_ok_exec: "mem_ok ms \<Longrightarrow> mem_ok (mem_exec x ms)"
  by (cases x) (simp_all add: mem_SetGauge_def mem_AddCounter_def mem_ok_setGauge mem_ok_addCounter
      mem_ok_batch mem_ok_SetAll, simp add: mem_ResetAll_def mem_ok_def)

lemma mem_ok_run: "mem_ok ms \<Longrightarrow> mem_ok (mem_run ops ms)"
  unfolding mem_run_def by (induction ops arbitrary: ms) (simp_all add: mem_ok_exec)

text \<open>Loading a list of metrics with distinct ids into an empty storage stores exactly them.\<close>

lemma mem_SetAll_some:
  "mem_SetAll (map Some xs) ms =
     (Done None, fold (\<lambda>m. mem_put (m_ID m) (NewMetrics (m_ID m) (m_MType m) (m_Delta m) (m_Value m))) xs ms)"
  by (induction xs arbitrary: ms) (simp_all add: mem_put_def)

subsection \<open>Without bulk loads, every stored metric is well-formed\<close>

definition mem_typed :: "mem_storage \<Rightarrow> bool" where
  "mem_typed ms \<longleftrightarrow> (\<forall>i m. mem_view ms i = Some m \<longrightarrow> well_formed m)"

definition no_bulk_load :: "mem_op list \<Rightarrow> bool" where
  "no_bulk_load ops \<longleftrightarrow> list_all (\<lambda>x. case x of OpSetAll ps \<Rightarrow> False | _ \<Rightarrow> True) ops"

lemma well_formed_after:
  "(\<And>m. w i = Some m \<Longrightarrow> well_formed m) \<Longrightarrow> type_free Gauge i w \<Longrightarrow> well_formed (after_gauge i v (w i))"
  "(\<And>m. w i = Some m \<Longrightarrow> well_formed m) \<Longrightarrow> type_free Counter i w \<Longrightarrow> well_formed (after_counter i d (w i))"
  by (cases "w i"; simp add: well_formed_def after_gauge_def after_counter_def)+

lemma mem_typed_put: "mem_typed ms \<Longrightarrow> well_formed m \<Longrightarrow> mem_typed (mem_put i m ms)"
  by (simp add: mem_typed_def)

lemma mem_typed_setGauge: "mem_typed ms \<Longrightarrow> mem_typed (snd (setGaugeInMutex i v ms))"
  and mem_typed_addCounter: "mem_typed ms \<Longrightarrow> mem_typed (snd (addCounterInMutex i d ms))"
  using well_formed_after [of "mem_view ms" i]
  by (simp_all add: setGauge_eq addCounter_eq mem_typed_put mem_typed_def)

lemma mem_typed_fold: "mem_typed ms \<Longrightarrow> mem_typed (fold mem_step xs ms)"
  by (induction xs arbitrary: ms)
    (simp_all add: mem_step_def mem_typed_setGauge mem_typed_addCounter split: option.split)

lemma mem_typed_exec: "mem_typed ms \<Longrightarrow> no_bulk_load [x] \<Longrightarrow> mem_typed (mem_exec x ms)"
proof (cases x)
  case (OpBatch ps)
  assume "mem_typed ms"
  then show ?thesis using OpBatch
    by (cases rule: mem_BatchUpdate_cases [of ps ms]) (simp_all add: mem_typed_fold)
qed (simp_all add: mem_SetGauge_def mem_AddCounter_def mem_typed_setGauge mem_typed_addCounter no_bulk_load_def,
    simp add: mem_ResetAll_def mem_typed_def mem_view_def)

lemma mem_typed_run: "mem_typed ms \<Longrightarrow> no_bulk_load ops \<Longrightarrow> mem_typed (mem_run ops ms)"
  unfolding mem_run_def
  by (induction ops arbitrary: ms) (simp_all add: mem_typed_exec no_bulk_load_def)

subsection \<open>Concurrent increments commute\<close>

text \<open>What a list of increments \<open>(id, delta)\<close> leaves under one id: the sum of its deltas.\<close>

definition adds_on :: "gostring \<Rightarrow> (gostring \<times> int64) list \<Rightarrow> int64 list" where
  "adds_on i xs = map snd (filter (\<lambda>x. fst x = i) xs)"

definition adds_view :: "(gostring \<times> int64) list \<Rightarrow> view \<Rightarrow> view" where
  "adds_view xs w i =
     (if type_free Counter i w \<and> adds_on i xs \<noteq> []
      then Some (after_counter i (sum_list (adds_on i xs)) (w i)) else w i)"

lemma after_counter_twice:
  "after_counter i d (Some (after_counter i c old)) = after_counter i (c + d) old"
  by (rule metrics_eqI) (simp_all add: after_counter_def add.assoc split: option.split)

lemma adds_view_Cons:
  "adds_view xs (mem_view (mem_exec (OpAddCounter i d) ms)) = adds_view ((i, d) # xs) (mem_view ms)"
proof
  fix k
  let ?w = "mem_view ms"
  show "adds_view xs (mem_view (mem_exec (OpAddCounter i d) ms)) k = adds_view ((i, d) # xs) ?w k"
  proof (cases "type_free Counter i ?w \<and> k = i")
    case True
    then have "type_free Counter i (?w(i \<mapsto> after_counter i d (?w i)))"
      by (simp add: after_MType)
    then show ?thesis using True
      by (simp add: mem_AddCounter_def addCounter_eq adds_view_def adds_on_def after_counter_twice)
  next
    case False
    then show ?thesis
      by (auto simp: mem_AddCounter_def addCounter_eq adds_view_def adds_on_def type_free_def)
  qed
qed

lemma mem_view_adds:
  "mem_view (mem_run (map (\<lambda>(i, d). OpAddCounter i d) xs) ms) = adds_view xs (mem_view ms)"
proof (induction xs arbitrary: ms)
  case Nil
  then show ?case by (simp add: mem_run_def adds_view_def adds_on_def fun_eq_iff)
next
  case (Cons x xs)
  obtain i d where x: "x = (i, d)" by fastforce
  have "mem_view (mem_run (map (\<lambda>(i, d). OpAddCounter i d) (x # xs)) ms) =
      mem_view (mem_run (map (\<lambda>(i, d). OpAddCounter i d) xs) (mem_exec (OpAddCounter i d) ms))"
    by (simp add: mem_run_def x)
  also have "\<dots> = adds_view (x # xs) (mem_view ms)" unfolding Cons.IH x by (rule adds_view_Cons)
  finally show ?case .
qed

lemma adds_view_mset:
  assumes "mset xs = mset ys"
  shows "adds_view xs w = adds_view ys w"
proof -
  have m: "mset (adds_on i xs) = mset (adds_on i ys)" for i
    using assms by (simp add: adds_on_def)
  then have "sum_list (adds_on i xs) = sum_list (adds_on i ys)" for i
    by (simp flip: sum_mset_sum_list)
  moreover have "adds_on i xs = [] \<longleftrightarrow> adds_on i ys = []" for i
    using m [of i] by (metis mset_zero_iff)
  ultimately show ?thesis by (simp add: adds_view_def fun_eq_iff)
qed

section \<open>Properties of the in-memory storage\<close>

text \<open>C38. Invariant. Whatever the history of updates, batches, bulk loads and resets, the map of a
  storage that started empty has one entry per id, each entry sits under its own id, and the
  stored hash is the hash of the entry's fields.\<close>

theorem mem_invariant: "mem_ok (mem_run ops NewMemStorage)"
  by (rule mem_ok_run) simp

text \<open>C16. Without bulk loads a stored metric always carries the value of its type and no other: a
  counter has a delta only, a gauge a value only.\<close>

theorem mem_well_formed:
  assumes "no_bulk_load ops" and "dict_get (ms_data (mem_run ops NewMemStorage)) i = Some m"
  shows "m_ID m = i \<and> ((m_MType m = Counter \<and> m_Delta m \<noteq> None \<and> m_Value m = None) \<or>
    (m_MType m = Gauge \<and> m_Delta m = None \<and> m_Value m \<noteq> None))"
proof -
  have v: "mem_view (mem_run ops NewMemStorage) i = Some m" using assms(2) by (simp add: mem_view_def)
  have "mem_typed (mem_run ops NewMemStorage)"
    by (rule mem_typed_run [OF _ assms(1)]) (simp add: mem_typed_def)
  then have "well_formed m" using v by (auto simp: mem_typed_def)
  moreover have "m_ID m = i" by (rule mem_okD(1) [OF mem_ok_run [OF mem_ok_new] v])
  ultimately show ?thesis by (simp add: well_formed_def)
qed

lemma mem_well_formed_witness:
  "\<exists>m. dict_get (ms_data (mem_run [OpAddCounter ''c'' 5] NewMemStorage)) ''c'' = Some m \<and> m_ID m = ''c'' \<and> m_Value m = None"
proof -
  have g: "dict_get (ms_data (mem_run [OpAddCounter ''c'' 5] NewMemStorage)) ''c'' = Some (NewCounterMetricsWithDelta ''c'' 5)"
    by (simp add: mem_run_def mem_AddCounter_def addCounterInMutex_def NewMemStorage_def)
  have "no_bulk_load [OpAddCounter ''c'' 5]" by (simp add: no_bulk_load_def)
  from mem_well_formed [OF this g] show ?thesis using g by auto
qed

text \<open>\<open>SetGauge\<close> on every branch: a new id gets a gauge with the value, a gauge gets the new
  value, and an id of another type is refused with \<open>ErrIncorrectAccess\<close> and left as it was.
  No other id changes.\<close>

theorem mem_SetGauge_branches:
  "mem_SetGauge i v ms =
     (case mem_view ms i of
        None \<Rightarrow> (None, mem_put i (NewGaugeMetricsWithValue i v) ms)
      | Some m \<Rightarrow> if m_MType m = Gauge then (None, mem_put i (Metrics_SetGauge m v) ms)
                  else (Some (Sentinel ErrIncorrectAccess), ms)) \<and>
   mem_view (snd (mem_SetGauge i v ms)) =
     (if type_free Gauge i (mem_view ms) then (mem_view ms)(i \<mapsto> after_gauge i v (mem_view ms i)) else mem_view ms)"
  by (auto simp: mem_SetGauge_def setGauge_eq after_gauge_def type_free_def split: option.split)

text \<open>\<open>AddCounter\<close> on every branch: a new id starts with the delta, a counter is increased by
  it modulo \<open>2 ^ 64\<close>, and an id of another type is refused and left as it was.\<close>

theorem mem_AddCounter_branches:
  "mem_AddCounter i d ms =
     (case mem_view ms i of
        None \<Rightarrow> (None, mem_put i (NewCounterMetricsWithDelta i d) ms)
      | Some m \<Rightarrow> if m_MType m = Counter then (None, mem_put i (Metrics_AddCounter m d) ms)
                  else (Some (Sentinel ErrIncorrectAccess), ms)) \<and>
   counter_of (mem_view (snd (mem_AddCounter i d ms))) i =
     counter_of (mem_view ms) i + (if type_free Counter i (mem_view ms) then d else 0)"
  by (auto simp: mem_AddCounter_def addCounter_eq after_counter_def type_free_def counter_of_def split: option.split)

text \<open>Concurrent increments: in whatever order the mutex serves them, a counter that started
  empty ends at the sum of the deltas addressed to it, and every id that was addressed exists.\<close>

theorem mem_increments_sum:
  "counter_of (mem_view (mem_run (map (\<lambda>(i, d). OpAddCounter i d) xs) NewMemStorage)) k = sum_list (adds_on k xs) \<and>
   dom (mem_view (mem_run (map (\<lambda>(i, d). OpAddCounter i d) xs) NewMemStorage)) = set (map fst xs)"
proof -
  have "adds_on k xs = [] \<longleftrightarrow> k \<notin> set (map fst xs)" for k
    by (auto simp: adds_on_def filter_empty_conv)
  moreover from this have "k \<notin> set (map fst xs) \<Longrightarrow> sum_list (adds_on k xs) = 0"
    by (metis sum_list.Nil)
  ultimately show ?thesis
    by (auto simp: mem_view_adds adds_view_def counter_of_def after_counter_def dom_def split: if_splits)
qed

text \<open>A batch that is refused changes nothing, and a refusal is always a type mismatch with a
  stored metric: \<open>BatchUpdate\<close> either panics, or reports \<open>ErrIncorrectAccess\<close>, or applies the
  whole batch; in the first two cases the storage is as before.\<close>

theorem mem_batch_all_or_nothing:
  "(case mem_BatchUpdate ps ms of
      (Panic, ms') \<Rightarrow> ms' = ms
    | (Done (Some e), ms') \<Rightarrow> ms' = ms \<and> errors_is e ErrIncorrectAccess
    | (Done None, ms') \<Rightarrow> \<exists>xs. ps = map Some xs \<and> list_all (\<lambda>x. type_free (m_MType x) (m_ID x) (mem_view ms)) xs)"
  by (cases rule: mem_BatchUpdate_cases [of ps ms]) (auto simp: batch_conflict_def list_all_iff)

text \<open>C7. The result of a clean batch (well-formed metrics, one type per id) with no metric in
  conflict with a stored one: it is accepted, every counter has grown by the sum of the batch's
  deltas for it, and every gauge has the last value the batch carries for it.\<close>

theorem mem_batch_effect:
  assumes "clean_batch xs" and "\<forall>x \<in> set xs. type_free (m_MType x) (m_ID x) (mem_view ms)"
  shows "\<exists>ms'. mem_BatchUpdate (map Some xs) ms = (Done None, ms') \<and>
    counter_of (mem_view ms') i = counter_of (mem_view ms) i + batch_sum xs i \<and>
    gauge_of (mem_view ms') i = batch_last xs i (gauge_of (mem_view ms) i)"
proof -
  have n: "\<not> batch_conflict xs (mem_view ms)" using assms(2) by (simp add: batch_conflict_def)
  then have b: "mem_BatchUpdate (map Some xs) ms = (Done None, fold mem_step xs ms)"
    by (simp add: mem_BatchUpdate_some)
  have "mem_view (fold mem_step xs ms) = fold spec_update xs (mem_view ms)"
    using mem_view_batch [OF _ b] assms(1) by (simp add: clean_batch_def)
  then show ?thesis using b by (simp add: counter_of_fold gauge_of_fold)
qed

lemma mem_batch_effect_witness:
  "\<exists>ms'. mem_BatchUpdate (map Some [NewMetrics ''c'' Counter (Some 2) None, NewMetrics ''c'' Counter (Some 3) None])
      NewMemStorage = (Done None, ms') \<and> counter_of (mem_view ms') ''c'' = 5"
proof -
  let ?xs = "[NewMetrics ''c'' Counter (Some 2) None, NewMetrics ''c'' Counter (Some 3) None]"
  have "clean_batch ?xs" by (simp add: clean_batch_def well_formed_def one_type_per_id_def)
  moreover have "\<forall>x \<in> set ?xs. type_free (m_MType x) (m_ID x) (mem_view NewMemStorage)" by simp
  ultimately obtain ms' where "mem_BatchUpdate (map Some ?xs) NewMemStorage = (Done None, ms')"
      "counter_of (mem_view ms') ''c'' = counter_of (mem_view NewMemStorage) ''c'' + batch_sum ?xs ''c''"
    using mem_batch_effect [of ?xs NewMemStorage "''c''"] by blast
  then show ?thesis by (intro exI [of _ ms']) (simp add: counter_of_def batch_sum_def)
qed

text \<open>Inside one batch the type of a new id is not checked: a batch with a counter and a gauge
  of the same new id is accepted without an error, and the second update is dropped.\<close>

theorem mem_batch_silent_drop:
  "\<exists>ms'. mem_BatchUpdate [Some (NewMetrics i Counter (Some d) None), Some (NewMetrics i Gauge None (Some v))] NewMemStorage
      = (Done None, ms') \<and> mem_view ms' = [i \<mapsto> NewCounterMetricsWithDelta i d]"
proof -
  let ?xs = "[NewMetrics i Counter (Some d) None, NewMetrics i Gauge None (Some v)]"
  have "\<not> batch_conflict ?xs (mem_view NewMemStorage)" by (simp add: batch_conflict_def)
  then have "mem_BatchUpdate (map Some ?xs) NewMemStorage = (Done None, fold mem_step ?xs NewMemStorage)"
    using mem_BatchUpdate_some [of ?xs NewMemStorage] by (simp only: if_False)
  moreover have "mem_view (fold mem_step ?xs NewMemStorage) = [i \<mapsto> NewCounterMetricsWithDelta i d]"
    by (simp add: mem_view_step spec_update_checked_def spec_update_def after_counter_def)
  ultimately show ?thesis by simp
qed

text \<open>\<open>GetAllSorted\<close> returns every stored metric once, in the order of the ids; and since the
  ids are distinct, no other sorting of the map's values, whatever its iteration order and the
  stability of the sort, could have given another list.\<close>

theorem mem_GetAllSorted_unique:
  assumes "mem_ok ms"
  shows "sorted (map m_ID (mem_GetAllSorted ms)) \<and> distinct (map m_ID (mem_GetAllSorted ms)) \<and>
    set (mem_GetAllSorted ms) = ran (mem_view ms) \<and>
    (\<forall>ys. mset ys = mset (map snd (ms_data ms)) \<longrightarrow> sorted (map m_ID ys) \<longrightarrow> ys = mem_GetAllSorted ms)"
proof -
  note p = mem_GetAllSorted_props [OF assms]
  have "set (mem_GetAllSorted ms) = ran (mem_view ms)"
    using p(3) mem_okD(1) [OF assms] by (fastforce simp: ran_def)
  moreover have "ys = mem_GetAllSorted ms"
    if "mset ys = mset (map snd (ms_data ms))" "sorted (map m_ID ys)" for ys
    using sorted_by_key_unique [of "mem_GetAllSorted ms" ys m_ID] p that by simp
  ultimately show ?thesis using p by blast
qed

lemma mem_GetAllSorted_unique_witness:
  "sorted (map m_ID (mem_GetAllSorted (mem_put ''b'' (NewCounterMetricsWithDelta ''b'' 1)
     (mem_put ''a'' (NewCounterMetricsWithDelta ''a'' 1) NewMemStorage))))"
  using mem_GetAllSorted_unique [OF mem_ok_put [OF mem_ok_put [OF mem_ok_new]]] by simp

end
