(* ===== verification/Service.thy ===== *)
theory Service
  imports MemStorage
begin

text \<open>
  \<open>internal/service/metrics.go\<close>: the service between the HTTP handlers and the storage. It
  is written against two interfaces, \<open>repository.Storage\<close> and \<open>service.Auditor\<close>, so its
  operations take the method tables of both. The clock is an argument (\<open>ts\<close>). The lemmas are
  proved once, from the storage contract, in the contexts of its two locales.
\<close>

record 'a auditor_ops =
  op_OnMetricsUpdate :: "int64 \<Rightarrow> gostring \<Rightarrow> metrics option list \<Rightarrow> 'a \<Rightarrow> goerror option outcome \<times> 'a"

record ('s, 'a) metrics_service =
  srv_storage :: 's
  srv_auditors :: "'a list"

definition NewMetricsService :: "'s \<Rightarrow> ('s, 'a) metrics_service" where
  "NewMetricsService st = \<lparr>srv_storage = st, srv_auditors = []\<rparr>"

definition SubscribeAuditor :: "'a \<Rightarrow> ('s, 'a) metrics_service \<Rightarrow> ('s, 'a) metrics_service" where
  "SubscribeAuditor a srv = srv\<lparr>srv_auditors := srv_auditors srv @ [a]\<rparr>"

text \<open>Every auditor is told of the update, in the order of subscription; an error of one is
  logged and the next one is told all the same.\<close>

fun notify_all ::
    "'a auditor_ops \<Rightarrow> int64 \<Rightarrow> gostring \<Rightarrow> metrics option list \<Rightarrow> 'a list \<Rightarrow> unit outcome \<times> 'a list" where
  "notify_all aops ts ip ps [] = (Done (), [])"
| "notify_all aops ts ip ps (a # as) =
     (case op_OnMetricsUpdate aops ts ip ps a of
        (Panic, a') \<Rightarrow> (Panic, a' # as)
      | (Done _, a') \<Rightarrow> (case notify_all aops ts ip ps as of (r, as') \<Rightarrow> (r, a' # as')))"

definition notifyAuditors ::
    "'a auditor_ops \<Rightarrow> int64 \<Rightarrow> gostring \<Rightarrow> metrics option list \<Rightarrow> ('s, 'a) metrics_service
      \<Rightarrow> goerror option outcome \<times> ('s, 'a) metrics_service" where
  "notifyAuditors aops ts ip ps srv =
     (case notify_all aops ts ip ps (srv_auditors srv) of
        (r, as) \<Rightarrow> (case r of Done _ \<Rightarrow> Done None | Panic \<Rightarrow> Panic, srv\<lparr>srv_auditors := as\<rparr>))"

text \<open>What both updates of a single metric do with the storage's answer.\<close>

definition finish_update ::
    "'a auditor_ops \<Rightarrow> int64 \<Rightarrow> gostring \<Rightarrow> metrics \<Rightarrow> goerror option \<times> 's \<Rightarrow> ('s, 'a) metrics_service
      \<Rightarrow> goerror option outcome \<times> ('s, 'a) metrics_service" where
  "finish_update aops ts ip m answer srv =
     (case answer of
        (Some e, st) \<Rightarrow> (Done (Some (errorf ''unable to update metric: '' e [])), srv\<lparr>srv_storage := st\<rparr>)
      | (None, st) \<Rightarrow> notifyAuditors aops ts ip [Some m] (srv\<lparr>srv_storage := st\<rparr>))"

definition AccumulateMetric ::
    "'s storage_ops \<Rightarrow> 'a auditor_ops \<Rightarrow> int64 \<Rightarrow> metrics \<Rightarrow> gostring \<Rightarrow> ('s, 'a) metrics_service
      \<Rightarrow> goerror option outcome \<times> ('s, 'a) metrics_service" where
  "AccumulateMetric ops aops ts m ip srv =
     (if m_MType m = Counter then
        (case m_Delta m of
           None \<Rightarrow> (Done (Some (Sentinel ErrMetricValueNotProvided)), srv)
         | Some d \<Rightarrow> finish_update aops ts ip m (op_AddCounter ops (m_ID m) d (srv_storage srv)) srv)
      else if m_MType m = Gauge then
        (case m_Value m of
           None \<Rightarrow> (Done (Some (Sentinel ErrMetricValueNotProvided)), srv)
         | Some v \<Rightarrow> finish_update aops ts ip m (op_SetGauge ops (m_ID m) v (srv_storage srv)) srv)
      else (Done (Some (errorf [] (Sentinel ErrUnsupportedMetricType) ('': '' @ m_MType m))), srv))"

definition GetMetric ::
    "'s storage_ops \<Rightarrow> gostring \<Rightarrow> gostring \<Rightarrow> ('s, 'a) metrics_service
      \<Rightarrow> (goerror + metrics) \<times> ('s, 'a) metrics_service" where
  "GetMetric ops i mtype srv =
     (case op_GetByID ops i (srv_storage srv) of
        (Inl e, st) \<Rightarrow> (Inl e, srv\<lparr>srv_storage := st\<rparr>)
      | (Inr mi, st) \<Rightarrow>
          (if m_MType mi \<noteq> mtype then Inl (Sentinel ErrIncorrectAccess) else Inr mi,
           srv\<lparr>srv_storage := st\<rparr>))"

definition BatchAccumulateMetrics ::
    "'s storage_ops \<Rightarrow> 'a auditor_ops \<Rightarrow> int64 \<Rightarrow> metrics option list \<Rightarrow> gostring \<Rightarrow> ('s, 'a) metrics_service
      \<Rightarrow> goerror option outcome \<times> ('s, 'a) metrics_service" where
  "BatchAccumulateMetrics ops aops ts ps ip srv =
     (case op_BatchUpdate ops ps (srv_storage srv) of
        (Panic, st) \<Rightarrow> (Panic, srv\<lparr>srv_storage := st\<rparr>)
      | (Done (Some e), st) \<Rightarrow>
          (Done (Some (errorf ''failed to store metric values: '' e [])), srv\<lparr>srv_storage := st\<rparr>)
      | (Done None, st) \<Rightarrow> notifyAuditors aops ts ip ps (srv\<lparr>srv_storage := st\<rparr>))"

definition PingStorage ::
    "'s storage_ops \<Rightarrow> ('s, 'a) metrics_service \<Rightarrow> goerror option \<times> ('s, 'a) metrics_service" where
  "PingStorage ops srv =
     (case op_Ping ops (srv_storage srv) of (r, st) \<Rightarrow> (r, srv\<lparr>srv_storage := st\<rparr>))"

section \<open>The page of all metrics\<close>

text \<open>The escaping of \<open>html/template\<close> for text between tags.\<close>

definition html_escape_char :: "char \<Rightarrow> gostring" where
  "html_escape_char c =
     (if c = CHR 0x00 then [CHR 0xEF, CHR 0xBF, CHR 0xBD]
      else if c = CHR 0x22 then ''&#34;''
      else if c = CHR ''&'' then ''&amp;''
      else if c = CHR 0x27 then ''&#39;''
      else if c = CHR ''+'' then ''&#43;''
      else if c = CHR ''<'' then ''&lt;''
      else if c = CHR ''>'' then ''&gt;''
      else [c])"

definition html_escape :: "gostring \<Rightarrow> gostring" where
  "html_escape s = concat (map html_escape_char s)"

text \<open>The embedded template \<open>metricspage.html\<close>: before, in and after its loop over the metrics.\<close>

definition page_head :: gostring where
  "page_head =
     ''<!DOCTYPE html>'' @ [CHR 0x0A] @ ''<html>'' @ [CHR 0x0A] @ ''<head>'' @ [CHR 0x0A] @
     ''    <title>metrics-overseer: collected metrics</title>'' @ [CHR 0x0A] @ ''    <style>'' @
     [CHR 0x0A] @ ''        table { border-collapse: collapse; width: 100%; }'' @ [CHR 0x0A] @
     ''        th, td { border: 1px solid #ccc; padding: 8px; text-align: left; }'' @ [CHR 0x0A] @
     ''        th { background-color: #f2f2f2; }'' @ [CHR 0x0A] @ ''    </style>'' @ [CHR 0x0A] @
     ''</head>'' @ [CHR 0x0A] @ ''<body>'' @ [CHR 0x0A] @ ''    <h3>Collected metrics</h3>'' @
     [CHR 0x0A] @ ''    <table>'' @ [CHR 0x0A] @ ''        <tr>'' @ [CHR 0x0A] @
     ''            <th>Name</th>'' @ [CHR 0x0A] @ ''            <th>Kind</th>'' @ [CHR 0x0A] @
     ''            <th>Value</th>'' @ [CHR 0x0A] @ ''        </tr>'' @ [CHR 0x0A] @ ''        ''"

definition page_row :: "metrics \<Rightarrow> gostring" where
  "page_row m =
     [CHR 0x0A] @ ''        <tr>'' @ [CHR 0x0A] @ ''            <td>'' @ html_escape (m_ID m) @
     ''</td>'' @ [CHR 0x0A] @ ''            <td>'' @ html_escape (m_MType m) @ ''</td>'' @
     [CHR 0x0A] @ ''            <td>'' @ html_escape (StringValue m) @ ''</td>'' @ [CHR 0x0A] @
     ''        </tr>'' @ [CHR 0x0A] @ ''        ''"

definition page_tail :: gostring where
  "page_tail =
     [CHR 0x0A] @ ''    </table>'' @ [CHR 0x0A] @ ''</body>''"

definition metrics_page :: "metrics list \<Rightarrow> gostring" where
  "metrics_page ms = page_head @ concat (map page_row ms) @ page_tail"

definition GenerateAllMetricsHTML ::
    "'s storage_ops \<Rightarrow> ('s, 'a) metrics_service \<Rightarrow> (goerror + gostring) \<times> ('s, 'a) metrics_service" where
  "GenerateAllMetricsHTML ops srv =
     (case op_GetAllSorted ops (srv_storage srv) of
        (Inl err, st) \<Rightarrow> (Inl (errorf ''can't get all metrics from storage: '' err []), srv\<lparr>srv_storage := st\<rparr>)
      | (Inr ms, st) \<Rightarrow> (Inr (metrics_page ms), srv\<lparr>srv_storage := st\<rparr>))"

section \<open>Notification\<close>

lemma notifyAuditors_storage: "notifyAuditors aops ts ip ps srv = (r, srv') \<Longrightarrow> srv_storage srv' = srv_storage srv"
  by (auto simp: notifyAuditors_def split: prod.splits)

lemma notifyAuditors_result: "notifyAuditors aops ts ip ps srv = (r, srv') \<Longrightarrow> r = Done None \<or> r = Panic"
  by (auto simp: notifyAuditors_def split: prod.splits outcome.splits)

lemma length_notify_all: "notify_all aops ts ip ps as = (r, as') \<Longrightarrow> length as' = length as"
proof (induction as arbitrary: r as')
  case (Cons a as)
  then show ?case by (auto split: prod.splits outcome.splits)
qed simp

text \<open>Auditors that do not panic are all told, each exactly once, whatever errors they return.\<close>

definition auditors_total :: "'a auditor_ops \<Rightarrow> bool" where
  "auditors_total aops \<longleftrightarrow> (\<forall>ts ip ms a. fst (op_OnMetricsUpdate aops ts ip (map Some ms) a) \<noteq> Panic)"

lemma notify_all_total:
  assumes "auditors_total aops"
  shows "notify_all aops ts ip (map Some ms) as =
           (Done (), map (\<lambda>a. snd (op_OnMetricsUpdate aops ts ip (map Some ms) a)) as)"
proof (induction as)
  case (Cons a as)
  have "fst (op_OnMetricsUpdate aops ts ip (map Some ms) a) \<noteq> Panic"
    using assms by (simp add: auditors_total_def)
  with Cons show ?case by (cases "op_OnMetricsUpdate aops ts ip (map Some ms) a") (auto split: outcome.split)
qed simp

lemma notifyAuditors_total:
  "auditors_total aops \<Longrightarrow> notifyAuditors aops ts ip (map Some ms) srv =
     (Done None, srv\<lparr>srv_auditors := map (\<lambda>a. snd (op_OnMetricsUpdate aops ts ip (map Some ms) a)) (srv_auditors srv)\<rparr>)"
  by (simp add: notifyAuditors_def notify_all_total)

text \<open>An auditor that drops what it is told.\<close>

definition null_auditor :: "'a auditor_ops" where
  "null_auditor = \<lparr>op_OnMetricsUpdate = (\<lambda>ts ip ps a. (Done None, a))\<rparr>"

lemma auditors_total_null [simp]: "auditors_total null_auditor"
  by (simp add: auditors_total_def null_auditor_def)

text \<open>Every auditor is told once of an accepted update, in the order of subscription, and of no other.\<close>

lemma accumulate_told:
  fixes aops :: "'a auditor_ops" and srv :: "('s, 'a) metrics_service"
  assumes "auditors_total aops" and "AccumulateMetric ops aops ts m ip srv = (r, srv')"
  shows "if r = Done None
    then srv_auditors srv' = map (\<lambda>a. snd (op_OnMetricsUpdate aops ts ip [Some m] a)) (srv_auditors srv)
    else srv_auditors srv' = srv_auditors srv"
proof -
  have n: "notifyAuditors aops ts ip [Some m] s =
      (Done None, s\<lparr>srv_auditors := map (\<lambda>a. snd (op_OnMetricsUpdate aops ts ip [Some m] a)) (srv_auditors s)\<rparr>)"
    for s :: "('s, 'a) metrics_service"
    using notifyAuditors_total [OF assms(1), of ts ip "[m]" s] by simp
  have f: "if r = Done None
      then srv_auditors srv' = map (\<lambda>a. snd (op_OnMetricsUpdate aops ts ip [Some m] a)) (srv_auditors srv)
      else srv_auditors srv' = srv_auditors srv"
    if "finish_update aops ts ip m answer srv = (r, srv')" for answer
    using that by (auto simp: finish_update_def n split: prod.splits option.splits)
  show ?thesis
    using assms(2) f [of "op_AddCounter ops (m_ID m) (the (m_Delta m)) (srv_storage srv)"]
      f [of "op_SetGauge ops (m_ID m) (the (m_Value m)) (srv_storage srv)"]
    by (auto simp: AccumulateMetric_def split: if_splits option.splits)
qed

section \<open>The service over any storage\<close>

lemma finish_update_cases:
  assumes "finish_update aops ts ip m answer srv = (r, srv')"
  obtains e st where "answer = (Some e, st)" "r = Done (Some (errorf ''unable to update metric: '' e []))"
      "srv' = srv\<lparr>srv_storage := st\<rparr>"
  | st where "answer = (None, st)" "r = Done None \<or> r = Panic" "srv_storage srv' = st"
      "notifyAuditors aops ts ip [Some m] (srv\<lparr>srv_storage := st\<rparr>) = (r, srv')"
  using assms notifyAuditors_storage [of aops ts ip "[Some m]"] notifyAuditors_result [of aops ts ip "[Some m]"]
  by (fastforce simp: finish_update_def split: prod.splits option.splits)

lemma value_required:
  "AccumulateMetric ops aops ts m ip srv = (Done None, srv') \<Longrightarrow>
     (m_MType m = Counter \<and> m_Delta m \<noteq> None) \<or> (m_MType m = Gauge \<and> m_Value m \<noteq> None)"
  by (auto simp: AccumulateMetric_def split: if_splits option.splits)

context storage_contract
begin

lemma accumulate_ok:
  assumes "ok (srv_storage srv)" and "AccumulateMetric ops aops ts m ip srv = (r, srv')"
  shows "ok (srv_storage srv')"
  using assms counter_ok [OF assms(1)] gauge_ok [OF assms(1)]
  by (auto simp: AccumulateMetric_def split: if_splits option.splits elim!: finish_update_cases)

lemma accumulate_done:
  assumes "ok (srv_storage srv)" and "AccumulateMetric ops aops ts m ip srv = (Done None, srv')"
  shows "type_free (m_MType m) (m_ID m) (view (srv_storage srv))"
    "view (srv_storage srv') = spec_update m (view (srv_storage srv))"
  using assms counter_done [OF assms(1)] gauge_done [OF assms(1)]
  by (auto simp: AccumulateMetric_def spec_update_def split: if_splits option.splits elim!: finish_update_cases)

lemma accumulate_refused:
  assumes "ok (srv_storage srv)" and "AccumulateMetric ops aops ts m ip srv = (Done (Some e), srv')"
    and "errors_is e ErrIncorrectAccess"
  shows "\<not> type_free (m_MType m) (m_ID m) (view (srv_storage srv))"
    "view (srv_storage srv') = view (srv_storage srv)" "srv_auditors srv' = srv_auditors srv"
  using assms counter_refused [OF assms(1)] gauge_refused [OF assms(1)]
  by (auto simp: AccumulateMetric_def split: if_splits option.splits elim!: finish_update_cases)

lemma get_metric_found:
  assumes "ok (srv_storage srv)" and "GetMetric ops i t srv = (Inr m, srv')"
  shows "m_ID m = i \<and> m_MType m = t \<and> view (srv_storage srv) i = Some m"
    "view (srv_storage srv') = view (srv_storage srv)"
  using assms get_found [OF assms(1), of i] get_frame [OF assms(1), of i] view_ID [OF assms(1), of i]
  by (auto simp: GetMetric_def split: prod.splits sum.splits if_splits)

lemma batch_accumulate_done:
  assumes "ok (srv_storage srv)" and "clean_batch ms"
    and "BatchAccumulateMetrics ops aops ts (map Some ms) ip srv = (Done None, srv')"
  shows "\<not> batch_conflict ms (view (srv_storage srv))"
    "view (srv_storage srv') = fold spec_update ms (view (srv_storage srv))"
  using assms batch_done [OF assms(1,2)]
  by (auto simp: BatchAccumulateMetrics_def dest!: notifyAuditors_storage
      split: prod.splits option.splits outcome.splits)

lemma batch_accumulate_ok:
  assumes "ok (srv_storage srv)" and "clean_batch ms"
    and "BatchAccumulateMetrics ops aops ts (map Some ms) ip srv = (r, srv')"
  shows "ok (srv_storage srv')"
  using assms batch_ok [OF assms(1,2)]
  by (auto simp: BatchAccumulateMetrics_def dest!: notifyAuditors_storage
      split: prod.splits option.splits outcome.splits)

text \<open>What was accumulated without an error can be read back.\<close>

lemma accumulate_then_get:
  assumes "ok (srv_storage srv)" and "AccumulateMetric ops aops ts m ip srv = (Done None, srv')"
    and "GetMetric ops (m_ID m) (m_MType m) srv' = (Inr n, srv'')"
  shows "(m_MType m = Counter \<longrightarrow>
            m_Delta n = Some (counter_of (view (srv_storage srv)) (m_ID m) + delta_or_0 (m_Delta m)))
       \<and> (m_MType m = Gauge \<longrightarrow> m_Value n = m_Value m)"
proof -
  have v: "view (srv_storage srv') = spec_update m (view (srv_storage srv))"
    using accumulate_done(2) [OF assms(1,2)] .
  have n: "view (srv_storage srv') (m_ID m) = Some n"
    using get_metric_found(1) [OF accumulate_ok [OF assms(1,2)] assms(3)] by simp
  show ?thesis using v n value_required [OF assms(2)]
    by (auto simp: spec_update_def counter_of_def)
qed

end

context reliable_storage
begin

text \<open>A reliable storage takes every update whose type fits and finds every metric of the
  right type.\<close>

lemma accumulate_total:
  assumes "ok (srv_storage srv)" and "type_free (m_MType m) (m_ID m) (view (srv_storage srv))"
    and "(m_MType m = Counter \<and> m_Delta m \<noteq> None) \<or> (m_MType m = Gauge \<and> m_Value m \<noteq> None)"
    and "auditors_total aops"
  shows "\<exists>srv'. AccumulateMetric ops aops ts m ip srv = (Done None, srv')"
proof -
  have n: "notifyAuditors aops ts ip [Some m] x = (Done None, snd (notifyAuditors aops ts ip [Some m] x))"
    for x :: "('a, 'b) metrics_service"
    using notifyAuditors_total [OF assms(4), of ts ip "[m]" x] by simp
  show ?thesis
  proof (cases "m_MType m = Counter")
    case True
    then obtain d where "m_Delta m = Some d" using assms(3) by auto
    moreover obtain st where "op_AddCounter ops (m_ID m) d (srv_storage srv) = (None, st)"
      using assms(2) True counter_total [OF assms(1), of "m_ID m" d] by auto
    ultimately show ?thesis using True n by (auto simp: AccumulateMetric_def finish_update_def)
  next
    case False
    then obtain v where "m_Value m = Some v" and g: "m_MType m = Gauge" using assms(3) by auto
    moreover obtain st where "op_SetGauge ops (m_ID m) v (srv_storage srv) = (None, st)"
      using assms(2) g gauge_total [OF assms(1), of "m_ID m" v] by auto
    ultimately show ?thesis using False assms(3) n by (auto simp: AccumulateMetric_def finish_update_def)
  qed
qed

lemma get_metric_total:
  assumes "ok (srv_storage srv)" and "view (srv_storage srv) i = Some m"
  shows "\<exists>srv'. GetMetric ops i (m_MType m) srv = (Inr m, srv')"
  using get_total [OF assms] by (auto simp: GetMetric_def)

lemma get_metric_error:
  assumes "ok (srv_storage srv)" and "GetMetric ops i t srv = (Inl e, srv')"
  shows "(errors_is e ErrMetricNotFound \<and> view (srv_storage srv) i = None)
       \<or> (errors_is e ErrIncorrectAccess \<and> (\<exists>m. view (srv_storage srv) i = Some m \<and> m_MType m \<noteq> t))"
  using assms get_error [OF assms(1), of i] get_missing [OF assms(1), of i] get_found [OF assms(1), of i]
  by (fastforce simp: GetMetric_def split: prod.splits sum.splits if_splits)

end

end
