(* ===== verification/Handlers.thy ===== *)
theory Handlers
  imports Service Encrypt MetricsJson
begin

text \<open>
  \<open>internal/handler/handlers.go\<close>: the handlers for updates by path, by JSON body and in
  batches, for reading a value as plain text and as JSON, for the page of all metrics and for
  the storage ping, with the helpers they share and the routes with their middlewares. The
  lemmas give the status code and the effect of every handler on every branch, over any
  storage that keeps its contract, and show that every handler answers in one of the ways
  the middlewares are transparent to.
\<close>

section \<open>The helpers\<close>

text \<open>What a \<open>MetricsHandlers\<close> value carries: the method tables its service was built with, the
  clock, the secret key, the decrypter, and the text of the error of \<open>json.Unmarshal\<close> for a body it refuses. The
  service itself is the state.\<close>

record ('s, 'a) metrics_handlers =
  mh_ops :: "'s storage_ops"
  mh_aops :: "'a auditor_ops"
  mh_clock :: int64
  mh_SecretKey :: gostring
  mh_decrypter :: decrypter
  mh_json_error :: "gostring \<Rightarrow> gostring"

text \<open>The part of the configuration that is used here, and the constructor, with the embedded
  service's parameters.\<close>

record security_config =
  sc_SecretKey :: gostring
  sc_PrivateKeyPath :: gostring

definition NewMetricsHandlers ::
    "('pub, 'priv, 'e) crypto \<Rightarrow> (gostring \<Rightarrow> goerror + gostring) \<Rightarrow> 's storage_ops \<Rightarrow> 'a auditor_ops \<Rightarrow> int64
      \<Rightarrow> (gostring \<Rightarrow> gostring) \<Rightarrow> security_config \<Rightarrow> goerror + ('s, 'a) metrics_handlers" where
  "NewMetricsHandlers cp ReadFile ops aops clock json_error securityCfg =
     (case (if sc_PrivateKeyPath securityCfg \<noteq> [] then
              (case ReadRSAPrivateKeyFromFile cp ReadFile (sc_PrivateKeyPath securityCfg) of
                 Inl err \<Rightarrow> Inl err | Inr priv \<Rightarrow> Inr (Some priv))
            else Inr None) of
        Inl err \<Rightarrow> Inl (errorf ''error reading private key for decryption: '' err [])
      | Inr privKey \<Rightarrow>
          Inr \<lparr>mh_ops = ops, mh_aops = aops, mh_clock = clock, mh_SecretKey = sc_SecretKey securityCfg,
               mh_decrypter = engine_decrypter cp (builder_Build (builder_PrivateKey privKey NewRSAEngineBuilder)),
               mh_json_error = json_error\<rparr>)"

definition extractRemoteIPAddress :: "request \<Rightarrow> gostring" where
  "extractRemoteIPAddress r = (case SplitHostPort (rq_RemoteAddr r) of None \<Rightarrow> ''N/A'' | Some ip \<Rightarrow> ip)"

definition buildMetric :: "gostring \<Rightarrow> gostring \<Rightarrow> gostring \<Rightarrow> handler_error + metrics" where
  "buildMetric i mtype svalue =
     (if mtype = Counter then
        (case parse_int svalue of
           None \<Rightarrow> Inl (NewValidationHandlerError (''invalid metric value: '' @ svalue))
         | Some d \<Rightarrow> Inr (NewMetrics i mtype (Some d) None))
      else if mtype = Gauge then
        (case parse_float svalue of
           None \<Rightarrow> Inl (NewValidationHandlerError (''invalid metric value: '' @ svalue))
         | Some v \<Rightarrow> Inr (NewMetrics i mtype None (Some v)))
      else Inl (NewValidationHandlerError (''unsupported metric type: '' @ mtype)))"

definition validateMetric :: "metrics \<Rightarrow> handler_error option" where
  "validateMetric m =
     (if m_MType m = Counter then
        (if m_Delta m = None then Some (NewValidationHandlerError ''missing counter metric value'') else None)
      else if m_MType m = Gauge then
        (if m_Value m = None then Some (NewValidationHandlerError ''missing gauge metric value'') else None)
      else Some (NewValidationHandlerError (''unsupported metric type: '' @ m_MType m)))"

definition processUpdateMetric ::
    "('s, 'a) metrics_handlers \<Rightarrow> metrics \<Rightarrow> gostring \<Rightarrow> ('s, 'a) metrics_service
      \<Rightarrow> handler_error option outcome \<times> ('s, 'a) metrics_service" where
  "processUpdateMetric mh m ip srv =
     (case AccumulateMetric (mh_ops mh) (mh_aops mh) (mh_clock mh) m ip srv of
        (Panic, srv') \<Rightarrow> (Panic, srv')
      | (Done None, srv') \<Rightarrow> (Done None, srv')
      | (Done (Some err), srv') \<Rightarrow>
          (Done (Some (if errors_is err ErrUnsupportedMetricType then NewValidationHandlerError (error_text err)
             else if errors_is err ErrIncorrectAccess then NewValidationHandlerError ''wrong metric type''
             else NewInternalServerError (errorf ''error updating metric: '' err []))), srv'))"

definition getMetric ::
    "('s, 'a) metrics_handlers \<Rightarrow> gostring \<Rightarrow> gostring \<Rightarrow> ('s, 'a) metrics_service
      \<Rightarrow> (handler_error + metrics) \<times> ('s, 'a) metrics_service" where
  "getMetric mh i mtype srv =
     (if is_blank i then (Inl (NewValidationHandlerError ''missing metric id''), srv)
      else if mtype \<noteq> Counter \<and> mtype \<noteq> Gauge then
        (Inl (NewValidationHandlerError (''unsupported metric type: '' @ mtype)), srv)
      else case GetMetric (mh_ops mh) i mtype srv of
        (Inl err, srv') \<Rightarrow>
          (Inl (if errors_is err ErrMetricNotFound \<or> errors_is err ErrIncorrectAccess
                then NewNotFoundHandlerError ''metric not found''
                else NewInternalServerError (errorf ''error getting metric: '' err [])), srv')
      | (Inr m, srv') \<Rightarrow> (Inr m, srv'))"

definition plain_value :: "metrics \<Rightarrow> gostring" where
  "plain_value m =
     (if m_MType m = Counter then (case m_Delta m of None \<Rightarrow> ''nil'' | Some d \<Rightarrow> format_int d)
      else if m_MType m = Gauge then (case m_Value m of None \<Rightarrow> ''nil'' | Some v \<Rightarrow> format_float v)
      else [])"

definition renderMetricValue :: "('s, 'a) metrics_handlers \<Rightarrow> metrics \<Rightarrow> response_writer \<Rightarrow> response_writer" where
  "renderMetricValue mh m w =
     (let payload = plain_value m;
          h = header_add ''Content-Type'' ''text/plain'' (AddSignature (mh_SecretKey mh) payload (Header w))
      in rw_Write payload (WriteHeader StatusOK (set_header h w)))"

definition renderMetricJSON :: "('s, 'a) metrics_handlers \<Rightarrow> metrics \<Rightarrow> response_writer \<Rightarrow> response_writer" where
  "renderMetricJSON mh m w =
     (case MarshalIndent m of
        Inl err \<Rightarrow> WriteHeader StatusInternalServerError w
      | Inr payload \<Rightarrow>
          (let h = header_add ''Content-Type'' ''application/json'' (AddSignature (mh_SecretKey mh) payload (Header w))
           in rw_Write payload (WriteHeader StatusOK (set_header h w))))"

section \<open>The handlers\<close>

definition updateByPath :: "('s, 'a) metrics_handlers \<Rightarrow> ('s, 'a) metrics_service handler" where
  "updateByPath mh r w srv =
     (let mtype = rq_URLParam r ''mtype''; i = rq_URLParam r ''id''; svalue = rq_URLParam r ''value''
      in case buildMetric i mtype svalue of
           Inl he \<Rightarrow> (Done (), Render he w, srv)
         | Inr m \<Rightarrow>
             (case processUpdateMetric mh m (extractRemoteIPAddress r) srv of
                (Panic, srv') \<Rightarrow> (Panic, w, srv')
              | (Done (Some he), srv') \<Rightarrow> (Done (), Render he w, srv')
              | (Done None, srv') \<Rightarrow> (Done (), WriteHeader StatusOK w, srv')))"

text \<open>A body is read, decoded (\<open>Some None\<close> is the JSON value \<open>null\<close>, which gives a nil pointer)
  and used; \<open>validateMetric\<close> dereferences the pointer.\<close>

definition updateByBody :: "('s, 'a) metrics_handlers \<Rightarrow> ('s, 'a) metrics_service handler" where
  "updateByBody mh r w srv =
     (case rq_body r of
        Inl err \<Rightarrow> (Done (), Render (NewValidationHandlerError (''error reading request body: '' @ error_text err)) w, srv)
      | Inr body \<Rightarrow>
          (case Unmarshal body of
             None \<Rightarrow>
               (Done (), Render (NewValidationHandlerError (''error unmarshalling request body: '' @ mh_json_error mh body)) w, srv)
           | Some None \<Rightarrow> (Panic, w, srv)
           | Some (Some m) \<Rightarrow>
               (case validateMetric m of
                  Some he \<Rightarrow> (Done (), Render he w, srv)
                | None \<Rightarrow>
                    (case processUpdateMetric mh m (extractRemoteIPAddress r) srv of
                       (Panic, srv') \<Rightarrow> (Panic, w, srv')
                     | (Done (Some he), srv') \<Rightarrow> (Done (), Render he w, srv')
                     | (Done None, srv') \<Rightarrow> (Done (), WriteHeader StatusOK w, srv')))))"

definition updateBatch :: "('s, 'a) metrics_handlers \<Rightarrow> ('s, 'a) metrics_service handler" where
  "updateBatch mh r w srv =
     (case rq_body r of
        Inl err \<Rightarrow> (Done (), Render (NewValidationHandlerError (''error reading request body: '' @ error_text err)) w, srv)
      | Inr body \<Rightarrow>
          (case Unmarshal_list body of
             None \<Rightarrow>
               (Done (), Render (NewValidationHandlerError (''error unmarshalling body: '' @ mh_json_error mh body)) w, srv)
           | Some ps \<Rightarrow>
               (case BatchAccumulateMetrics (mh_ops mh) (mh_aops mh) (mh_clock mh) ps (extractRemoteIPAddress r) srv of
                  (Panic, srv') \<Rightarrow> (Panic, w, srv')
                | (Done (Some err), srv') \<Rightarrow>
                    if errors_is err ErrIncorrectAccess
                    then (Done (), Render (NewValidationHandlerError (error_text err)) w, srv')
                    else (Done (), WriteHeader StatusOK w, srv')
                | (Done None, srv') \<Rightarrow> (Done (), WriteHeader StatusOK w, srv'))))"

definition getPlainValue :: "('s, 'a) metrics_handlers \<Rightarrow> ('s, 'a) metrics_service handler" where
  "getPlainValue mh r w srv =
     (let mtype = rq_URLParam r ''mtype''; i = rq_URLParam r ''id''
      in case getMetric mh i mtype srv of
           (Inl he, srv') \<Rightarrow> (Done (), Render he w, srv')
         | (Inr m, srv') \<Rightarrow> (Done (), renderMetricValue mh m w, srv'))"

definition getJSONValue :: "('s, 'a) metrics_handlers \<Rightarrow> ('s, 'a) metrics_service handler" where
  "getJSONValue mh r w srv =
     (case rq_body r of
        Inl err \<Rightarrow> (Done (), Render (NewValidationHandlerError (''error reading request body: '' @ error_text err)) w, srv)
      | Inr body \<Rightarrow>
          (case Unmarshal body of
             None \<Rightarrow>
               (Done (), Render (NewValidationHandlerError (''error decoding body: '' @ mh_json_error mh body)) w, srv)
           | Some None \<Rightarrow> (Panic, w, srv)
           | Some (Some q) \<Rightarrow>
               (case getMetric mh (m_ID q) (m_MType q) srv of
                  (Inl he, srv') \<Rightarrow> (Done (), Render he w, srv')
                | (Inr m, srv') \<Rightarrow> (Done (), renderMetricJSON mh m w, srv'))))"

definition showMetricsPage :: "('s, 'a) metrics_handlers \<Rightarrow> ('s, 'a) metrics_service handler" where
  "showMetricsPage mh r w srv =
     (case GenerateAllMetricsHTML (mh_ops mh) srv of
        (Inl err, srv') \<Rightarrow> (Done (), http_Error ''unable to render metrics page'' StatusInternalServerError w, srv')
      | (Inr payload, srv') \<Rightarrow>
          (let h = header_add ''Content-Type'' ''text/html'' (AddSignature (mh_SecretKey mh) payload (Header w))
           in (Done (), rw_Write payload (WriteHeader StatusOK (set_header h w)), srv')))"

definition pingStorage :: "('s, 'a) metrics_handlers \<Rightarrow> ('s, 'a) metrics_service handler" where
  "pingStorage mh r w srv =
     (case PingStorage (mh_ops mh) srv of
        (Some err, srv') \<Rightarrow> (Done (), http_Error InternalServerErrorText StatusInternalServerError w, srv')
      | (None, srv') \<Rightarrow> (Done (), WriteHeader StatusOK w, srv'))"

section \<open>The routes\<close>

text \<open>The router is the package chi; a route is what is registered with it: the method, the
  pattern of the sub-router it is mounted under (or none), its own pattern, and the handler with
  the middlewares applied.\<close>

record 't route =
  rt_method :: gostring
  rt_mount :: gostring
  rt_pattern :: gostring
  rt_handler :: "'t handler"

definition secureR :: "gzip_lib \<Rightarrow> ('s, 'a) metrics_handlers \<Rightarrow> 't handler \<Rightarrow> 't handler" where
  "secureR lib mh h =
     logging_Middleware
       (auth_Middleware (NewAuthorization (mh_SecretKey mh))
         (compressing_Middleware (NewCompressing lib)
           (decryption_Middleware (mh_decrypter mh) h)))"

definition plainR :: "gzip_lib \<Rightarrow> 't handler \<Rightarrow> 't handler" where
  "plainR lib h = logging_Middleware (compressing_Middleware (NewCompressing lib) h)"

definition GetRouter :: "gzip_lib \<Rightarrow> ('s, 'a) metrics_handlers \<Rightarrow> ('s, 'a) metrics_service route list" where
  "GetRouter lib mh =
     [\<lparr>rt_method = ''POST'', rt_mount = [], rt_pattern = ''/update/{mtype}/{id}/{value}'',
       rt_handler = secureR lib mh (updateByPath mh)\<rparr>,
      \<lparr>rt_method = ''POST'', rt_mount = ''/update'', rt_pattern = ''/'', rt_handler = secureR lib mh (updateByBody mh)\<rparr>,
      \<lparr>rt_method = ''POST'', rt_mount = ''/updates'', rt_pattern = ''/'', rt_handler = secureR lib mh (updateBatch mh)\<rparr>,
      \<lparr>rt_method = ''POST'', rt_mount = ''/value'', rt_pattern = ''/'', rt_handler = plainR lib (getJSONValue mh)\<rparr>,
      \<lparr>rt_method = ''GET'', rt_mount = [], rt_pattern = ''/value/{mtype}/{id}'',
       rt_handler = plainR lib (getPlainValue mh)\<rparr>,
      \<lparr>rt_method = ''GET'', rt_mount = [], rt_pattern = ''/'', rt_handler = plainR lib (showMetricsPage mh)\<rparr>,
      \<lparr>rt_method = ''GET'', rt_mount = ''/ping'', rt_pattern = ''/'', rt_handler = plainR lib (pingStorage mh)\<rparr>]"

section \<open>The handlers are answering\<close>

lemma render_answers:
  "Render e w = respond (ErrorAnswer (he_Message e) (he_StatusCode e)) w"
  "WriteHeader c w = respond (StatusAnswer c) w"
  "http_Error msg c w = respond (ErrorAnswer msg c) w"
  by (simp_all add: Render_def respond.simps)

lemma renderMetricValue_answer [simp]:
  "renderMetricValue mh m w = respond (BodyAnswer (mh_SecretKey mh) ''text/plain'' (plain_value m)) w"
  by (simp add: renderMetricValue_def answer_header_def StatusOK_def Let_def respond.simps)

lemma renderMetricJSON_answer:
  "renderMetricJSON mh m w =
     respond (case MarshalIndent m of Inl e \<Rightarrow> StatusAnswer 500
       | Inr b \<Rightarrow> BodyAnswer (mh_SecretKey mh) ''application/json'' b) w"
  by (simp add: renderMetricJSON_def answer_header_def status_defs Let_def respond.simps split: sum.split)

interpretation by_path: answering "updateByPath mh" for mh
  by unfold_locales (simp only: updateByPath_def Let_def render_answers renderMetricValue_answer, (rule uniform_intros)+)

interpretation by_body: answering "updateByBody mh" for mh
  by unfold_locales (simp only: updateByBody_def Let_def render_answers renderMetricValue_answer, (rule uniform_intros)+)

interpretation by_batch: answering "updateBatch mh" for mh
  by unfold_locales (simp only: updateBatch_def Let_def render_answers renderMetricValue_answer, (rule uniform_intros)+)

interpretation plain_read: answering "getPlainValue mh" for mh
  by unfold_locales (simp only: getPlainValue_def Let_def render_answers renderMetricValue_answer, (rule uniform_intros)+)

interpretation json_read: answering "getJSONValue mh" for mh
  by unfold_locales (simp only: getJSONValue_def Let_def render_answers renderMetricJSON_answer, (rule uniform_intros)+)

lemma page_answer:
  "showMetricsPage mh r w srv =
     (case GenerateAllMetricsHTML (mh_ops mh) srv of
        (Inl err, srv') \<Rightarrow> (Done (), respond (ErrorAnswer ''unable to render metrics page'' 500) w, srv')
      | (Inr payload, srv') \<Rightarrow> (Done (), respond (BodyAnswer (mh_SecretKey mh) ''text/html'' payload) w, srv'))"
  by (simp add: showMetricsPage_def answer_header_def status_defs Let_def respond.simps split: sum.split prod.split)

interpretation page: answering "showMetricsPage mh" for mh
  by unfold_locales (simp only: page_answer, (rule uniform_intros)+)

interpretation ping: answering "pingStorage mh" for mh
  by unfold_locales (simp only: pingStorage_def Let_def render_answers renderMetricValue_answer, (rule uniform_intros)+)

section \<open>Updates by path\<close>

lemma buildMetric_cases:
  assumes "buildMetric i t s = x"
  obtains (counter) d where "t = Counter" "parse_int s = Some d" "x = Inr (NewMetrics i Counter (Some d) None)"
  | (gauge) v where "t = Gauge" "parse_float s = Some v" "x = Inr (NewMetrics i Gauge None (Some v))"
  | (invalid) he where "x = Inl he" "he_StatusCode he = 400" "he_Error he = None"
  using assms by (fastforce simp: buildMetric_def NewValidationHandlerError_def status_defs split: if_splits option.splits)

lemma buildMetric_value:
  assumes "buildMetric i t s = Inr m"
  shows "m_ID m = i" "m_MType m = t"
    "(m_MType m = Counter \<and> m_Delta m \<noteq> None) \<or> (m_MType m = Gauge \<and> m_Value m \<noteq> None)"
  using assms by (cases rule: buildMetric_cases; auto)+

context reliable_storage
begin

lemma accumulate_conflict:
  assumes "ok (srv_storage srv)" and "\<not> type_free (m_MType m) (m_ID m) (view (srv_storage srv))"
    and "(m_MType m = Counter \<and> m_Delta m \<noteq> None) \<or> (m_MType m = Gauge \<and> m_Value m \<noteq> None)"
  shows "\<exists>e srv'. AccumulateMetric ops aops ts m ip srv = (Done (Some e), srv') \<and> errors_is e ErrIncorrectAccess"
proof (cases "m_MType m = Counter")
  case True
  then obtain d where d: "m_Delta m = Some d" using assms(3) by auto
  obtain q st where q: "op_AddCounter ops (m_ID m) d (srv_storage srv) = (q, st)" by fastforce
  then have "q \<noteq> None" using counter_done [OF assms(1), of "m_ID m" d st] assms(2) True by (cases q) auto
  then obtain e where e: "q = Some e" by auto
  then show ?thesis using True d q counter_error [OF assms(1), of "m_ID m" d e st]
    by (simp add: AccumulateMetric_def finish_update_def)
next
  case False
  then have g: "m_MType m = Gauge" using assms(3) by auto
  then obtain v where v: "m_Value m = Some v" using assms(3) by auto
  obtain q st where q: "op_SetGauge ops (m_ID m) v (srv_storage srv) = (q, st)" by fastforce
  then have "q \<noteq> None" using gauge_done [OF assms(1), of "m_ID m" v st] assms(2) g by (cases q) auto
  then obtain e where e: "q = Some e" by auto
  then show ?thesis using g v q gauge_error [OF assms(1), of "m_ID m" v e st]
    by (simp add: AccumulateMetric_def finish_update_def)
qed

lemma process_update:
  assumes "ok (srv_storage srv)" and "mh_ops mh = ops" and "auditors_total (mh_aops mh)"
    and "(m_MType m = Counter \<and> m_Delta m \<noteq> None) \<or> (m_MType m = Gauge \<and> m_Value m \<noteq> None)"
  shows "\<exists>he srv'. processUpdateMetric mh m ip srv = (Done he, srv') \<and> ok (srv_storage srv') \<and>
    (if type_free (m_MType m) (m_ID m) (view (srv_storage srv))
     then he = None \<and> view (srv_storage srv') = spec_update m (view (srv_storage srv))
     else (\<exists>h. he = Some h \<and> he_StatusCode h = 400) \<and> view (srv_storage srv') = view (srv_storage srv))"
proof (cases "type_free (m_MType m) (m_ID m) (view (srv_storage srv))")
  case True
  then obtain srv' where "AccumulateMetric ops (mh_aops mh) (mh_clock mh) m ip srv = (Done None, srv')"
    using accumulate_total [OF assms(1) True assms(4,3)] by blast
  then show ?thesis using True assms(2) accumulate_done [OF assms(1)] accumulate_ok [OF assms(1)]
    by (fastforce simp: processUpdateMetric_def)
next
  case False
  then obtain e srv' where "AccumulateMetric ops (mh_aops mh) (mh_clock mh) m ip srv = (Done (Some e), srv')"
      and "errors_is e ErrIncorrectAccess"
    using accumulate_conflict [OF assms(1) False assms(4)] by blast
  then show ?thesis using False assms(2) accumulate_refused [OF assms(1)] accumulate_ok [OF assms(1)]
    by (fastforce simp: processUpdateMetric_def)
qed

lemma update_by_path:
  assumes "ok (srv_storage srv)" and "mh_ops mh = ops" and "auditors_total (mh_aops mh)" and "fresh w"
  shows "\<exists>w' srv'. updateByPath mh r w srv = (Done (), w', srv') \<and> ok (srv_storage srv') \<and>
    (case buildMetric (rq_URLParam r ''id'') (rq_URLParam r ''mtype'') (rq_URLParam r ''value'') of
       Inl he \<Rightarrow> status_of w' = 400 \<and> srv' = srv
     | Inr m \<Rightarrow>
         if type_free (m_MType m) (m_ID m) (view (srv_storage srv))
         then status_of w' = 200 \<and> view (srv_storage srv') = spec_update m (view (srv_storage srv))
         else status_of w' = 400 \<and> view (srv_storage srv') = view (srv_storage srv))"
proof (cases "buildMetric (rq_URLParam r ''id'') (rq_URLParam r ''mtype'') (rq_URLParam r ''value'')")
  case (Inl he)
  then have "he_StatusCode he = 400" by (cases rule: buildMetric_cases) auto
  then show ?thesis using Inl assms(1,4) by (simp add: updateByPath_def Let_def)
next
  case (Inr m)
  obtain he srv' where p: "processUpdateMetric mh m (extractRemoteIPAddress r) srv = (Done he, srv')"
    "ok (srv_storage srv')"
    "if type_free (m_MType m) (m_ID m) (view (srv_storage srv))
     then he = None \<and> view (srv_storage srv') = spec_update m (view (srv_storage srv))
     else (\<exists>h. he = Some h \<and> he_StatusCode h = 400) \<and> view (srv_storage srv') = view (srv_storage srv)"
    using process_update [OF assms(1-3) buildMetric_value(3) [OF Inr], of "extractRemoteIPAddress r"] by blast
  then show ?thesis using Inr assms(4) by (auto simp: updateByPath_def Let_def status_defs split: if_splits)
qed

lemma get_plain_value:
  assumes "ok (srv_storage srv)" and "mh_ops mh = ops" and "blank_writer w"
  shows "\<exists>w' srv'. getPlainValue mh r w srv = (Done (), w', srv') \<and> view (srv_storage srv') = view (srv_storage srv) \<and>
    (if is_blank (rq_URLParam r ''id'') \<or> rq_URLParam r ''mtype'' \<notin> {Counter, Gauge} then status_of w' = 400
     else case view (srv_storage srv) (rq_URLParam r ''id'') of
            None \<Rightarrow> status_of w' = 404
          | Some m \<Rightarrow>
              if m_MType m = rq_URLParam r ''mtype'' then status_of w' = 200 \<and> body_of w' = plain_value m
              else status_of w' = 404)"
proof -
  let ?i = "rq_URLParam r ''id''" and ?t = "rq_URLParam r ''mtype''"
  show ?thesis
  proof (cases "is_blank ?i \<or> ?t \<notin> {Counter, Gauge}")
    case True
    then show ?thesis using assms(3) by (auto simp: getPlainValue_def getMetric_def Let_def blank_writer_simps)
  next
    case False
    obtain q st where q: "op_GetByID ops ?i (srv_storage srv) = (q, st)" by fastforce
    have f: "view st = view (srv_storage srv)" using get_frame [OF assms(1) q] by simp
    show ?thesis
    proof (cases q)
      case (Inl e)
      then have "view (srv_storage srv) ?i = None" "errors_is e ErrMetricNotFound"
        using get_missing [OF assms(1), of ?i e st] get_error [OF assms(1), of ?i e st] q by simp_all
      then show ?thesis using False Inl q f assms(2,3)
        by (auto simp: getPlainValue_def getMetric_def GetMetric_def Let_def blank_writer_simps)
    next
      case (Inr m)
      then have "view (srv_storage srv) ?i = Some m" using get_found [OF assms(1), of ?i m st] q by simp
      then show ?thesis using False Inr q f assms(2,3)
        by (auto simp: getPlainValue_def getMetric_def GetMetric_def Let_def respond_blank blank_writer_simps)
    qed
  qed
qed

end

section \<open>JSON bodies\<close>

definition has_value :: "metrics \<Rightarrow> bool" where
  "has_value m \<longleftrightarrow> (m_MType m = Counter \<and> m_Delta m \<noteq> None) \<or> (m_MType m = Gauge \<and> m_Value m \<noteq> None)"

lemma validateMetric_cases:
  obtains "validateMetric m = None" "has_value m"
  | he where "validateMetric m = Some he" "he_StatusCode he = 400" "\<not> has_value m"
proof -
  have "validateMetric m = None \<and> has_value m \<or> (\<exists>he. validateMetric m = Some he \<and> he_StatusCode he = 400 \<and> \<not> has_value m)"
    by (auto simp: validateMetric_def has_value_def)
  then show thesis using that by blast
qed

lemma MarshalIndent_read:
  assumes "encodable m"
  obtains b where "MarshalIndent m = Inr b" "Unmarshal b = Some (Some (without_hash m))"
  using that [of "json_indent 0 (JObj (metrics_members m))"] metrics_json_ok [OF assms]
    parse_json_indent [of "JObj (metrics_members m)"]
  by (simp add: MarshalIndent_def Unmarshal_def max_nesting_depth_def del: json_depth_containers json_ok.simps)

context reliable_storage
begin

lemma update_by_body:
  assumes "ok (srv_storage srv)" and "mh_ops mh = ops" and "auditors_total (mh_aops mh)" and "fresh w"
    and "rq_body r = Inr body" and "Unmarshal body \<noteq> Some None"
  shows "\<exists>w' srv'. updateByBody mh r w srv = (Done (), w', srv') \<and> ok (srv_storage srv') \<and>
    (case Unmarshal body of
       Some (Some m) \<Rightarrow>
         if \<not> has_value m then status_of w' = 400 \<and> srv' = srv
         else if type_free (m_MType m) (m_ID m) (view (srv_storage srv))
         then status_of w' = 200 \<and> view (srv_storage srv') = spec_update m (view (srv_storage srv))
         else status_of w' = 400 \<and> view (srv_storage srv') = view (srv_storage srv)
     | _ \<Rightarrow> status_of w' = 400 \<and> srv' = srv)"
proof (cases "Unmarshal body")
  case None
  then show ?thesis using assms(1,4,5) by (simp add: updateByBody_def)
next
  case (Some q)
  then obtain m where m: "Unmarshal body = Some (Some m)" using assms(6) by (cases q) auto
  show ?thesis
  proof (cases m rule: validateMetric_cases)
    case 1
    obtain he srv' where p: "processUpdateMetric mh m (extractRemoteIPAddress r) srv = (Done he, srv')"
      "ok (srv_storage srv')"
      "if type_free (m_MType m) (m_ID m) (view (srv_storage srv))
       then he = None \<and> view (srv_storage srv') = spec_update m (view (srv_storage srv))
       else (\<exists>h. he = Some h \<and> he_StatusCode h = 400) \<and> view (srv_storage srv') = view (srv_storage srv)"
      using process_update [OF assms(1-3), of m "extractRemoteIPAddress r"] 1(2) by (auto simp: has_value_def)
    then show ?thesis using 1 m assms(4,5) by (auto simp: updateByBody_def status_defs split: if_splits)
  next
    case (2 he)
    then show ?thesis using m assms(1,4,5) by (simp add: updateByBody_def)
  qed
qed

lemma update_batch:
  assumes "ok (srv_storage srv)" and "mh_ops mh = ops" and "auditors_total (mh_aops mh)" and "fresh w"
    and "rq_body r = Inr body" and "Unmarshal_list body = Some (map Some ms)" and "clean_batch ms"
  shows "\<exists>w' srv'. updateBatch mh r w srv = (Done (), w', srv') \<and> ok (srv_storage srv') \<and>
    (if batch_conflict ms (view (srv_storage srv))
     then status_of w' = 400 \<and> view (srv_storage srv') = view (srv_storage srv)
     else status_of w' = 200 \<and> view (srv_storage srv') = fold spec_update ms (view (srv_storage srv)))"
proof -
  obtain q srv' where b: "BatchAccumulateMetrics ops (mh_aops mh) (mh_clock mh) (map Some ms)
      (extractRemoteIPAddress r) srv = (q, srv')" by fastforce
  note ok = batch_accumulate_ok [OF assms(1,7) b]
  show ?thesis
  proof (cases "batch_conflict ms (view (srv_storage srv))")
    case True
    then show ?thesis using batch_refused [OF assms(1,7)] b ok assms(2,4-6)
      by (auto simp: updateBatch_def BatchAccumulateMetrics_def)
  next
    case False
    then have q: "q = Done None" using batch_total [OF assms(1,7)] b
      by (auto simp: BatchAccumulateMetrics_def notifyAuditors_total [OF assms(3)])
    then show ?thesis using False batch_accumulate_done(2) [OF assms(1,7)] b ok assms(2,4-6)
      by (auto simp: updateBatch_def status_defs)
  qed
qed

lemma get_json_value:
  assumes "ok (srv_storage srv)" and "mh_ops mh = ops" and "blank_writer w"
    and "rq_body r = Inr body" and "Unmarshal body \<noteq> Some None"
  shows "\<exists>w' srv'. getJSONValue mh r w srv = (Done (), w', srv') \<and> view (srv_storage srv') = view (srv_storage srv) \<and>
    (case Unmarshal body of
       Some (Some q) \<Rightarrow>
         if is_blank (m_ID q) \<or> m_MType q \<notin> {Counter, Gauge} then status_of w' = 400
         else (case view (srv_storage srv) (m_ID q) of
                 None \<Rightarrow> status_of w' = 404
               | Some m \<Rightarrow>
                   if m_MType m \<noteq> m_MType q then status_of w' = 404
                   else (case MarshalIndent m of
                           Inl e \<Rightarrow> status_of w' = 500
                         | Inr b \<Rightarrow> status_of w' = 200 \<and> body_of w' = b))
     | _ \<Rightarrow> status_of w' = 400)"
proof (cases "Unmarshal body")
  case None
  then show ?thesis using assms(3,4) by (simp add: getJSONValue_def blank_writer_simps)
next
  case (Some p)
  then obtain q where m: "Unmarshal body = Some (Some q)" using assms(5) by (cases p) auto
  show ?thesis
  proof (cases "is_blank (m_ID q) \<or> m_MType q \<notin> {Counter, Gauge}")
    case True
    then show ?thesis using m assms(3,4) by (auto simp: getJSONValue_def getMetric_def blank_writer_simps)
  next
    case False
    obtain x st where x: "op_GetByID ops (m_ID q) (srv_storage srv) = (x, st)" by fastforce
    have f: "view st = view (srv_storage srv)" using get_frame [OF assms(1) x] by simp
    show ?thesis
    proof (cases x)
      case (Inl e)
      then have "view (srv_storage srv) (m_ID q) = None" "errors_is e ErrMetricNotFound"
        using get_missing [OF assms(1), of "m_ID q" e st] get_error [OF assms(1), of "m_ID q" e st] x by simp_all
      then show ?thesis using False Inl x f m assms(2-4)
        by (auto simp: getJSONValue_def getMetric_def GetMetric_def blank_writer_simps)
    next
      case (Inr n)
      then have "view (srv_storage srv) (m_ID q) = Some n" using get_found [OF assms(1), of "m_ID q" n st] x by simp
      then show ?thesis using False Inr x f m assms(2-4)
        by (auto simp: getJSONValue_def getMetric_def GetMetric_def blank_writer_simps respond_blank
            renderMetricJSON_answer split: sum.split)
    qed
  qed
qed

lemma show_page:
  assumes "ok (srv_storage srv)" and "mh_ops mh = ops" and "blank_writer w"
    and "op_GetAllSorted ops (srv_storage srv) = (Inr ms, st)"
  shows "\<exists>w' srv'. showMetricsPage mh r w srv = (Done (), w', srv') \<and> view (srv_storage srv') = view (srv_storage srv) \<and>
    status_of w' = 200 \<and> body_of w' = metrics_page ms"
  using assms all_frame [OF assms(1,4)]
  by (simp add: page_answer GenerateAllMetricsHTML_def respond_blank blank_writer_simps)

end

section \<open>Properties of the rendered values\<close>

text \<open>C37. Reading a metric as plain text and posting the text back under the same path builds the
  same metric, bit for bit: for every counter, and for every gauge that is not a NaN.\<close>

theorem plain_value_rebuilds:
  assumes "well_formed m" and "hash_ok m"
    and "case m_Value m of None \<Rightarrow> True | Some v \<Rightarrow> \<not> f64_is_nan v"
  shows "buildMetric (m_ID m) (m_MType m) (plain_value m) = Inr m"
  using assms NewMetrics_eta [of m]
  by (auto simp: well_formed_def buildMetric_def plain_value_def parse_float_format_float)

lemma plain_value_rebuilds_witness:
  "buildMetric ''c'' Counter (format_int (- 5)) = Inr (NewCounterMetricsWithDelta ''c'' (- 5))"
  using plain_value_rebuilds [of "NewCounterMetricsWithDelta ''c'' (- 5)"]
  by (simp add: well_formed_def plain_value_def)

end
