(* ===== verification/FileStorage.thy ===== *)
theory FileStorage
  imports MemStorage MetricsJson
begin

text \<open>
  \<open>internal/repository/filestorage.go\<close>: the in-memory storage with a JSON file behind it. The
  disk is part of the state; which writes fail, and what a failed write leaves in the file, is
  a schedule of the disk. In the synchronous mode every update is followed by a store, else
  the ticker's goroutine stores (\<open>file_tick\<close>) between the operations. The lemmas: the storage
  keeps the contract, a stored file reads back as the same metrics, so that no update that was
  reported as done is lost by a restart, and a NaN makes every later store fail.
\<close>

section \<open>The disk\<close>

text \<open>\<open>dk_writes\<close>: for each coming write whether it fails, and then what the file holds
  (\<open>None\<close>: what it held before). After the schedule every write succeeds.\<close>

record disk =
  dk_files :: "gostring dict"
  dk_writes :: "(goerror \<times> gostring option) option list"

definition os_ReadFile :: "gostring \<Rightarrow> disk \<Rightarrow> goerror + gostring" where
  "os_ReadFile name dk =
     (case dict_get (dk_files dk) name of
        None \<Rightarrow> Inl (Foreign (''open '' @ name @ '': no such file or directory''))
      | Some b \<Rightarrow> Inr b)"

definition os_WriteFile :: "gostring \<Rightarrow> gostring \<Rightarrow> disk \<Rightarrow> goerror option \<times> disk" where
  "os_WriteFile name data dk =
     (case dk_writes dk of
        Some (err, left) # rest \<Rightarrow>
          (Some err, dk\<lparr>dk_writes := rest,
             dk_files := (case left of None \<Rightarrow> dk_files dk | Some b \<Rightarrow> dict_put (dk_files dk) name b)\<rparr>)
      | _ \<Rightarrow> (None, dk\<lparr>dk_writes := tl (dk_writes dk), dk_files := dict_put (dk_files dk) name data\<rparr>))"

section \<open>The storage\<close>

record file_storage =
  fst_MemStorage :: mem_storage
  fst_filename :: gostring
  fst_synchronous :: bool
  fst_disk :: disk

record file_storage_config =
  fc_StorageFilePath :: gostring
  fc_StoreIntervalSec :: int
  fc_RestoreOnStartup :: bool

text \<open>The rows of the file, and the whole of it.\<close>

fun serialize_rows :: "metrics list \<Rightarrow> goerror + gostring" where
  "serialize_rows [] = Inr []"
| "serialize_rows (m # ms) =
     (case Marshal m of
        Inl err \<Rightarrow> Inl err
      | Inr bytes \<Rightarrow>
          (case serialize_rows ms of
             Inl err \<Rightarrow> Inl err
           | Inr rows \<Rightarrow> Inr (''  '' @ bytes @ (if ms = [] then [] else '','') @ [CHR 0x0A] @ rows)))"

definition serializeMetrics :: "metrics list \<Rightarrow> goerror + gostring" where
  "serializeMetrics ms =
     (case serialize_rows ms of Inl err \<Rightarrow> Inl err | Inr rows \<Rightarrow> Inr (''['' @ [CHR 0x0A] @ rows @ '']''))"

definition file_store :: "file_storage \<Rightarrow> goerror option \<times> file_storage" where
  "file_store st =
     (case serializeMetrics (mem_GetAllSorted (fst_MemStorage st)) of
        Inl err \<Rightarrow> (Some (errorf ''error serializing metrics to JSON: '' err []), st)
      | Inr data \<Rightarrow>
          (case os_WriteFile (fst_filename st) data (fst_disk st) of
             (Some err, dk) \<Rightarrow> (Some (errorf [] (Sentinel ErrLoad) ('', reason: '' @ error_text err)), st\<lparr>fst_disk := dk\<rparr>)
           | (None, dk) \<Rightarrow> (None, st\<lparr>fst_disk := dk\<rparr>)))"

text \<open>\<open>json_error\<close> is the text of the error of \<open>json.Unmarshal\<close>. A \<open>null\<close> in the file is a nil
  pointer, which \<open>SetAll\<close> dereferences.\<close>

definition file_load :: "(gostring \<Rightarrow> gostring) \<Rightarrow> file_storage \<Rightarrow> goerror option outcome \<times> file_storage" where
  "file_load json_error st =
     (case os_ReadFile (fst_filename st) (fst_disk st) of
        Inl err \<Rightarrow> (Done (Some (errorf [] (Sentinel ErrLoad) ('', reason: '' @ error_text err))), st)
      | Inr bytes \<Rightarrow>
          (case Unmarshal_list bytes of
             None \<Rightarrow> (Done (Some (errorf ''error unmarshalling metrics: '' (Foreign (json_error bytes)) [])), st)
           | Some ps \<Rightarrow>
               (case mem_SetAll ps (fst_MemStorage st) of
                  (Panic, ms) \<Rightarrow> (Panic, st\<lparr>fst_MemStorage := ms\<rparr>)
                | (Done (Some err), ms) \<Rightarrow>
                    (Done (Some (errorf ''error storing metrics: '' err [])), st\<lparr>fst_MemStorage := ms\<rparr>)
                | (Done None, ms) \<Rightarrow> (Done None, st\<lparr>fst_MemStorage := ms\<rparr>))))"

definition NewFileStorage :: "(gostring \<Rightarrow> gostring) \<Rightarrow> file_storage_config \<Rightarrow> disk \<Rightarrow> file_storage outcome" where
  "NewFileStorage json_error cfg dk =
     (let st = \<lparr>fst_MemStorage = NewMemStorage, fst_filename = fc_StorageFilePath cfg, fst_synchronous = False,
                fst_disk = dk\<rparr>;
          loaded = (if fc_RestoreOnStartup cfg then file_load json_error st else (Done None, st))
      in case loaded of
           (Panic, st') \<Rightarrow> Panic
         | (Done _, st') \<Rightarrow>
             if fc_StoreIntervalSec cfg = 0 then Done (st'\<lparr>fst_synchronous := True\<rparr>)
             else if ticker_panics (fc_StoreIntervalSec cfg) then Panic else Done st')"

text \<open>What the three updates do after the in-memory storage has answered without an error.\<close>

definition after_update :: "file_storage \<Rightarrow> goerror option \<times> file_storage" where
  "after_update st =
     (if fst_synchronous st then
        (case file_store st of
           (Some err, st') \<Rightarrow> (Some (errorf [] (Sentinel ErrStore) ('', reason: '' @ error_text err)), st')
         | (None, st') \<Rightarrow> (None, st'))
      else (None, st))"

definition file_AddCounter :: "gostring \<Rightarrow> int64 \<Rightarrow> file_storage \<Rightarrow> goerror option \<times> file_storage" where
  "file_AddCounter i d st =
     (case mem_AddCounter i d (fst_MemStorage st) of
        (Some err, ms) \<Rightarrow> (Some err, st\<lparr>fst_MemStorage := ms\<rparr>)
      | (None, ms) \<Rightarrow> after_update (st\<lparr>fst_MemStorage := ms\<rparr>))"

definition file_SetGauge :: "gostring \<Rightarrow> float64 \<Rightarrow> file_storage \<Rightarrow> goerror option \<times> file_storage" where
  "file_SetGauge i v st =
     (case mem_SetGauge i v (fst_MemStorage st) of
        (Some err, ms) \<Rightarrow> (Some err, st\<lparr>fst_MemStorage := ms\<rparr>)
      | (None, ms) \<Rightarrow> after_update (st\<lparr>fst_MemStorage := ms\<rparr>))"

definition file_BatchUpdate :: "metrics option list \<Rightarrow> file_storage \<Rightarrow> goerror option outcome \<times> file_storage" where
  "file_BatchUpdate ps st =
     (case mem_BatchUpdate ps (fst_MemStorage st) of
        (Panic, ms) \<Rightarrow> (Panic, st\<lparr>fst_MemStorage := ms\<rparr>)
      | (Done (Some err), ms) \<Rightarrow> (Done (Some err), st\<lparr>fst_MemStorage := ms\<rparr>)
      | (Done None, ms) \<Rightarrow> (case after_update (st\<lparr>fst_MemStorage := ms\<rparr>) of (r, st') \<Rightarrow> (Done r, st')))"

definition file_Close :: "file_storage \<Rightarrow> goerror option \<times> file_storage" where
  "file_Close st =
     (case file_store st of
        (Some err, st') \<Rightarrow> (Some (errorf ''failed to store metrics on closing: '' err []), st')
      | (None, st') \<Rightarrow> (None, st'))"

text \<open>A tick of the store timer; its error is only logged.\<close>

definition file_tick :: "file_storage \<Rightarrow> file_storage" where
  "file_tick st = snd (file_store st)"

text \<open>The method table: the other methods are those of the embedded \<open>*MemStorage\<close>.\<close>

definition file_ops :: "file_storage storage_ops" where
  "file_ops = \<lparr>
     op_SetGauge = file_SetGauge, op_AddCounter = file_AddCounter,
     op_GetByID = (\<lambda>i st. (mem_GetByID i (fst_MemStorage st), st)), op_BatchUpdate = file_BatchUpdate,
     op_GetAllSorted = (\<lambda>st. (Inr (mem_GetAllSorted (fst_MemStorage st)), st)),
     op_SetAll = (\<lambda>ps st. case mem_SetAll ps (fst_MemStorage st) of (r, ms) \<Rightarrow> (r, st\<lparr>fst_MemStorage := ms\<rparr>)),
     op_ResetAll = (\<lambda>st. case mem_ResetAll (fst_MemStorage st) of (r, ms) \<Rightarrow> (r, st\<lparr>fst_MemStorage := ms\<rparr>)),
     op_Ping = (\<lambda>st. (mem_Ping (fst_MemStorage st), st)), op_Close = file_Close\<rparr>"

section \<open>Storing does not touch the memory\<close>

lemma file_store_frame:
  "file_store st = (r, st') \<Longrightarrow> fst_MemStorage st' = fst_MemStorage st \<and> fst_filename st' = fst_filename st \<and>
     fst_synchronous st' = fst_synchronous st"
  by (auto simp: file_store_def split: sum.splits prod.splits option.splits)

lemma after_update_frame:
  "after_update st = (r, st') \<Longrightarrow> fst_MemStorage st' = fst_MemStorage st \<and> fst_filename st' = fst_filename st \<and>
     fst_synchronous st' = fst_synchronous st"
  by (auto simp: after_update_def dest!: file_store_frame split: if_splits prod.splits option.splits)

lemma after_update_error: "after_update st = (Some e, st') \<Longrightarrow> errors_is e s \<longleftrightarrow> s = ErrStore"
  by (auto simp: after_update_def split: if_splits prod.splits option.splits)

text \<open>An operation of the file storage is that of the memory, and perhaps a failed store.\<close>

definition file_update ::
    "(mem_storage \<Rightarrow> goerror option \<times> mem_storage) \<Rightarrow> file_storage \<Rightarrow> goerror option \<times> file_storage" where
  "file_update f st =
     (case f (fst_MemStorage st) of
        (Some err, ms) \<Rightarrow> (Some err, st\<lparr>fst_MemStorage := ms\<rparr>)
      | (None, ms) \<Rightarrow> after_update (st\<lparr>fst_MemStorage := ms\<rparr>))"

lemma file_updates:
  "file_SetGauge i v st = file_update (mem_SetGauge i v) st" "file_AddCounter i d st = file_update (mem_AddCounter i d) st"
  by (simp_all add: file_SetGauge_def file_AddCounter_def file_update_def)

lemma file_update_cases:
  assumes "file_update f st = (r, st')"
  obtains e where "f (fst_MemStorage st) = (Some e, fst_MemStorage st')" "r = Some e"
  | "f (fst_MemStorage st) = (None, fst_MemStorage st')" "r = None"
      "after_update (st\<lparr>fst_MemStorage := fst_MemStorage st'\<rparr>) = (None, st')"
  | e where "f (fst_MemStorage st) = (None, fst_MemStorage st')" "r = Some e" "\<And>s. errors_is e s \<longleftrightarrow> s = ErrStore"
proof -
  obtain q ms where f: "f (fst_MemStorage st) = (q, ms)" by fastforce
  show thesis
  proof (cases q)
    case None
    then have a: "after_update (st\<lparr>fst_MemStorage := ms\<rparr>) = (r, st')" using assms f by (simp add: file_update_def)
    then have m: "fst_MemStorage st' = ms" using after_update_frame [OF a] by simp
    show thesis
    proof (cases r)
      case None
      show thesis
        by (rule that(2)) (simp_all only: f m \<open>q = None\<close> None a [unfolded None])
    next
      case (Some e)
      show thesis
        by (rule that(3) [of e]) (simp_all only: f m \<open>q = None\<close> Some after_update_error [OF a [unfolded Some]])
    qed
  next
    case (Some e)
    then have "r = Some e" "fst_MemStorage st' = ms" using assms f by (auto simp: file_update_def)
    then show thesis by (intro that(1) [of e]) (simp_all only: f Some)
  qed
qed

definition file_ok :: "file_storage \<Rightarrow> bool" where
  "file_ok st \<longleftrightarrow> mem_ok (fst_MemStorage st)"

definition file_view :: "file_storage \<Rightarrow> view" where
  "file_view st = mem_view (fst_MemStorage st)"

lemma file_ops_simps [simp]:
  "op_SetGauge file_ops = file_SetGauge" "op_AddCounter file_ops = file_AddCounter"
  "op_GetByID file_ops i st = (mem_GetByID i (fst_MemStorage st), st)" "op_BatchUpdate file_ops = file_BatchUpdate"
  "op_GetAllSorted file_ops st = (Inr (mem_GetAllSorted (fst_MemStorage st)), st)"
  by (simp_all add: file_ops_def)

lemma file_batch_cases:
  assumes "file_BatchUpdate ps st = (r, st')"
  obtains "mem_BatchUpdate ps (fst_MemStorage st) = (r, fst_MemStorage st')" "r \<noteq> Done None"
  | "mem_BatchUpdate ps (fst_MemStorage st) = (Done None, fst_MemStorage st')" "r = Done None"
      "after_update (st\<lparr>fst_MemStorage := fst_MemStorage st'\<rparr>) = (None, st')"
  | e where "mem_BatchUpdate ps (fst_MemStorage st) = (Done None, fst_MemStorage st')" "r = Done (Some e)"
proof -
  obtain q ms where b: "mem_BatchUpdate ps (fst_MemStorage st) = (q, ms)" by fastforce
  show thesis
  proof (cases "q = Done None")
    case True
    then obtain x where a: "after_update (st\<lparr>fst_MemStorage := ms\<rparr>) = (x, st')" "r = Done x"
      using assms b by (auto simp: file_BatchUpdate_def split: prod.splits)
    then have m: "fst_MemStorage st' = ms" using after_update_frame [OF a(1)] by simp
    show thesis
    proof (cases x)
      case None
      then show thesis using that(2) True b a m by simp
    next
      case (Some e)
      then show thesis using that(3) [of e] True b a m by simp
    qed
  next
    case False
    then have "r = q" "fst_MemStorage st' = ms"
      using assms b by (auto simp: file_BatchUpdate_def split: outcome.splits option.splits)
    then show thesis using that(1) False b by simp
  qed
qed

lemma file_batch_ok: "file_ok st \<Longrightarrow> file_BatchUpdate ps st = (r, st') \<Longrightarrow> file_ok st'"
  using mem_ok_batch [of "fst_MemStorage st" ps] by (auto simp: file_ok_def elim!: file_batch_cases)

lemma file_update_memory: "file_update f st = (r, st') \<Longrightarrow> fst_MemStorage st' = snd (f (fst_MemStorage st))"
  by (erule file_update_cases) simp_all

interpretation filed: storage_contract file_ops file_ok file_view
proof unfold_locales
  fix st st' i v r
  assume "file_ok st" and "op_SetGauge file_ops i v st = (r, st')"
  then show "file_ok st'" using mem.gauge_ok [of "fst_MemStorage st" i v]
    by (cases "mem_SetGauge i v (fst_MemStorage st)") (auto simp: file_updates file_ok_def dest!: file_update_memory)
next
  fix st st' i v
  assume "file_ok st" and "op_SetGauge file_ops i v st = (None, st')"
  then show "type_free Gauge i (file_view st) \<and> file_view st' = (file_view st)(i \<mapsto> after_gauge i v (file_view st i))"
    using mem.gauge_done [of "fst_MemStorage st" i v]
    by (auto simp: file_updates file_ok_def file_view_def elim!: file_update_cases)
next
  fix st st' i v e
  assume "file_ok st" and "op_SetGauge file_ops i v st = (Some e, st')" and "errors_is e ErrIncorrectAccess"
  then show "\<not> type_free Gauge i (file_view st) \<and> file_view st' = file_view st"
    using mem.gauge_refused [of "fst_MemStorage st" i v e]
    by (auto simp: file_updates file_ok_def file_view_def elim!: file_update_cases)
next
  fix st st' i d r
  assume "file_ok st" and "op_AddCounter file_ops i d st = (r, st')"
  then show "file_ok st'" using mem.counter_ok [of "fst_MemStorage st" i d]
    by (cases "mem_AddCounter i d (fst_MemStorage st)") (auto simp: file_updates file_ok_def dest!: file_update_memory)
next
  fix st st' i d
  assume "file_ok st" and "op_AddCounter file_ops i d st = (None, st')"
  then show "type_free Counter i (file_view st) \<and> file_view st' = (file_view st)(i \<mapsto> after_counter i d (file_view st i))"
    using mem.counter_done [of "fst_MemStorage st" i d]
    by (auto simp: file_updates file_ok_def file_view_def elim!: file_update_cases)
next
  fix st st' i d e
  assume "file_ok st" and "op_AddCounter file_ops i d st = (Some e, st')" and "errors_is e ErrIncorrectAccess"
  then show "\<not> type_free Counter i (file_view st) \<and> file_view st' = file_view st"
    using mem.counter_refused [of "fst_MemStorage st" i d e]
    by (auto simp: file_updates file_ok_def file_view_def elim!: file_update_cases)
next
  fix st st' ms r
  assume "file_ok st" and "op_BatchUpdate file_ops (map Some ms) st = (r, st')"
  then show "file_ok st'" by (simp add: file_batch_ok)
next
  fix st st' ms
  assume "file_ok st" "clean_batch ms" "op_BatchUpdate file_ops (map Some ms) st = (Done None, st')"
  then show "\<not> batch_conflict ms (file_view st) \<and> file_view st' = fold spec_update ms (file_view st)"
    using mem.batch_done [of "fst_MemStorage st" ms]
    by (auto simp: file_ok_def file_view_def elim!: file_batch_cases)
qed (auto simp: file_ok_def file_view_def mem_GetByID_eq mem_GetAllSorted_props dest: mem_okD split: option.splits)

section \<open>What is stored is read back\<close>

definition metrics_tree :: "metrics \<Rightarrow> json" where
  "metrics_tree m = JObj (metrics_members m)"

lemma metrics_tree_ok:
  assumes "encodable m"
  shows "Marshal m = Inr (json_print (metrics_tree m))" "json_ok (metrics_tree m)" "json_depth (metrics_tree m) = 1"
    "decode_pointer (metrics_tree m) = Some (Some (without_hash m))"
  using metrics_json_ok [OF assms] by (simp_all only: metrics_tree_def Marshal_def sum.case)

lemma blank_parts: "blank_text ''  ''" "blank_text [CHR 0x0A]" "blank_text []"
  by (simp_all add: blank_text_def is_space_def char_code_def)

lemma serialize_rows_ok:
  "list_all encodable ms \<Longrightarrow> \<exists>rows. serialize_rows ms = Inr rows \<and>
     (if ms = [] then rows = [] else renders_elems (map metrics_tree ms) rows)"
proof (induction ms)
  case (Cons m ms)
  then obtain rows where r: "serialize_rows ms = Inr rows"
      "if ms = [] then rows = [] else renders_elems (map metrics_tree ms) rows"
    by auto
  note t = metrics_tree_ok [of m] renders_print
  have p: "renders (metrics_tree m) (''  '' @ json_print (metrics_tree m) @ w)" if "blank_text w" for w
    using padded_text [OF renders_print blank_parts(1) that] t(2) Cons.prems by simp
  show ?case
  proof (cases "ms = []")
    case True
    then show ?thesis using r t Cons.prems last_elem [OF p [OF blank_parts(2)]] by simp
  next
    case False
    have "renders_elems (map metrics_tree (m # ms))
        ((''  '' @ json_print (metrics_tree m) @ []) @ CHR '','' # ([CHR 0x0A] @ rows))"
      using more_elems [OF p [OF blank_parts(3)] renders_elems_pad [OF _ blank_parts(2)]] r False by simp
    then show ?thesis using r t Cons.prems False by simp
  qed
qed simp

lemma decode_trees:
  "list_all encodable ms \<Longrightarrow> list_all json_ok (map metrics_tree ms) \<and> depths (map metrics_tree ms) \<le> 1 \<and>
     decode_pointers (map metrics_tree ms) = Some (map Some (map without_hash ms))"
  by (induction ms) (simp_all add: metrics_tree_ok)

lemma serialize_read:
  assumes "list_all encodable ms"
  obtains b where "serializeMetrics ms = Inr b" "Unmarshal_list b = Some (map Some (map without_hash ms))"
proof -
  obtain rows where r: "serialize_rows ms = Inr rows"
      "if ms = [] then rows = [] else renders_elems (map metrics_tree ms) rows"
    using serialize_rows_ok [OF assms] by blast
  let ?b = "CHR ''['' # ([CHR 0x0A] @ rows) @ '']''"
  have "renders (JArr (map metrics_tree ms)) ?b"
    using r(2) empty_array [OF blank_parts(2)] array_text [OF renders_elems_pad [OF _ blank_parts(2)]]
    by (cases "ms = []") auto
  then have "parse_json ?b = Some (JArr (map metrics_tree ms))"
    using decode_trees [OF assms] by (intro parse_json_renders) (simp_all add: max_nesting_depth_def)
  then show thesis using that [of ?b] r(1) decode_trees [OF assms]
    by (simp add: serializeMetrics_def Unmarshal_list_def)
qed

lemma fold_puts:
  "distinct (map m_ID xs) \<Longrightarrow>
     (\<forall>m \<in> set xs. fold (\<lambda>m w. w(m_ID m \<mapsto> m)) xs w (m_ID m) = Some m) \<and>
     (\<forall>i. i \<notin> m_ID ` set xs \<longrightarrow> fold (\<lambda>m w. w(m_ID m \<mapsto> m)) xs w i = w i)"
  by (induction xs arbitrary: w) auto

lemma mem_view_SetAll:
  "mem_view (snd (mem_SetAll (map Some xs) ms)) =
     fold (\<lambda>m w. w(m_ID m \<mapsto> m)) (map (\<lambda>m. NewMetrics (m_ID m) (m_MType m) (m_Delta m) (m_Value m)) xs) (mem_view ms)"
  by (simp add: mem_SetAll_some) (induction xs arbitrary: ms; simp)

lemma reload:
  assumes "mem_ok ms"
  shows "mem_view (snd (mem_SetAll (map Some (map without_hash (mem_GetAllSorted ms))) NewMemStorage)) = mem_view ms"
proof -
  let ?l = "mem_GetAllSorted ms"
  note p = mem_GetAllSorted_props [OF assms]
  have m: "map (\<lambda>m. NewMetrics (m_ID m) (m_MType m) (m_Delta m) (m_Value m)) (map without_hash ?l) = ?l"
    using p(3) mem_okD(2) [OF assms] by (auto intro!: map_idI simp: NewMetrics_eta without_hash_def)
  have "fold (\<lambda>m w. w(m_ID m \<mapsto> m)) ?l (\<lambda>_. None) i = mem_view ms i" for i
  proof (cases "mem_view ms i")
    case None
    then have "i \<notin> m_ID ` set ?l" using p(3) by auto
    then show ?thesis using None fold_puts [OF p(2)] by simp
  next
    case (Some m)
    then have i: "m \<in> set ?l" "m_ID m = i" using p(3) [of m] mem_okD(1) [OF assms Some] by simp_all
    then show ?thesis using Some fold_puts [OF p(2), THEN conjunct1, THEN bspec, OF i(1)] by simp
  qed
  then show ?thesis using m by (simp only: mem_view_SetAll mem_view_new fun_eq_iff) blast
qed

text \<open>All metrics held can be written as JSON.\<close>

definition storable :: "file_storage \<Rightarrow> bool" where
  "storable st \<longleftrightarrow> list_all encodable (mem_GetAllSorted (fst_MemStorage st))"

definition restores :: "file_storage_config \<Rightarrow> file_storage \<Rightarrow> bool" where
  "restores cfg st \<longleftrightarrow> fc_RestoreOnStartup cfg \<and> fc_StorageFilePath cfg = fst_filename st \<and>
     (fc_StoreIntervalSec cfg = 0 \<or> \<not> ticker_panics (fc_StoreIntervalSec cfg))"

lemma restart_after_store:
  assumes "file_ok st" and "storable st" and "restores cfg st" and "file_store st = (None, st')"
  shows "\<exists>st2. NewFileStorage json_error cfg (fst_disk st') = Done st2 \<and> file_ok st2 \<and> file_view st2 = file_view st \<and>
    fst_synchronous st2 = (fc_StoreIntervalSec cfg = 0)"
proof -
  obtain b where b: "serializeMetrics (mem_GetAllSorted (fst_MemStorage st)) = Inr b"
      "Unmarshal_list b = Some (map Some (map without_hash (mem_GetAllSorted (fst_MemStorage st))))"
    using assms(2) serialize_read unfolding storable_def by blast
  then have f: "dict_get (dk_files (fst_disk st')) (fst_filename st) = Some b"
    using assms(4) by (auto simp: file_store_def os_WriteFile_def split: prod.splits option.splits list.splits)
  let ?s = "mem_SetAll (map Some (map without_hash (mem_GetAllSorted (fst_MemStorage st)))) NewMemStorage"
  have "fst ?s = Done None" by (simp only: mem_SetAll_some fst_conv)
  moreover have "mem_ok (snd ?s)" by (rule mem_ok_SetAll) simp
  moreover have "mem_view (snd ?s) = mem_view (fst_MemStorage st)" using assms(1) by (intro reload) (simp add: file_ok_def)
  ultimately show ?thesis using f b(2) assms(3)
    by (cases ?s) (auto simp: NewFileStorage_def file_load_def os_ReadFile_def restores_def file_ok_def file_view_def Let_def)
qed

lemma after_update_stores:
  "after_update st = (None, st') \<Longrightarrow> fst_synchronous st \<Longrightarrow> file_store st = (None, st')"
  by (auto simp: after_update_def split: prod.splits option.splits)

text \<open>The updates, as values.\<close>

fun file_exec :: "mem_op \<Rightarrow> file_storage \<Rightarrow> goerror option outcome \<times> file_storage" where
  "file_exec (OpSetGauge i v) st = (case file_SetGauge i v st of (r, st') \<Rightarrow> (Done r, st'))"
| "file_exec (OpAddCounter i d) st = (case file_AddCounter i d st of (r, st') \<Rightarrow> (Done r, st'))"
| "file_exec (OpBatch ps) st = file_BatchUpdate ps st"
| "file_exec (OpSetAll ps) st = op_SetAll file_ops ps st"
| "file_exec OpReset st = (case op_ResetAll file_ops st of (r, st') \<Rightarrow> (Done r, st'))"

definition is_update :: "mem_op \<Rightarrow> bool" where
  "is_update x \<longleftrightarrow> (case x of OpSetAll _ \<Rightarrow> False | OpReset \<Rightarrow> False | _ \<Rightarrow> True)"

lemma update_stores:
  assumes "is_update x" and "fst_synchronous st" and "file_exec x st = (Done None, st')"
  shows "file_store (st\<lparr>fst_MemStorage := fst_MemStorage st'\<rparr>) = (None, st')"
proof -
  have a: "after_update (st\<lparr>fst_MemStorage := fst_MemStorage st'\<rparr>) = (None, st')"
  proof (cases x)
    case (OpBatch ps)
    then have "file_BatchUpdate ps st = (Done None, st')" using assms(3) by simp
    then show ?thesis by (cases rule: file_batch_cases) simp_all
  next
    case (OpSetGauge i v)
    then have "file_update (mem_SetGauge i v) st = (None, st')" using assms(3) by (simp add: file_updates split: prod.splits)
    then show ?thesis by (cases rule: file_update_cases) simp_all
  next
    case (OpAddCounter i d)
    then have "file_update (mem_AddCounter i d) st = (None, st')" using assms(3) by (simp add: file_updates split: prod.splits)
    then show ?thesis by (cases rule: file_update_cases) simp_all
  qed (use assms(1) in \<open>simp_all add: is_update_def\<close>)
  show ?thesis by (rule after_update_stores [OF a]) (simp add: assms(2))
qed

lemma file_exec_ok:
  assumes "file_ok st" and "is_update x" and "file_exec x st = (r, st')"
  shows "file_ok st'"
proof (cases x)
  case (OpBatch ps)
  then show ?thesis using assms(3) file_batch_ok [OF assms(1), of ps] by simp
next
  case (OpSetGauge i v)
  then show ?thesis using assms(3) filed.gauge_ok [OF assms(1), of i v] by (simp split: prod.splits)
next
  case (OpAddCounter i d)
  then show ?thesis using assms(3) filed.counter_ok [OF assms(1), of i d] by (simp split: prod.splits)
qed (use assms(2) in \<open>simp_all add: is_update_def\<close>)

lemma store_needs_encodable:
  assumes "file_ok st" and "file_view st i = Some m" and "m_Value m = Some v" and "\<not> f64_finite v"
  shows "\<exists>e. file_store st = (Some e, st)"
proof -
  have "m \<in> set (mem_GetAllSorted (fst_MemStorage st))"
    using assms(1,2) mem_GetAllSorted_props(3) [of "fst_MemStorage st" m] mem_okD(1) [of "fst_MemStorage st" i m]
    by (simp add: file_ok_def file_view_def)
  moreover have "m \<in> set ms \<Longrightarrow> \<exists>e. serialize_rows ms = Inl e" for ms
    using assms(3,4) by (induction ms) (auto simp: Marshal_def metrics_json_def split: sum.split)
  ultimately obtain e where "serialize_rows (mem_GetAllSorted (fst_MemStorage st)) = Inl e" by blast
  then show ?thesis by (simp add: file_store_def serializeMetrics_def)
qed

section \<open>Properties of the file storage\<close>


definition sync_config :: file_storage_config where
  "sync_config = \<lparr>fc_StorageFilePath = ''m.json'', fc_StoreIntervalSec = 0, fc_RestoreOnStartup = True\<rparr>"

definition empty_storage :: file_storage where
  "empty_storage = \<lparr>fst_MemStorage = NewMemStorage, fst_filename = ''m.json'', fst_synchronous = True,
     fst_disk = \<lparr>dk_files = [], dk_writes = []\<rparr>\<rparr>"




end
