(* ===== verification/Config.thy ===== *)
theory Config
  imports Handlers FileStorage
begin

text \<open>
  \<open>internal/config/servercfg\<close> and \<open>internal/config/agentcfg\<close>: the configuration records, their
  defaults, and how \<open>Read\<close> puts them together from flags, environment, a JSON file and the
  defaults. The packages for flags, environment variables and merging are parameters; a record's
  slots are listed once, with their JSON names, so that decoding and the law of merging can be
  stated over the list. The lemmas: which source a setting comes from, and that a setting of zero
  cannot be made, so that the synchronous file storage cannot be configured.
\<close>

section \<open>Settings\<close>

text \<open>A field of a configuration record: how to read and write it.\<close>

datatype 'c slot =
    StringSlot "'c \<Rightarrow> gostring" "gostring \<Rightarrow> 'c \<Rightarrow> 'c"
  | IntSlot "'c \<Rightarrow> int" "int \<Rightarrow> 'c \<Rightarrow> 'c"
  | BoolSlot "'c \<Rightarrow> bool" "bool \<Rightarrow> 'c \<Rightarrow> 'c"

text \<open>The documented behaviour of \<open>mergo.Merge\<close>: a field of the target that is empty is filled from
  the source.\<close>

definition fill_slot :: "'c \<Rightarrow> 'c slot \<Rightarrow> 'c \<Rightarrow> 'c" where
  "fill_slot src sl dst =
     (case sl of
        StringSlot get put \<Rightarrow> if get dst = [] then put (get src) dst else dst
      | IntSlot get put \<Rightarrow> if get dst = 0 then put (get src) dst else dst
      | BoolSlot get put \<Rightarrow> if get dst = False then put (get src) dst else dst)"

definition fill_empty :: "(gostring \<times> 'c slot) list \<Rightarrow> 'c \<Rightarrow> 'c \<Rightarrow> 'c" where
  "fill_empty slots dst src = fold (\<lambda>(name, sl). fill_slot src sl) slots dst"

text \<open>\<open>json.Unmarshal\<close> into the record: a name that is not a field is skipped, \<open>null\<close> leaves a field.\<close>

definition decode_slot :: "json \<Rightarrow> 'c slot \<Rightarrow> 'c \<Rightarrow> 'c option" where
  "decode_slot v sl c =
     (case (v, sl) of
        (JNull, _) \<Rightarrow> Some c
      | (JStr s, StringSlot get put) \<Rightarrow> Some (put s c)
      | (JNum t, IntSlot get put) \<Rightarrow> (case parse_int t of None \<Rightarrow> None | Some n \<Rightarrow> Some (put (sint n) c))
      | (JBool b, BoolSlot get put) \<Rightarrow> Some (put b c)
      | _ \<Rightarrow> None)"

fun decode_settings :: "(gostring \<times> 'c slot) list \<Rightarrow> (gostring \<times> json) list \<Rightarrow> 'c \<Rightarrow> 'c option" where
  "decode_settings slots [] c = Some c"
| "decode_settings slots ((k, v) # kvs) c =
     (case find (\<lambda>(name, sl). fold_name name = fold_name k) slots of
        None \<Rightarrow> decode_settings slots kvs c
      | Some (name, sl) \<Rightarrow>
          (case decode_slot v sl c of None \<Rightarrow> None | Some c' \<Rightarrow> decode_settings slots kvs c'))"

definition Unmarshal_config :: "(gostring \<times> 'c slot) list \<Rightarrow> 'c \<Rightarrow> gostring \<Rightarrow> 'c option" where
  "Unmarshal_config slots zero s =
     (case parse_json s of
        Some JNull \<Rightarrow> Some zero
      | Some (JObj kvs) \<Rightarrow> decode_settings slots kvs zero
      | _ \<Rightarrow> None)"

text \<open>\<open>json_error\<close> is the text of the error of \<open>json.Unmarshal\<close>.\<close>

definition NewConfigFromJSONFile ::
    "(gostring \<Rightarrow> goerror + gostring) \<Rightarrow> (gostring \<Rightarrow> gostring) \<Rightarrow> (gostring \<times> 'c slot) list \<Rightarrow> 'c \<Rightarrow> gostring
      \<Rightarrow> goerror + 'c" where
  "NewConfigFromJSONFile ReadFile json_error slots zero path =
     (case ReadFile path of
        Inl err \<Rightarrow> Inl (errorf ''can't read configuration file: '' err [])
      | Inr cfgBytes \<Rightarrow>
          (case Unmarshal_config slots zero cfgBytes of
             None \<Rightarrow> Inl (errorf ''can't parse configuration file: '' (Foreign (json_error cfgBytes)) [])
           | Some cfg \<Rightarrow> Inr cfg))"

section \<open>Reading a configuration\<close>

text \<open>A flag: its name, its shorthand (empty for none) and the field it is bound to, which starts as
  the field's zero value. The environment of a \<open>Read\<close>: parsing the flags (which does not return when
  it fails), parsing the environment variables, merging, and reading a file.\<close>

record 'c flag =
  fl_name :: gostring
  fl_shorthand :: gostring
  fl_slot :: "'c slot"

record 'c config_env =
  ce_flag_Parse :: "'c flag list \<Rightarrow> 'c \<Rightarrow> 'c"
  ce_env_Parse :: "'c \<Rightarrow> goerror + 'c"
  ce_Merge :: "'c \<Rightarrow> 'c \<Rightarrow> goerror + 'c"
  ce_ReadFile :: "gostring \<Rightarrow> goerror + gostring"
  ce_json_error :: "gostring \<Rightarrow> gostring"

text \<open>Both packages have the same \<open>Read\<close>, but for the record and the word in the error.\<close>

definition read_config ::
    "gostring \<Rightarrow> (gostring \<times> 'c slot) list \<Rightarrow> 'c flag list \<Rightarrow> ('c \<Rightarrow> gostring) \<Rightarrow> 'c \<Rightarrow> 'c \<Rightarrow> 'c config_env \<Rightarrow> goerror + 'c" where
  "read_config what slots flags ConfigFile zero default_config env =
     (case ce_env_Parse env (ce_flag_Parse env flags zero) of
        Inl err \<Rightarrow> Inl err
      | Inr cfg \<Rightarrow>
          (case (if ConfigFile cfg \<noteq> [] then
                   (case NewConfigFromJSONFile (ce_ReadFile env) (ce_json_error env) slots zero (ConfigFile cfg) of
                      Inl err \<Rightarrow> Inl err
                    | Inr fileCfg \<Rightarrow>
                        (case ce_Merge env cfg fileCfg of
                           Inl err \<Rightarrow> Inl (errorf (''unable to merge '' @ what @ '' configs: '') err [])
                         | Inr cfg \<Rightarrow> Inr cfg))
                 else Inr cfg) of
             Inl err \<Rightarrow> Inl err
           | Inr cfg \<Rightarrow>
               (case ce_Merge env cfg default_config of
                  Inl err \<Rightarrow> Inl (errorf (''unable to merge '' @ what @ '' configs: '') err [])
                | Inr cfg \<Rightarrow> Inr cfg)))"

section \<open>The server's configuration\<close>

record database_config =
  dc_DBConnString :: gostring

record postgres_retry_config =
  pc_MaxRetryCount :: int
  pc_InitialRetryDelaySec :: int
  pc_RetryDelayIncrementSec :: int

record audit_config =
  au_AuditFilePath :: gostring
  au_AuditFileWriteIntervalSec :: int
  au_AuditURL :: gostring

record server_config =
  sv_FileStorageConfig :: file_storage_config
  sv_DatabaseConfig :: database_config
  sv_PostgresRetryConfig :: postgres_retry_config
  sv_SecurityConfig :: security_config
  sv_AuditConfig :: audit_config
  sv_LogLevel :: gostring
  sv_Addr :: gostring
  sv_GracePeriodSec :: int
  sv_PprofAddr :: gostring
  sv_ConfigFile :: gostring

definition file_IsSetUp :: "file_storage_config \<Rightarrow> bool" where
  "file_IsSetUp fscfg \<longleftrightarrow> fc_StorageFilePath fscfg \<noteq> []"

definition database_IsSetUp :: "database_config \<Rightarrow> bool" where
  "database_IsSetUp dbcfg \<longleftrightarrow> dc_DBConnString dbcfg \<noteq> []"

text \<open>The fields of the record and of the embedded ones with their JSON names; the path of the
  configuration file has no tag and goes by its own name.\<close>

definition server_slots :: "(gostring \<times> server_config slot) list" where
  "server_slots = [
     (''file_storage_path'', StringSlot (fc_StorageFilePath \<circ> sv_FileStorageConfig)
        (\<lambda>s c. c\<lparr>sv_FileStorageConfig := (sv_FileStorageConfig c)\<lparr>fc_StorageFilePath := s\<rparr>\<rparr>)),
     (''store_interval'', IntSlot (fc_StoreIntervalSec \<circ> sv_FileStorageConfig)
        (\<lambda>n c. c\<lparr>sv_FileStorageConfig := (sv_FileStorageConfig c)\<lparr>fc_StoreIntervalSec := n\<rparr>\<rparr>)),
     (''restore'', BoolSlot (fc_RestoreOnStartup \<circ> sv_FileStorageConfig)
        (\<lambda>b c. c\<lparr>sv_FileStorageConfig := (sv_FileStorageConfig c)\<lparr>fc_RestoreOnStartup := b\<rparr>\<rparr>)),
     (''database_dsn'', StringSlot (dc_DBConnString \<circ> sv_DatabaseConfig)
        (\<lambda>s c. c\<lparr>sv_DatabaseConfig := (sv_DatabaseConfig c)\<lparr>dc_DBConnString := s\<rparr>\<rparr>)),
     (''pg_max_retry_count'', IntSlot (pc_MaxRetryCount \<circ> sv_PostgresRetryConfig)
        (\<lambda>n c. c\<lparr>sv_PostgresRetryConfig := (sv_PostgresRetryConfig c)\<lparr>pc_MaxRetryCount := n\<rparr>\<rparr>)),
     (''pg_initial_retry_delay_sec'', IntSlot (pc_InitialRetryDelaySec \<circ> sv_PostgresRetryConfig)
        (\<lambda>n c. c\<lparr>sv_PostgresRetryConfig := (sv_PostgresRetryConfig c)\<lparr>pc_InitialRetryDelaySec := n\<rparr>\<rparr>)),
     (''pg_retry_delay_increment_sec'', IntSlot (pc_RetryDelayIncrementSec \<circ> sv_PostgresRetryConfig)
        (\<lambda>n c. c\<lparr>sv_PostgresRetryConfig := (sv_PostgresRetryConfig c)\<lparr>pc_RetryDelayIncrementSec := n\<rparr>\<rparr>)),
     (''key'', StringSlot (sc_SecretKey \<circ> sv_SecurityConfig)
        (\<lambda>s c. c\<lparr>sv_SecurityConfig := (sv_SecurityConfig c)\<lparr>sc_SecretKey := s\<rparr>\<rparr>)),
     (''crypto_key'', StringSlot (sc_PrivateKeyPath \<circ> sv_SecurityConfig)
        (\<lambda>s c. c\<lparr>sv_SecurityConfig := (sv_SecurityConfig c)\<lparr>sc_PrivateKeyPath := s\<rparr>\<rparr>)),
     (''audit_file'', StringSlot (au_AuditFilePath \<circ> sv_AuditConfig)
        (\<lambda>s c. c\<lparr>sv_AuditConfig := (sv_AuditConfig c)\<lparr>au_AuditFilePath := s\<rparr>\<rparr>)),
     (''audit_file_write_interval'', IntSlot (au_AuditFileWriteIntervalSec \<circ> sv_AuditConfig)
        (\<lambda>n c. c\<lparr>sv_AuditConfig := (sv_AuditConfig c)\<lparr>au_AuditFileWriteIntervalSec := n\<rparr>\<rparr>)),
     (''audit_url'', StringSlot (au_AuditURL \<circ> sv_AuditConfig)
        (\<lambda>s c. c\<lparr>sv_AuditConfig := (sv_AuditConfig c)\<lparr>au_AuditURL := s\<rparr>\<rparr>)),
     (''server_log_level'', StringSlot sv_LogLevel (\<lambda>s c. c\<lparr>sv_LogLevel := s\<rparr>)),
     (''address'', StringSlot sv_Addr (\<lambda>s c. c\<lparr>sv_Addr := s\<rparr>)),
     (''server_grace_period'', IntSlot sv_GracePeriodSec (\<lambda>n c. c\<lparr>sv_GracePeriodSec := n\<rparr>)),
     (''pprof_address'', StringSlot sv_PprofAddr (\<lambda>s c. c\<lparr>sv_PprofAddr := s\<rparr>)),
     (''ConfigFile'', StringSlot sv_ConfigFile (\<lambda>s c. c\<lparr>sv_ConfigFile := s\<rparr>))]"

definition zero_server_config :: server_config where
  "zero_server_config = \<lparr>
     sv_FileStorageConfig = \<lparr>fc_StorageFilePath = [], fc_StoreIntervalSec = 0, fc_RestoreOnStartup = False\<rparr>,
     sv_DatabaseConfig = \<lparr>dc_DBConnString = []\<rparr>,
     sv_PostgresRetryConfig = \<lparr>pc_MaxRetryCount = 0, pc_InitialRetryDelaySec = 0, pc_RetryDelayIncrementSec = 0\<rparr>,
     sv_SecurityConfig = \<lparr>sc_SecretKey = [], sc_PrivateKeyPath = []\<rparr>,
     sv_AuditConfig = \<lparr>au_AuditFilePath = [], au_AuditFileWriteIntervalSec = 0, au_AuditURL = []\<rparr>,
     sv_LogLevel = [], sv_Addr = [], sv_GracePeriodSec = 0, sv_PprofAddr = [], sv_ConfigFile = []\<rparr>"

definition server_NewDefaultConfig :: server_config where
  "server_NewDefaultConfig = \<lparr>
     sv_FileStorageConfig = \<lparr>fc_StorageFilePath = [], fc_StoreIntervalSec = 300, fc_RestoreOnStartup = False\<rparr>,
     sv_DatabaseConfig = \<lparr>dc_DBConnString = []\<rparr>,
     sv_PostgresRetryConfig = \<lparr>pc_MaxRetryCount = 3, pc_InitialRetryDelaySec = 1, pc_RetryDelayIncrementSec = 2\<rparr>,
     sv_SecurityConfig = \<lparr>sc_SecretKey = [], sc_PrivateKeyPath = []\<rparr>,
     sv_AuditConfig = \<lparr>au_AuditFilePath = [], au_AuditFileWriteIntervalSec = 30, au_AuditURL = []\<rparr>,
     sv_LogLevel = ''info'', sv_Addr = '':8080'', sv_GracePeriodSec = 30, sv_PprofAddr = [], sv_ConfigFile = []\<rparr>"

definition slot_of :: "(gostring \<times> 'c slot) list \<Rightarrow> gostring \<Rightarrow> 'c slot" where
  "slot_of slots name = the (map_of slots name)"

definition server_bindFlags :: "server_config flag list" where
  "server_bindFlags = map (\<lambda>(name, short, field). \<lparr>fl_name = name, fl_shorthand = short, fl_slot = slot_of server_slots field\<rparr>)
     [(''addr'', ''a'', ''address''), (''grace-period'', [], ''server_grace_period''), (''pprof'', [], ''pprof_address''),
      (''store-file'', ''f'', ''file_storage_path''), (''store-interval'', ''i'', ''store_interval''),
      (''restore'', ''r'', ''restore''), (''database-dsn'', ''d'', ''database_dsn''), (''secret-key'', ''k'', ''key''),
      (''crypto-key'', [], ''crypto_key''), (''audit-file'', [], ''audit_file''), (''audit-url'', [], ''audit_url''),
      (''config'', ''c'', ''ConfigFile'')]"

definition server_Read :: "server_config config_env \<Rightarrow> goerror + server_config" where
  "server_Read env =
     read_config ''server'' server_slots server_bindFlags sv_ConfigFile zero_server_config server_NewDefaultConfig env"

section \<open>The agent's configuration\<close>

record agent_config =
  ac_MaxNumberOfRequests :: int
  ac_MaxRetryCount :: int
  ac_InitialRetryDelaySec :: int
  ac_RetryDelayIncrementSec :: int
  ac_ServerAddr :: gostring
  ac_PollIntervalSec :: int
  ac_ReportIntervalSec :: int
  ac_GracePeriodSec :: int
  ac_SecretKey :: gostring
  ac_PublicKeyPath :: gostring
  ac_LogLevel :: gostring
  ac_ConfigFile :: gostring

definition agent_slots :: "(gostring \<times> agent_config slot) list" where
  "agent_slots = [
     (''rate_limit'', IntSlot ac_MaxNumberOfRequests (\<lambda>n c. c\<lparr>ac_MaxNumberOfRequests := n\<rparr>)),
     (''report_max_retry_count'', IntSlot ac_MaxRetryCount (\<lambda>n c. c\<lparr>ac_MaxRetryCount := n\<rparr>)),
     (''report_initial_retry_delay_sec'', IntSlot ac_InitialRetryDelaySec (\<lambda>n c. c\<lparr>ac_InitialRetryDelaySec := n\<rparr>)),
     (''report_retry_delay_increment_sec'', IntSlot ac_RetryDelayIncrementSec (\<lambda>n c. c\<lparr>ac_RetryDelayIncrementSec := n\<rparr>)),
     (''address'', StringSlot ac_ServerAddr (\<lambda>s c. c\<lparr>ac_ServerAddr := s\<rparr>)),
     (''poll_interval_sec'', IntSlot ac_PollIntervalSec (\<lambda>n c. c\<lparr>ac_PollIntervalSec := n\<rparr>)),
     (''report_interval_sec'', IntSlot ac_ReportIntervalSec (\<lambda>n c. c\<lparr>ac_ReportIntervalSec := n\<rparr>)),
     (''grace_period_sec'', IntSlot ac_GracePeriodSec (\<lambda>n c. c\<lparr>ac_GracePeriodSec := n\<rparr>)),
     (''key'', StringSlot ac_SecretKey (\<lambda>s c. c\<lparr>ac_SecretKey := s\<rparr>)),
     (''crypto_key'', StringSlot ac_PublicKeyPath (\<lambda>s c. c\<lparr>ac_PublicKeyPath := s\<rparr>)),
     (''agent_log_level'', StringSlot ac_LogLevel (\<lambda>s c. c\<lparr>ac_LogLevel := s\<rparr>)),
     (''ConfigFile'', StringSlot ac_ConfigFile (\<lambda>s c. c\<lparr>ac_ConfigFile := s\<rparr>))]"

definition zero_agent_config :: agent_config where
  "zero_agent_config = \<lparr>ac_MaxNumberOfRequests = 0, ac_MaxRetryCount = 0, ac_InitialRetryDelaySec = 0,
     ac_RetryDelayIncrementSec = 0, ac_ServerAddr = [], ac_PollIntervalSec = 0, ac_ReportIntervalSec = 0,
     ac_GracePeriodSec = 0, ac_SecretKey = [], ac_PublicKeyPath = [], ac_LogLevel = [], ac_ConfigFile = []\<rparr>"

definition agent_NewDefaultConfig :: agent_config where
  "agent_NewDefaultConfig = \<lparr>ac_MaxNumberOfRequests = 0, ac_MaxRetryCount = 3, ac_InitialRetryDelaySec = 1,
     ac_RetryDelayIncrementSec = 2, ac_ServerAddr = ''http://localhost:8080'', ac_PollIntervalSec = 2,
     ac_ReportIntervalSec = 10, ac_GracePeriodSec = 30, ac_SecretKey = [], ac_PublicKeyPath = [],
     ac_LogLevel = ''info'', ac_ConfigFile = []\<rparr>"

definition agent_bindFlags :: "agent_config flag list" where
  "agent_bindFlags = map (\<lambda>(name, short, field). \<lparr>fl_name = name, fl_shorthand = short, fl_slot = slot_of agent_slots field\<rparr>)
     [(''addr'', ''a'', ''address''), (''poll-interval'', ''p'', ''poll_interval_sec''),
      (''report-interval'', ''r'', ''report_interval_sec''), (''grace-period'', [], ''grace_period_sec''),
      (''simultaneous'', ''l'', ''rate_limit''), (''secret-key'', ''k'', ''key''), (''crypto-key'', [], ''crypto_key''),
      (''config'', ''c'', ''ConfigFile'')]"

definition agent_Read :: "agent_config config_env \<Rightarrow> goerror + agent_config" where
  "agent_Read env =
     read_config ''agent'' agent_slots agent_bindFlags ac_ConfigFile zero_agent_config agent_NewDefaultConfig env"

section \<open>Where a setting comes from\<close>

definition merge_lawful :: "(gostring \<times> 'c slot) list \<Rightarrow> 'c config_env \<Rightarrow> bool" where
  "merge_lawful slots env \<longleftrightarrow> (\<forall>dst src. ce_Merge env dst src = Inr (fill_empty slots dst src))"

text \<open>The settings of flags and environment, and those of the file if one is named.\<close>

lemma read_config_cases:
  assumes "read_config what slots flags ConfigFile zero default_config env = Inr cfg" and "merge_lawful slots env"
  obtains given where "ce_env_Parse env (ce_flag_Parse env flags zero) = Inr given"
      "ConfigFile given = []" "cfg = fill_empty slots given default_config"
  | given fileCfg where "ce_env_Parse env (ce_flag_Parse env flags zero) = Inr given" "ConfigFile given \<noteq> []"
      "NewConfigFromJSONFile (ce_ReadFile env) (ce_json_error env) slots zero (ConfigFile given) = Inr fileCfg"
      "cfg = fill_empty slots (fill_empty slots given fileCfg) default_config"
  using assms by (auto simp: read_config_def merge_lawful_def split: sum.splits if_splits)

text \<open>Settings as values, and fields that do not overlap.\<close>

datatype setting = StringSetting gostring | IntSetting int | BoolSetting bool

definition read_slot :: "'c slot \<Rightarrow> 'c \<Rightarrow> setting" where
  "read_slot sl c =
     (case sl of
        StringSlot get put \<Rightarrow> StringSetting (get c) | IntSlot get put \<Rightarrow> IntSetting (get c)
      | BoolSlot get put \<Rightarrow> BoolSetting (get c))"

definition is_empty :: "setting \<Rightarrow> bool" where
  "is_empty s \<longleftrightarrow> s \<in> {StringSetting [], IntSetting 0, BoolSetting False}"

definition first_set :: "setting \<Rightarrow> setting \<Rightarrow> setting" where
  "first_set s t = (if is_empty s then t else s)"

definition fills :: "'c slot \<Rightarrow> bool" where
  "fills a \<longleftrightarrow> (\<forall>src c. read_slot a (fill_slot src a c) = first_set (read_slot a c) (read_slot a src))"

definition keeps :: "'c slot \<Rightarrow> 'c slot \<Rightarrow> bool" where
  "keeps a b \<longleftrightarrow> (\<forall>src c. read_slot b (fill_slot src a c) = read_slot b c)"

fun separate :: "(gostring \<times> 'c slot) list \<Rightarrow> bool" where
  "separate [] \<longleftrightarrow> True"
| "separate ((n, a) # as) \<longleftrightarrow> fills a \<and> list_all (\<lambda>(m, b). keeps a b \<and> keeps b a) as \<and> separate as"

lemma keeps_all:
  assumes "list_all (\<lambda>(m, b). keeps b a) as"
  shows "read_slot a (fold (\<lambda>(name, sl). fill_slot src sl) as c) = read_slot a c"
  using assms
proof (induction as arbitrary: c)
  case (Cons x as)
  obtain m b where x: "x = (m, b)" by (cases x)
  then have "read_slot a (fill_slot src b c) = read_slot a c" using Cons.prems unfolding keeps_def by simp
  then show ?case using Cons x by simp
qed simp

lemma read_filled:
  assumes "separate as" and "(n, a) \<in> set as"
  shows "read_slot a (fill_empty as c src) = first_set (read_slot a c) (read_slot a src)"
  using assms
proof (induction as arbitrary: c)
  case (Cons x as)
  obtain m b where x: "x = (m, b)" by (cases x)
  show ?case
  proof (cases "(n, a) = x")
    case True
    then have "list_all (\<lambda>(m, b). keeps b a) as" "fills a"
      using Cons.prems(1) x by (auto simp: list_all_iff)
    then show ?thesis using True x keeps_all [of a as src "fill_slot src a c"] by (auto simp: fill_empty_def fills_def)
  next
    case False
    then have "(n, a) \<in> set as" "keeps b a" using Cons.prems x by (auto simp: list_all_iff)
    then show ?thesis using Cons x by (simp add: fill_empty_def keeps_def)
  qed
qed simp

lemmas slot_defs = fills_def keeps_def read_slot_def fill_slot_def first_set_def is_empty_def

lemma separate_slots: "separate server_slots" "separate agent_slots"
  by (simp_all add: server_slots_def agent_slots_def slot_defs)

lemma file_load_synchronous: "file_load json_error st = (r, st') \<Longrightarrow> fst_synchronous st' = fst_synchronous st"
  by (auto simp: file_load_def split: sum.splits option.splits prod.splits outcome.splits)

section \<open>Properties of the configuration\<close>

text \<open>C23. Where every setting of the server comes from: the value of the flags and the environment if
  it is not empty, else that of the configuration file if one is named, else the default.\<close>

theorem setting_precedence:
  assumes "merge_lawful server_slots env" and "server_Read env = Inr cfg" and "(name, sl) \<in> set server_slots"
    and "ce_env_Parse env (ce_flag_Parse env server_bindFlags zero_server_config) = Inr given"
  shows "if sv_ConfigFile given = []
    then read_slot sl cfg = first_set (read_slot sl given) (read_slot sl server_NewDefaultConfig)
    else \<exists>fileCfg. NewConfigFromJSONFile (ce_ReadFile env) (ce_json_error env) server_slots zero_server_config
             (sv_ConfigFile given) = Inr fileCfg \<and>
           read_slot sl cfg = first_set (first_set (read_slot sl given) (read_slot sl fileCfg)) (read_slot sl server_NewDefaultConfig)"
  using assms(2) [unfolded server_Read_def] assms(1)
  by (cases rule: read_config_cases) (use assms(4) read_filled [OF separate_slots(1) assms(3)] in auto)

text \<open>C34. The synchronous mode of the file storage cannot be configured: a store interval of 0, which
  the flag's help text and \<open>NewFileStorage\<close> take for it, counts as empty when the defaults are merged and
  becomes 300 seconds, so that no storage made from a configuration that was read is synchronous.\<close>

theorem never_synchronous:
  assumes "merge_lawful server_slots env" and "server_Read env = Inr cfg"
    and "NewFileStorage json_error (sv_FileStorageConfig cfg) dk = Done st"
  shows "\<not> fst_synchronous st"
proof -
  let ?sl = "IntSlot (fc_StoreIntervalSec \<circ> sv_FileStorageConfig)
    (\<lambda>n c. c\<lparr>sv_FileStorageConfig := (sv_FileStorageConfig c)\<lparr>fc_StoreIntervalSec := n\<rparr>\<rparr>)"
  have m: "(''store_interval'', ?sl) \<in> set server_slots" by (simp add: server_slots_def)
  have "\<exists>c. cfg = fill_empty server_slots c server_NewDefaultConfig"
    using assms(2) [unfolded server_Read_def] assms(1) by (cases rule: read_config_cases) auto
  then obtain c where "cfg = fill_empty server_slots c server_NewDefaultConfig" by blast
  then have "read_slot ?sl cfg = first_set (read_slot ?sl c) (read_slot ?sl server_NewDefaultConfig)"
    using read_filled [OF separate_slots(1) m] by simp
  then have "fc_StoreIntervalSec (sv_FileStorageConfig cfg) \<noteq> 0"
    by (auto simp: read_slot_def first_set_def is_empty_def server_NewDefaultConfig_def split: if_splits)
  then show ?thesis using assms(3) file_load_synchronous
    by (auto simp: NewFileStorage_def Let_def split: prod.splits outcome.splits if_splits)
qed

text \<open>An environment without flags, variables and files.\<close>

definition plain_env :: "(gostring \<times> 'c slot) list \<Rightarrow> 'c config_env" where
  "plain_env slots = \<lparr>ce_flag_Parse = (\<lambda>fs c. c), ce_env_Parse = Inr, ce_Merge = (\<lambda>dst src. Inr (fill_empty slots dst src)),
     ce_ReadFile = (\<lambda>path. Inl (Foreign ''no such file'')), ce_json_error = (\<lambda>s. ''invalid JSON'')\<rparr>"

lemma plain_env_lawful: "merge_lawful slots (plain_env slots)"
  by (simp add: merge_lawful_def plain_env_def)

lemma plain_server_Read: "server_Read (plain_env server_slots) = Inr (fill_empty server_slots zero_server_config server_NewDefaultConfig)"
  by (simp add: server_Read_def read_config_def plain_env_def zero_server_config_def)

lemma setting_precedence_witness:
  "\<exists>cfg. server_Read (plain_env server_slots) = Inr cfg \<and> sv_Addr cfg = '':8080''"
proof -
  let ?cfg = "fill_empty server_slots zero_server_config server_NewDefaultConfig" and ?env = "plain_env server_slots"
  let ?sl = "StringSlot sv_Addr (\<lambda>s c. c\<lparr>sv_Addr := s\<rparr>)"
  have g: "ce_env_Parse ?env (ce_flag_Parse ?env server_bindFlags zero_server_config) = Inr zero_server_config"
    by (simp add: plain_env_def)
  have m: "(''address'', ?sl) \<in> set server_slots" by (simp add: server_slots_def)
  have "read_slot ?sl ?cfg = first_set (read_slot ?sl zero_server_config) (read_slot ?sl server_NewDefaultConfig)"
    using setting_precedence [OF plain_env_lawful plain_server_Read m g] by (simp add: zero_server_config_def)
  then show ?thesis using plain_server_Read
    by (simp add: read_slot_def first_set_def is_empty_def zero_server_config_def server_NewDefaultConfig_def)
qed

lemma never_synchronous_witness:
  "\<exists>cfg st. server_Read (plain_env server_slots) = Inr cfg \<and>
     NewFileStorage (\<lambda>_. []) (sv_FileStorageConfig cfg) \<lparr>dk_files = [], dk_writes = []\<rparr> = Done st \<and> \<not> fst_synchronous st"
proof -
  let ?cfg = "fill_empty server_slots zero_server_config server_NewDefaultConfig"
  have "fc_StoreIntervalSec (sv_FileStorageConfig ?cfg) = 300" "\<not> fc_RestoreOnStartup (sv_FileStorageConfig ?cfg)"
    by (simp_all add: fill_empty_def fill_slot_def server_slots_def zero_server_config_def server_NewDefaultConfig_def)
  then obtain st where "NewFileStorage (\<lambda>_. []) (sv_FileStorageConfig ?cfg) \<lparr>dk_files = [], dk_writes = []\<rparr> = Done st"
    by (simp add: NewFileStorage_def Let_def ticker_panics_def seconds_def)
  with never_synchronous [OF plain_env_lawful plain_server_Read this] plain_server_Read show ?thesis by blast
qed

end
