(* ===== verification/AgentRun.thy ===== *)
theory AgentRun
  imports Agent Sending Config
begin

text \<open>
  \<open>internal/agent/agent.go\<close> with the constructors and the loops of \<open>poller.go\<close> and
  \<open>reporter.go\<close>: what an agent is made of for a configuration, and its goroutines, which poll and
  report at each tick of their tickers until the context is done. The executor is chosen by the
  configuration; as a value of the interface \<open>Executor\<close> it keeps the contract of a report executor. The
  process is a step relation over the steps of the agent; the lemmas say that it can always stop, and
  what is left when it has stopped.
\<close>

section \<open>The executor of a configuration\<close>

datatype 'n report_executor_value = PoolExecutor "'n pool" | BatchExecutor "'n batch_executor"

definition newExecutor :: "agent_config \<Rightarrow> 'n \<Rightarrow> 'n report_executor_value" where
  "newExecutor cfg n =
     (if 0 < ac_MaxNumberOfRequests cfg
      then PoolExecutor (NewWorkerPoolExecutor (nat (ac_MaxNumberOfRequests cfg)) n)
      else BatchExecutor (NewBatchExecutor n))"

fun value_executes ::
    "'n sender_ops \<Rightarrow> 'n report_executor_value \<Rightarrow> metrics list \<Rightarrow> result \<Rightarrow> 'n report_executor_value \<Rightarrow> bool" where
  "value_executes sops (PoolExecutor p) ms r e' \<longleftrightarrow> (\<exists>p'. e' = PoolExecutor p' \<and> pool_executes sops p ms r p')"
| "value_executes sops (BatchExecutor b) ms r e' \<longleftrightarrow> (\<exists>b'. e' = BatchExecutor b' \<and> batch_executes sops b ms r b')"

fun value_ready :: "'n report_executor_value \<Rightarrow> bool" where
  "value_ready (PoolExecutor p) \<longleftrightarrow> pool_ready p"
| "value_ready (BatchExecutor b) \<longleftrightarrow> True"

fun value_acked :: "'n report_executor_value \<Rightarrow> metrics list" where
  "value_acked (PoolExecutor p) = pl_acked p"
| "value_acked (BatchExecutor b) = be_acked b"

interpretation configured: report_executor "value_executes sops" value_ready value_acked for sops
proof (unfold_locales, goal_cases)
  case (1 e ms r e')
  then show ?case by (cases e) (auto dest: workers.stays_ready)
next
  case (2 e ms r e')
  then show ?case by (cases e) (auto dest: workers.answers batch.answers [OF TrueI])
next
  case (3 e ms r e')
  then show ?case by (cases e) (auto dest: workers.accounts batch.accounts [OF TrueI])
next
  case (4 e ms)
  then show ?case using workers.returns batch.returns by (cases e) (auto, blast+)
qed

lemma newExecutor_ready: "value_ready (newExecutor cfg n) \<and> value_acked (newExecutor cfg n) = []"
  by (simp add: newExecutor_def pool_ready_new) (simp add: NewWorkerPoolExecutor_def NewBatchExecutor_def)

section \<open>Making an agent\<close>

text \<open>The accumulator storage is shared: it is part of the state the poller and the reporter act on.\<close>

record poller =
  po_interval :: int64

definition NewPoller :: "agent_config \<Rightarrow> poller" where
  "NewPoller cfg = \<lparr>po_interval = seconds (ac_PollIntervalSec cfg)\<rparr>"

record ('pub, 'priv, 'n) reporter =
  re_interval :: int64
  re_sender :: "('pub, 'priv) rest_sender"
  re_executor :: "'n report_executor_value"

definition NewReporter ::
    "('pub, 'priv, 'e) crypto \<Rightarrow> (gostring \<Rightarrow> goerror + gostring) \<Rightarrow> gzip_lib \<Rightarrow> agent_config \<Rightarrow> 'n
      \<Rightarrow> goerror + ('pub, 'priv, 'n) reporter" where
  "NewReporter cp ReadFile lib cfg n =
     (let reportRetryPolicy = NewLinearPolicy (word_of_int (ac_MaxRetryCount cfg))
            (seconds (ac_InitialRetryDelaySec cfg)) (seconds (ac_RetryDelayIncrementSec cfg));
          serverAddr = trim_quotes (ac_ServerAddr cfg)
      in case NewRestSender cp ReadFile lib serverAddr reportRetryPolicy (ac_SecretKey cfg) (ac_PublicKeyPath cfg) of
           Inl err \<Rightarrow> Inl (errorf ''failed to create sender: '' err [])
         | Inr sndr \<Rightarrow>
             Inr \<lparr>re_interval = seconds (ac_ReportIntervalSec cfg), re_sender = sndr, re_executor = newExecutor cfg n\<rparr>)"

record ('pub, 'priv, 'n) agent_parts =
  ap_gracePeriod :: int64
  ap_pollr :: poller
  ap_repr :: "('pub, 'priv, 'n) reporter"

definition NewAgent_parts ::
    "('pub, 'priv, 'e) crypto \<Rightarrow> (gostring \<Rightarrow> goerror + gostring) \<Rightarrow> gzip_lib \<Rightarrow> agent_config \<Rightarrow> 'n
      \<Rightarrow> goerror + ('pub, 'priv, 'n) agent_parts" where
  "NewAgent_parts cp ReadFile lib cfg n =
     (case NewReporter cp ReadFile lib cfg n of
        Inl err \<Rightarrow> Inl (errorf ''failed to create metric reporter: '' err [])
      | Inr repr \<Rightarrow>
          Inr \<lparr>ap_gracePeriod = seconds (ac_GracePeriodSec cfg), ap_pollr = NewPoller cfg, ap_repr = repr\<rparr>)"

section \<open>The goroutines\<close>

text \<open>The reporter waits in its \<open>select\<close>, is in a report (the last one or not), or has returned. The
  pollers that have not returned may store at any moment, for a poll takes several critical
  sections. When a tick and the end of the context are both there, \<open>select\<close> takes either.\<close>

datatype reporter_state = Selecting | Reporting bool | Returned

record 'e process =
  pr_agent :: "'e agent"
  pr_done :: bool
  pr_pollers :: "bool list"
  pr_reporter :: reporter_state

text \<open>\<open>Start\<close> makes a ticker for each loop, which panics when the interval is not positive.\<close>

definition Run_agent :: "('pub, 'priv, 'n) agent_parts \<Rightarrow> 'n report_executor_value process outcome" where
  "Run_agent a =
     (if sint (po_interval (ap_pollr a)) \<le> 0 \<or> sint (re_interval (ap_repr a)) \<le> 0 then Panic
      else Done \<lparr>pr_agent = NewAgent (re_executor (ap_repr a)), pr_done = False, pr_pollers = [True, True],
                 pr_reporter = Selecting\<rparr>)"

inductive reporter_step ::
    "('e \<Rightarrow> metrics list \<Rightarrow> result \<Rightarrow> 'e \<Rightarrow> bool) \<Rightarrow> bool \<Rightarrow> reporter_state \<times> 'e agent \<Rightarrow> reporter_state \<times> 'e agent \<Rightarrow> bool"
    for executes and ended :: bool where
  tick: "report_step executes ag ag' \<Longrightarrow> reporter_step executes ended (Selecting, ag) (Reporting False, ag')"
| last: "ended \<Longrightarrow> report_step executes ag ag' \<Longrightarrow> reporter_step executes ended (Selecting, ag) (Reporting True, ag')"
| reports: "report_step executes ag ag' \<Longrightarrow> reporter_step executes ended (Reporting final, ag)
     (if ag_phase ag' \<noteq> Waiting then Reporting final else if final then Returned else Selecting, ag')"

inductive process_step ::
    "('e \<Rightarrow> metrics list \<Rightarrow> result \<Rightarrow> 'e \<Rightarrow> bool) \<Rightarrow> 'e process \<Rightarrow> 'e process \<Rightarrow> bool" for executes where
  cancelled: "process_step executes p (p\<lparr>pr_done := True\<rparr>)"
| stores: "i < length (pr_pollers p) \<Longrightarrow> pr_pollers p ! i \<Longrightarrow> agent_step executes (pr_agent p) ag \<Longrightarrow>
     ag_phase ag = ag_phase (pr_agent p) \<Longrightarrow> process_step executes p (p\<lparr>pr_agent := ag\<rparr>)"
| poller_returns: "pr_done p \<Longrightarrow> process_step executes p (p\<lparr>pr_pollers := (pr_pollers p)[i := False]\<rparr>)"
| reporter: "reporter_step executes (pr_done p) (pr_reporter p, pr_agent p) (rep, ag) \<Longrightarrow>
     process_step executes p (p\<lparr>pr_agent := ag, pr_reporter := rep\<rparr>)"

inductive_cases reporter_stepE: "reporter_step executes ended (rep, ag) (rep', ag')"

lemma process_last:
  "pr_reporter p = Selecting \<Longrightarrow> pr_done p \<Longrightarrow> report_step executes (pr_agent p) ag \<Longrightarrow>
     process_step executes p (p\<lparr>pr_agent := ag, pr_reporter := Reporting True\<rparr>)"
  by (rule process_step.reporter) (simp add: reporter_step.last)

lemma process_reports:
  "pr_reporter p = Reporting final \<Longrightarrow> report_step executes (pr_agent p) ag \<Longrightarrow>
     process_step executes p (p\<lparr>pr_agent := ag, pr_reporter :=
       (if ag_phase ag \<noteq> Waiting then Reporting final else if final then Returned else Selecting)\<rparr>)"
  by (rule process_step.reporter) (use reporter_step.reports [of executes "pr_agent p" ag "pr_done p" final] in simp)

abbreviation process_reach ::
    "('e \<Rightarrow> metrics list \<Rightarrow> result \<Rightarrow> 'e \<Rightarrow> bool) \<Rightarrow> 'e process \<Rightarrow> 'e process \<Rightarrow> bool" where
  "process_reach executes \<equiv> rtranclp (process_step executes)"

text \<open>What \<open>wg.Wait\<close> waits for.\<close>

definition all_returned :: "'e process \<Rightarrow> bool" where
  "all_returned p \<longleftrightarrow> pr_reporter p = Returned \<and> True \<notin> set (pr_pollers p)"

section \<open>Lemmas\<close>

lemma process_one: "process_step ex p q \<Longrightarrow> process_reach ex p q"
  by (rule r_into_rtranclp)

lemma process_first: "process_step ex p q \<Longrightarrow> process_reach ex q r \<Longrightarrow> process_reach ex p r"
  by (rule converse_rtranclp_into_rtranclp)

lemma process_trans: "process_reach ex p q \<Longrightarrow> process_reach ex q r \<Longrightarrow> process_reach ex p r"
  by (rule rtranclp_trans)

text \<open>The process is the agent with its ticks; between reports no report runs.\<close>

lemma process_agent_step: "process_step ex p q \<Longrightarrow> agent_reach ex (pr_agent p) (pr_agent q)"
  by (induction rule: process_step.induct)
    (auto simp: report_step_def intro: agent_reach.intros elim!: reporter_stepE)

lemma process_agent: "process_reach ex p q \<Longrightarrow> agent_reach ex (pr_agent p) (pr_agent q)"
  by (induction rule: rtranclp_induct) (auto intro: agent_reach.at_start agent_reach_trans [OF process_agent_step])

definition phases_fit :: "'e process \<Rightarrow> bool" where
  "phases_fit p \<longleftrightarrow> length (pr_pollers p) = 2 \<and>
     (ag_phase (pr_agent p) = Waiting \<longleftrightarrow> (\<forall>final. pr_reporter p \<noteq> Reporting final))"

lemma report_step_waiting: "report_step ex st st' \<Longrightarrow> ag_phase st = Waiting \<Longrightarrow> ag_phase st' \<noteq> Waiting"
  by (simp add: report_step_def)

lemma phases_fit_step: "process_step ex p q \<Longrightarrow> phases_fit p \<Longrightarrow> phases_fit q"
  by (induction rule: process_step.induct) (auto simp: phases_fit_def dest: report_step_waiting elim!: reporter_stepE split: if_splits)

lemma phases_fit_reach: "process_reach ex p q \<Longrightarrow> phases_fit p \<Longrightarrow> phases_fit q"
  by (induction rule: rtranclp_induct) (auto dest: phases_fit_step)

text \<open>A report that can be brought to its end brings the reporter back to its loop or out of it.\<close>

lemma report_returns:
  assumes "report_reach ex a ag" and "ag_phase ag = Waiting"
  shows "pr_agent p = a \<Longrightarrow> pr_reporter p = Reporting final \<Longrightarrow> ag_phase a \<noteq> Waiting \<Longrightarrow>
    \<exists>ag'. process_reach ex p (p\<lparr>pr_agent := ag', pr_reporter := if final then Returned else Selecting\<rparr>)"
  using assms
proof (induction arbitrary: p rule: converse_rtranclp_induct)
  case (step a b)
  let ?q = "p\<lparr>pr_agent := b, pr_reporter :=
       (if ag_phase b \<noteq> Waiting then Reporting final else if final then Returned else Selecting)\<rparr>"
  have s: "process_step ex p ?q" using step.hyps(1) step.prems(1,2) process_reports [of p final ex b] by simp
  show ?case
  proof (cases "ag_phase b = Waiting")
    case True
    then show ?thesis using s by (intro exI [of _ b]) (simp add: process_one)
  next
    case False
    then obtain ag' where "process_reach ex ?q (?q\<lparr>pr_agent := ag', pr_reporter := if final then Returned else Selecting\<rparr>)"
      using step.IH [of ?q] step.prems(4) by auto
    then show ?thesis using s by (intro exI [of _ ag']) (simp add: process_first)
  qed
qed simp

context report_executor
begin

lemma process_ok:
  assumes "process_reach executes p q" and "agent_ok acked (pr_agent p) \<and> ready (ag_exec (pr_agent p))"
  shows "agent_ok acked (pr_agent q) \<and> ready (ag_exec (pr_agent q))"
  using agent_reach_ok [OF process_agent [OF assms(1)] assms(2)] .

text \<open>A running report can be brought to its end.\<close>

lemma report_can_return:
  assumes "agent_ok acked (pr_agent p) \<and> ready (ag_exec (pr_agent p))" and "phases_fit p" and "pr_reporter p = Reporting final"
  shows "\<exists>ag. process_reach executes p (p\<lparr>pr_agent := ag, pr_reporter := if final then Returned else Selecting\<rparr>)"
proof -
  have "ag_phase (pr_agent p) \<noteq> Waiting" using assms(2,3) by (simp add: phases_fit_def)
  then show ?thesis using report_can_finish [OF assms(1)] report_returns [OF _ _ refl assms(3)] by blast
qed

text \<open>A reporter in its loop takes the end of the context, reports once more and returns.\<close>

lemma last_report_returns:
  assumes "agent_ok acked (pr_agent p) \<and> ready (ag_exec (pr_agent p))" and "phases_fit p"
    and "pr_reporter p = Selecting" and "pr_done p"
  shows "\<exists>ag. process_reach executes p (p\<lparr>pr_agent := ag, pr_reporter := Returned\<rparr>)"
proof -
  have w: "ag_phase (pr_agent p) = Waiting" using assms(2,3) by (simp add: phases_fit_def)
  let ?ag = "(pr_agent p)\<lparr>ag_phase := Staging (map fst (accums (ag_stor (pr_agent p)))) [] []\<rparr>"
  let ?q = "p\<lparr>pr_agent := ?ag, pr_reporter := Reporting True\<rparr>"
  have s: "process_step executes p ?q"
    using process_last [OF assms(3,4), of executes ?ag] agent_step.start [OF w, of executes] w
    by (simp add: report_step_def)
  have "agent_ok acked (pr_agent ?q) \<and> ready (ag_exec (pr_agent ?q))" using process_ok [OF process_one [OF s] assms(1)] .
  moreover have "phases_fit ?q" by (rule phases_fit_step [OF s assms(2)])
  ultimately obtain ag where "process_reach executes ?q (?q\<lparr>pr_agent := ag, pr_reporter := Returned\<rparr>)"
    using report_can_return [of ?q True] by auto
  then show ?thesis using process_first [OF s] by (intro exI [of _ ag]) simp
qed

lemma process_can_stop:
  assumes "agent_ok acked (pr_agent p) \<and> ready (ag_exec (pr_agent p))" and "phases_fit p"
  shows "\<exists>q. process_reach executes p q \<and> all_returned q"
proof -
  let ?p1 = "p\<lparr>pr_done := True\<rparr>"
  have r1: "process_reach executes p ?p1" by (rule process_one) (rule process_step.cancelled)
  have fit1: "phases_fit ?p1" and ok1: "agent_ok acked (pr_agent ?p1) \<and> ready (ag_exec (pr_agent ?p1))"
    using assms by (simp_all add: phases_fit_def)
  obtain p2 where r2: "process_reach executes ?p1 p2" "pr_reporter p2 = Returned" "pr_done p2"
  proof (cases "pr_reporter p")
    case Selecting
    then obtain ag where "process_reach executes ?p1 (?p1\<lparr>pr_agent := ag, pr_reporter := Returned\<rparr>)"
      using last_report_returns [OF ok1 fit1] by auto
    then show thesis using that by fastforce
  next
    case (Reporting final)
    then obtain ag where r: "process_reach executes ?p1 (?p1\<lparr>pr_agent := ag, pr_reporter := if final then Returned else Selecting\<rparr>)"
      using report_can_return [OF ok1 fit1] by auto
    show thesis
    proof (cases final)
      case True
      then show thesis using r that by fastforce
    next
      case False
      let ?q = "?p1\<lparr>pr_agent := ag, pr_reporter := Selecting\<rparr>"
      have q: "process_reach executes ?p1 ?q" using r False by simp
      obtain ag' where "process_reach executes ?q (?q\<lparr>pr_agent := ag', pr_reporter := Returned\<rparr>)"
        using last_report_returns [OF process_ok [OF q ok1] phases_fit_reach [OF q fit1]] by auto
      then show thesis using process_trans [OF q] that by fastforce
    qed
  next
    case Returned
    then show thesis using that [of ?p1] by simp
  qed
  let ?p3 = "p2\<lparr>pr_pollers := (pr_pollers p2)[0 := False]\<rparr>" and ?p4 = "p2\<lparr>pr_pollers := (pr_pollers p2)[0 := False, 1 := False]\<rparr>"
  have "process_step executes p2 ?p3" using r2(3) by (rule process_step.poller_returns)
  moreover have "process_step executes ?p3 ?p4" using process_step.poller_returns [of ?p3 executes 1] r2(3) by simp
  ultimately have "process_reach executes p ?p4" using process_trans [OF r1 r2(1)] by (meson process_one process_trans)
  moreover have "length (pr_pollers p2) = 2" using phases_fit_reach [OF r2(1) fit1] by (simp add: phases_fit_def)
  then have "all_returned ?p4" using r2(2) by (auto simp: all_returned_def length_Suc_conv numeral_2_eq_2)
  ultimately show ?thesis by blast
qed

text \<open>A poll that comes between the last report and the poller's return is never reported.\<close>

lemma poll_can_be_lost:
  assumes "ready e" and "acked e = []"
  shows "\<exists>q. process_reach executes \<lparr>pr_agent = NewAgent e, pr_done = False, pr_pollers = [True, True], pr_reporter = Selecting\<rparr> q \<and>
    all_returned q \<and> ag_polled (pr_agent q) ''PollCount'' = 1 \<and> acked (ag_exec (pr_agent q)) = []"
proof -
  let ?p = "\<lparr>pr_agent = NewAgent e, pr_done = False, pr_pollers = [True, True], pr_reporter = Selecting\<rparr>"
  let ?p1 = "?p\<lparr>pr_done := True\<rparr>"
  have r1: "process_reach executes ?p ?p1" by (rule process_one) (rule process_step.cancelled)
  have "agent_ok acked (pr_agent ?p1) \<and> ready (ag_exec (pr_agent ?p1))" "phases_fit ?p1"
    using agent_ok_new [OF assms(2)] assms(1) by (simp_all add: NewAgent_def phases_fit_def)
  obtain r e' where x: "executes e [] r e'" using returns [OF assms(1)] by blast
  have "mset (SuccessIDs r) + mset (FailureIDs r) = {#}" using answers [OF assms(1) x] by simp
  then have ids: "SuccessIDs r = []" "FailureIDs r = []" by simp_all
  have a: "acked e' = []" using accounts [OF assms(1) x] assms(2) by auto
  let ?a0 = "NewAgent e" and ?a1 = "(NewAgent e)\<lparr>ag_phase := Staging [] [] []\<rparr>" and ?a2 = "(NewAgent e)\<lparr>ag_phase := Agent.Sending []\<rparr>"
  let ?a3 = "(NewAgent e)\<lparr>ag_exec := e', ag_phase := Settling [] []\<rparr>" and ?a4 = "(NewAgent e)\<lparr>ag_exec := e'\<rparr>"
  have s1: "report_step executes ?a0 ?a1"
    using agent_step.start [of ?a0 executes] by (simp add: report_step_def NewAgent_def NewAccumulatorStorage_def)
  have s2: "report_step executes ?a1 ?a2" using agent_step.send [of ?a1 "[]" "[]" executes] by (simp add: report_step_def)
  have s3: "report_step executes ?a2 ?a3"
    using agent_step.execute [of ?a2 "[]" executes r e'] x ids by (simp add: report_step_def NewAgent_def)
  have s4: "report_step executes ?a3 ?a4"
    using agent_step.finish [of ?a3 executes] by (simp add: report_step_def NewAgent_def)
  let ?q = "\<lambda>ag rep. ?p1\<lparr>pr_agent := ag, pr_reporter := rep\<rparr>"
  have "process_step executes ?p1 (?q ?a1 (Reporting True))"
    using process_last [of ?p1 executes ?a1] s1 by simp
  moreover have "process_step executes (?q ?a1 (Reporting True)) (?q ?a2 (Reporting True))"
    "process_step executes (?q ?a2 (Reporting True)) (?q ?a3 (Reporting True))"
    "process_step executes (?q ?a3 (Reporting True)) (?q ?a4 Returned)"
    using process_reports [of "?q ?a1 (Reporting True)" True executes ?a2] s2
      process_reports [of "?q ?a2 (Reporting True)" True executes ?a3] s3
      process_reports [of "?q ?a3 (Reporting True)" True executes ?a4] s4
    by (simp_all add: NewAgent_def)
  ultimately have r2: "process_reach executes ?p1 (?q ?a4 Returned)"
    by (meson process_first process_one)
  let ?a5 = "?a4\<lparr>ag_stor := storeCounterMetric ''PollCount'' 1 (ag_stor ?a4), ag_polled := (\<lambda>_. 0)(''PollCount'' := 1)\<rparr>"
  have "fst (AccumulateCounter 1 (acc_of (ag_stor ?a4) ''PollCount'')) = None"
    by (simp add: NewAgent_def acc_of_def acc_Get_def NewAccumulatorStorage_def AccumulateCounter_def NewMetricAccumulator_def)
  then have "agent_step executes ?a4 ?a5"
    using agent_step.poll_counter [of executes ?a4 "''PollCount''" 1] by (simp add: NewAgent_def)
  then have r3: "process_step executes (?q ?a4 Returned) (?q ?a5 Returned)"
    using process_step.stores [of 0 "?q ?a4 Returned" executes ?a5] by simp
  let ?final = "(?q ?a5 Returned)\<lparr>pr_pollers := [False, False]\<rparr>"
  have "process_step executes (?q ?a5 Returned) ((?q ?a5 Returned)\<lparr>pr_pollers := [False, True]\<rparr>)"
    "process_step executes ((?q ?a5 Returned)\<lparr>pr_pollers := [False, True]\<rparr>) ?final"
    using process_step.poller_returns [of "?q ?a5 Returned" executes 0]
      process_step.poller_returns [of "(?q ?a5 Returned)\<lparr>pr_pollers := [False, True]\<rparr>" executes 1] by simp_all
  then have "process_reach executes ?p ?final" using r1 r2 r3 by (meson process_first process_one process_trans)
  then show ?thesis using a by (intro exI [of _ ?final]) (simp add: all_returned_def)
qed

end

section \<open>Properties of the process\<close>

lemma Run_agent_starts:
  assumes "NewAgent_parts cp ReadFile lib cfg n = Inr a" and "Run_agent a = Done p"
  shows "p = \<lparr>pr_agent = NewAgent (newExecutor cfg n), pr_done = False, pr_pollers = [True, True], pr_reporter = Selecting\<rparr>"
  using assms by (auto simp: NewAgent_parts_def NewReporter_def Run_agent_def Let_def split: sum.splits if_splits)

lemma process_starts_ok:
  assumes "NewAgent_parts cp ReadFile lib cfg n = Inr a" and "Run_agent a = Done p"
  shows "agent_ok value_acked (pr_agent p) \<and> value_ready (ag_exec (pr_agent p))" "phases_fit p"
  unfolding Run_agent_starts [OF assms]
  using newExecutor_ready [of cfg n] configured.agent_ok_new [of "newExecutor cfg n"]
  by (simp_all add: phases_fit_def) (simp_all add: NewAgent_def)

text \<open>C25. The agent of any configuration can always be stopped: from every state it can get to, with
  either executor and whatever the sender answers, there is a way to the end of all its goroutines; and
  when they have returned, the increments polled are those the sender took and those that were still
  pending, and nothing is staged.\<close>

theorem agent_can_stop:
  assumes "NewAgent_parts cp ReadFile lib cfg n = Inr a" and "Run_agent a = Done p"
    and "process_reach (value_executes sops) p q"
  shows "(\<exists>r. process_reach (value_executes sops) q r \<and> all_returned r) \<and>
    (all_returned q \<longrightarrow> ag_polled (pr_agent q) i =
       sent_delta (value_acked (ag_exec (pr_agent q))) i + pending_delta (acc_of (ag_stor (pr_agent q)) i) \<and>
     \<not> ma_isStaged (acc_of (ag_stor (pr_agent q)) i))"
proof -
  note ok = configured.process_ok [OF assms(3) process_starts_ok(1) [OF assms(1,2)]]
  note fit = phases_fit_reach [OF assms(3) process_starts_ok(2) [OF assms(1,2)]]
  have "ag_phase (pr_agent q) = Waiting" if "all_returned q" using that fit by (simp add: all_returned_def phases_fit_def)
  then show ?thesis using configured.process_can_stop [OF ok fit] ok
    by (auto simp: agent_ok_def taken_delta_def staged_ids_def)
qed

text \<open>The agent with the default configuration, as it is made and started.\<close>

lemma default_agent:
  "\<exists>a p. NewAgent_parts test_crypto ReadFile lib agent_NewDefaultConfig n = Inr a \<and> Run_agent a = Done p"
proof -
  have "enrichServerAddress (trim_quotes ''http://localhost:8080'') = Inr ''http://localhost:8080''" by code_simp
  then show ?thesis
    by (simp add: NewAgent_parts_def NewReporter_def NewRestSender_def Run_agent_def NewPoller_def agent_NewDefaultConfig_def
        Let_def seconds_def)
qed

lemma agent_can_stop_witness:
  "\<exists>(a :: (unit, unit, nat) agent_parts) p r. Run_agent a = Done p \<and> process_reach (value_executes eager_sender) p r \<and> all_returned r"
proof -
  obtain a p where a: "NewAgent_parts test_crypto (\<lambda>_. Inl (Foreign ''none'')) stored_gzip agent_NewDefaultConfig (0 :: nat) = Inr a"
      "Run_agent a = Done p" using default_agent [of "\<lambda>_. Inl (Foreign ''none'')" stored_gzip "0 :: nat"] by blast
  then show ?thesis using agent_can_stop [OF a rtranclp.rtrancl_refl, of eager_sender] by blast
qed

text \<open>C30. A clean stop can lose increments although every request succeeds: the last report is started
  by the same signal as the pollers' return, so that a poll can come after it, and what it counted is
  never sent.\<close>

theorem stop_can_lose_poll:
  assumes "NewAgent_parts cp ReadFile lib cfg n = Inr a" and "Run_agent a = Done p"
  shows "\<exists>q. process_reach (value_executes sops) p q \<and> all_returned q \<and>
    ag_polled (pr_agent q) ''PollCount'' = 1 \<and> value_acked (ag_exec (pr_agent q)) = []"
  unfolding Run_agent_starts [OF assms]
  by (rule configured.poll_can_be_lost) (simp_all add: newExecutor_ready)

lemma stop_can_lose_poll_witness:
  "\<exists>(a :: (unit, unit, nat) agent_parts) p q. Run_agent a = Done p \<and> process_reach (value_executes eager_sender) p q \<and>
     ag_polled (pr_agent q) ''PollCount'' = 1 \<and> value_acked (ag_exec (pr_agent q)) = []"
proof -
  obtain a p where a: "NewAgent_parts test_crypto (\<lambda>_. Inl (Foreign ''none'')) stored_gzip agent_NewDefaultConfig (0 :: nat) = Inr a"
      "Run_agent a = Done p" using default_agent [of "\<lambda>_. Inl (Foreign ''none'')" stored_gzip "0 :: nat"] by blast
  then show ?thesis using stop_can_lose_poll [OF a, of eager_sender] by blast
qed

end
