(* ===== verification/AuditLog.thy ===== *)
theory AuditLog
  imports Service MetricsJson
begin

text \<open>
  \<open>internal/audit\<close>: the payload an auditor is told, the auditor that buffers payloads and appends
  them to a file when its timer fires (\<open>fswriter.go\<close>), and the one that posts each payload to
  a service (\<open>httpwriter.go\<close>). The timer's goroutine is a step between the operations, which hold
  the mutex. The file is part of the writer's state, with a schedule of which appends fail; the
  HTTP client is a parameter. The lemmas: the file and the buffer together are the events in order
  as long as no append fails, and a failed append loses what was buffered.
\<close>

section \<open>The payload\<close>

text \<open>A time is its Unix second.\<close>

record payload =
  pa_Timestamp :: int64
  pa_MetricNames :: "gostring list"
  pa_IPAddress :: gostring

text \<open>The id of a nil metric is a nil dereference.\<close>

fun payload_names :: "metrics option list \<Rightarrow> gostring list outcome" where
  "payload_names [] = Done []"
| "payload_names (None # ps) = Panic"
| "payload_names (Some m # ps) = (case payload_names ps of Panic \<Rightarrow> Panic | Done names \<Rightarrow> Done (m_ID m # names))"

definition NewPayload :: "int64 \<Rightarrow> gostring \<Rightarrow> metrics option list \<Rightarrow> payload outcome" where
  "NewPayload ts ipAddr ps =
     (case payload_names ps of
        Panic \<Rightarrow> Panic
      | Done names \<Rightarrow> Done \<lparr>pa_Timestamp = ts, pa_MetricNames = names, pa_IPAddress = ipAddr\<rparr>)"

text \<open>Integers and strings always marshal, so that \<open>json.Marshal\<close> does not fail for a payload.\<close>

definition payload_json :: "payload \<Rightarrow> json" where
  "payload_json p =
     JObj [(''ts'', JNum (format_int (pa_Timestamp p))), (''metrics'', JArr (map JStr (pa_MetricNames p))),
           (''ip_address'', JStr (pa_IPAddress p))]"

definition Serialize :: "payload \<Rightarrow> gostring" where
  "Serialize p = json_indent 0 (payload_json p)"

section \<open>The file auditor\<close>

text \<open>Opening the file may fail, or the write after some bytes; the schedule is empty where all
  coming appends succeed.\<close>

datatype append_fault = OpenFails goerror | WriteFails goerror nat

record file_writer =
  fw_buf :: "payload list"
  fw_ticking :: bool
  fw_filename :: gostring
  fw_file :: gostring
  fw_faults :: "append_fault option list"

definition NewFileWriter :: "gostring \<Rightarrow> int \<Rightarrow> gostring \<Rightarrow> append_fault option list \<Rightarrow> file_writer outcome" where
  "NewFileWriter filename writeIntervalSec content faults =
     (if ticker_panics writeIntervalSec then Panic
      else Done \<lparr>fw_buf = [], fw_ticking = True, fw_filename = filename, fw_file = content, fw_faults = faults\<rparr>)"

definition file_OnMetricsUpdate ::
    "int64 \<Rightarrow> gostring \<Rightarrow> metrics option list \<Rightarrow> file_writer \<Rightarrow> goerror option outcome \<times> file_writer" where
  "file_OnMetricsUpdate ts ipAddr ps fw =
     (case NewPayload ts ipAddr ps of
        Panic \<Rightarrow> (Panic, fw)
      | Done payload \<Rightarrow> (Done None, fw\<lparr>fw_buf := fw_buf fw @ [payload]\<rparr>))"

definition payload_line :: "payload \<Rightarrow> gostring" where
  "payload_line p = json_print (payload_json p) @ [CHR 0x0A]"

text \<open>When the file does not open, the write to the nil file fails as well; either way the error is
  only logged and the buffer emptied.\<close>

definition append_file :: "gostring \<Rightarrow> file_writer \<Rightarrow> file_writer" where
  "append_file chunk fw =
     (case fw_faults fw of
        Some (OpenFails err) # rest \<Rightarrow> fw\<lparr>fw_faults := rest\<rparr>
      | Some (WriteFails err k) # rest \<Rightarrow> fw\<lparr>fw_faults := rest, fw_file := fw_file fw @ take k chunk\<rparr>
      | _ \<Rightarrow> fw\<lparr>fw_faults := tl (fw_faults fw), fw_file := fw_file fw @ chunk\<rparr>)"

definition fw_flush :: "file_writer \<Rightarrow> file_writer" where
  "fw_flush fw =
     (if length (fw_buf fw) = 0 then fw
      else (append_file (concat (map payload_line (fw_buf fw))) fw)\<lparr>fw_buf := []\<rparr>)"

text \<open>The body of the loop: what a tick of the timer does.\<close>

definition writeBufferLoop :: "file_writer \<Rightarrow> file_writer" where
  "writeBufferLoop fw = (if fw_ticking fw then fw_flush fw else fw)"

definition fw_Close :: "file_writer \<Rightarrow> file_writer" where
  "fw_Close fw = fw_flush (fw\<lparr>fw_ticking := False\<rparr>)"

section \<open>The HTTP auditor\<close>

text \<open>\<open>Post\<close> is the client: the URL, the content type and the body. The answer's status is not looked
  at.\<close>

record http_writer =
  hw_url :: gostring

definition NewHTTPWriter :: "gostring \<Rightarrow> http_writer" where
  "NewHTTPWriter url = \<lparr>hw_url = url\<rparr>"

definition http_OnMetricsUpdate ::
    "(gostring \<Rightarrow> gostring \<Rightarrow> gostring \<Rightarrow> 'n \<Rightarrow> goerror option \<times> 'n)
      \<Rightarrow> int64 \<Rightarrow> gostring \<Rightarrow> metrics option list \<Rightarrow> http_writer \<times> 'n \<Rightarrow> goerror option outcome \<times> (http_writer \<times> 'n)" where
  "http_OnMetricsUpdate Post ts ipAddr ps = (\<lambda>(hw, n).
     case NewPayload ts ipAddr ps of
       Panic \<Rightarrow> (Panic, (hw, n))
     | Done payload \<Rightarrow>
         (case Post (hw_url hw) ''application/json'' (json_print (payload_json payload)) n of
            (Some err, n') \<Rightarrow> (Done (Some (Foreign (''failed to send metrics to audit service '' @ hw_url hw))), (hw, n'))
          | (None, n') \<Rightarrow> (Done None, (hw, n'))))"

section \<open>The auditors of the server\<close>

datatype 'n auditor = FileAuditor file_writer | HTTPAuditor http_writer 'n

definition audit_ops :: "(gostring \<Rightarrow> gostring \<Rightarrow> gostring \<Rightarrow> 'n \<Rightarrow> goerror option \<times> 'n) \<Rightarrow> 'n auditor auditor_ops" where
  "audit_ops Post = \<lparr>op_OnMetricsUpdate = (\<lambda>ts ip ps a.
     case a of
       FileAuditor fw \<Rightarrow> (case file_OnMetricsUpdate ts ip ps fw of (r, fw') \<Rightarrow> (r, FileAuditor fw'))
     | HTTPAuditor hw n \<Rightarrow> (case http_OnMetricsUpdate Post ts ip ps (hw, n) of (r, (hw', n')) \<Rightarrow> (r, HTTPAuditor hw' n')))\<rparr>"

section \<open>Lemmas\<close>

lemma payload_names_some [simp]: "payload_names (map Some ms) = Done (map m_ID ms)"
  by (induction ms) simp_all

lemma NewPayload_some [simp]:
  "NewPayload ts ip (map Some ms) = Done \<lparr>pa_Timestamp = ts, pa_MetricNames = map m_ID ms, pa_IPAddress = ip\<rparr>"
  by (simp add: NewPayload_def)

lemma auditors_total_audit [simp]: "auditors_total (audit_ops Post)"
  by (auto simp: auditors_total_def audit_ops_def file_OnMetricsUpdate_def http_OnMetricsUpdate_def
      split: auditor.split prod.split option.split)

text \<open>What a payload's line reads back as.\<close>

lemma payload_json_ok:
  assumes "list_all valid_utf8 (pa_MetricNames p)" and "valid_utf8 (pa_IPAddress p)"
  shows "parse_json (json_print (payload_json p)) = Some (payload_json p)"
proof (rule parse_json_print)
  have "valid_utf8 ''ts''" "valid_utf8 ''metrics''" "valid_utf8 ''ip_address''"
    by (rule valid_utf8_ascii; simp add: char_code_def)+
  then show "json_ok (payload_json p)"
    using assms by (simp add: payload_json_def number_ok_int list_all_iff)
  have "depths (map JStr names) = 0" for names by (induction names) simp_all
  then show "json_depth (payload_json p) \<le> max_nesting_depth" by (simp add: payload_json_def max_nesting_depth_def)
qed

text \<open>The audit trail of a writer: what is in the file and what is still in the buffer.\<close>

definition trail :: "file_writer \<Rightarrow> gostring" where
  "trail fw = fw_file fw @ concat (map payload_line (fw_buf fw))"

definition no_faults :: "file_writer \<Rightarrow> bool" where
  "no_faults fw \<longleftrightarrow> (\<forall>f \<in> set (fw_faults fw). f = None)"

lemma append_no_fault:
  assumes "no_faults fw"
  shows "fw_file (append_file chunk fw) = fw_file fw @ chunk" "no_faults (append_file chunk fw)"
    "fw_buf (append_file chunk fw) = fw_buf fw"
proof -
  have "fw_faults fw = [] \<or> (\<exists>rest. fw_faults fw = None # rest)"
    using assms by (cases "fw_faults fw") (auto simp: no_faults_def)
  then show "fw_file (append_file chunk fw) = fw_file fw @ chunk" "no_faults (append_file chunk fw)"
    "fw_buf (append_file chunk fw) = fw_buf fw"
    using assms by (auto simp: append_file_def no_faults_def)
qed

lemma trail_flush:
  assumes "no_faults fw"
  shows "trail (fw_flush fw) = trail fw" "no_faults (fw_flush fw)" "fw_buf (fw_flush fw) = []"
  using append_no_fault [OF assms, of "concat (map payload_line (fw_buf fw))"] assms
  by (auto simp: fw_flush_def trail_def no_faults_def)

text \<open>Updates, ticks and closing in any order.\<close>

datatype audit_step = Told int64 gostring "metrics list" | Ticked | Closed

fun audit_exec :: "audit_step \<Rightarrow> file_writer \<Rightarrow> file_writer" where
  "audit_exec (Told ts ip ms) fw = snd (file_OnMetricsUpdate ts ip (map Some ms) fw)"
| "audit_exec Ticked fw = writeBufferLoop fw"
| "audit_exec Closed fw = fw_Close fw"

fun told_lines :: "audit_step list \<Rightarrow> gostring" where
  "told_lines [] = []"
| "told_lines (Told ts ip ms # steps) =
     payload_line \<lparr>pa_Timestamp = ts, pa_MetricNames = map m_ID ms, pa_IPAddress = ip\<rparr> @ told_lines steps"
| "told_lines (_ # steps) = told_lines steps"

lemma trail_exec:
  assumes "no_faults fw"
  shows "no_faults (fold audit_exec steps fw) \<and> trail (fold audit_exec steps fw) = trail fw @ told_lines steps"
  using assms
proof (induction steps arbitrary: fw)
  case (Cons x xs)
  have "no_faults (audit_exec x fw) \<and> trail (audit_exec x fw) = trail fw @ told_lines [x]"
  proof (cases x)
    case (Told ts ip ms)
    then show ?thesis using Cons.prems by (simp add: file_OnMetricsUpdate_def trail_def no_faults_def)
  next
    case Ticked
    then show ?thesis using Cons.prems trail_flush [OF Cons.prems] by (simp add: writeBufferLoop_def)
  next
    case Closed
    have "no_faults (fw\<lparr>fw_ticking := False\<rparr>)" using Cons.prems by (simp add: no_faults_def)
    from trail_flush [OF this] show ?thesis using Closed by (simp add: fw_Close_def trail_def)
  qed
  then have x: "no_faults (audit_exec x fw)" "trail (audit_exec x fw) = trail fw @ told_lines [x]" by blast+
  have "told_lines (x # xs) = told_lines [x] @ told_lines xs" by (cases x) simp_all
  then show ?case using Cons.IH [OF x(1)] x(2) by simp
qed simp

section \<open>Properties of the audit\<close>

text \<open>The updates a service is asked for, one after the other, with the clock and the address of
  each; the accepted ones.\<close>

fun serve_updates ::
    "'s storage_ops \<Rightarrow> 'a auditor_ops \<Rightarrow> (int64 \<times> gostring \<times> metrics) list \<Rightarrow> ('s, 'a) metrics_service
      \<Rightarrow> audit_step list \<times> ('s, 'a) metrics_service" where
  "serve_updates ops aops [] srv = ([], srv)"
| "serve_updates ops aops ((ts, ip, m) # us) srv =
     (case AccumulateMetric ops aops ts m ip srv of
        (r, srv1) \<Rightarrow>
          (case serve_updates ops aops us srv1 of
             (accepted, srv2) \<Rightarrow> (if r = Done None then Told ts ip [m] # accepted else accepted, srv2)))"

lemma file_told:
  "snd (op_OnMetricsUpdate (audit_ops Post) ts ip [Some m] (FileAuditor fw)) =
     FileAuditor (snd (file_OnMetricsUpdate ts ip (map Some [m]) fw))"
  using NewPayload_some [of ts ip "[m]"] by (simp add: audit_ops_def file_OnMetricsUpdate_def)

lemma served_auditor:
  assumes "srv_auditors srv = [FileAuditor fw]" and "no_faults fw"
    and "serve_updates ops (audit_ops Post) us srv = (accepted, srv')"
  shows "\<exists>fw'. srv_auditors srv' = [FileAuditor fw'] \<and> no_faults fw' \<and> trail fw' = trail fw @ told_lines accepted"
  using assms
proof (induction us arbitrary: srv fw accepted)
  case (Cons u us)
  obtain ts ip m where u: "u = (ts, ip, m)" by (rule prod_cases3)
  obtain r srv1 where a: "AccumulateMetric ops (audit_ops Post) ts m ip srv = (r, srv1)" by fastforce
  obtain acc srv2 where s: "serve_updates ops (audit_ops Post) us srv1 = (acc, srv2)" by fastforce
  show ?case
  proof (cases "r = Done None")
    case True
    let ?fw = "audit_exec (Told ts ip [m]) fw"
    have "srv_auditors srv1 = [FileAuditor ?fw]"
      using accumulate_told [OF auditors_total_audit a] True Cons.prems(1) by (simp add: file_told)
    moreover have "no_faults ?fw \<and> trail ?fw = trail fw @ told_lines [Told ts ip [m]]"
      using trail_exec [OF Cons.prems(2), of "[Told ts ip [m]]"] by simp
    ultimately show ?thesis using Cons.IH [of srv1 ?fw acc] Cons.prems(3) True a s u by auto
  next
    case False
    then have "srv_auditors srv1 = [FileAuditor fw]"
      using accumulate_told [OF auditors_total_audit a] Cons.prems(1) by simp
    then show ?thesis using Cons.IH [of srv1 fw acc] Cons.prems(2,3) False a s u by auto
  qed
qed simp


definition test_writer :: "append_fault option list \<Rightarrow> file_writer" where
  "test_writer faults =
     \<lparr>fw_buf = [], fw_ticking = True, fw_filename = ''f'', fw_file = ''old'', fw_faults = faults\<rparr>"

lemma test_writer: "NewFileWriter ''f'' 30 ''old'' faults = Done (test_writer faults)"
  by (simp add: NewFileWriter_def test_writer_def ticker_panics_def seconds_def)


text \<open>An append that fails loses every event that was buffered: the buffer is emptied whether
  the file could be written or not, and nothing is retried.\<close>

theorem failed_append_loses_events:
  assumes "fw_faults fw = Some f # rest" and "fw_buf fw \<noteq> []"
  shows "fw_buf (fw_flush fw) = [] \<and>
    fw_file (fw_flush fw) = fw_file fw @ take (case f of OpenFails e \<Rightarrow> 0 | WriteFails e k \<Rightarrow> k) (concat (map payload_line (fw_buf fw)))"
  using assms by (cases f) (simp_all add: fw_flush_def append_file_def)

lemma failed_append_loses_events_witness:
  "\<exists>fw. fw_buf fw \<noteq> [] \<and> fw_buf (fw_flush fw) = [] \<and> fw_file (fw_flush fw) = fw_file fw"
proof -
  let ?fw = "(test_writer [Some (OpenFails (Foreign ''permission denied''))])
    \<lparr>fw_buf := [\<lparr>pa_Timestamp = 5, pa_MetricNames = [''a''], pa_IPAddress = ''ip''\<rparr>]\<rparr>"
  have "fw_faults ?fw = Some (OpenFails (Foreign ''permission denied'')) # []" "fw_buf ?fw \<noteq> []"
    by (simp_all add: test_writer_def)
  from failed_append_loses_events [OF this] this(2) show ?thesis by (intro exI [of _ ?fw]) simp
qed

end
