(* ===== verification/DBStorage.thy ===== *)
theory DBStorage
  imports Storage Retrying GoUtf8
begin

text \<open>
  \<open>internal/repository/dbstorage.go\<close>: the storage in a PostgreSQL table. The statements the code
  composes are translated to operations on the table \<open>metrics\<close> of the migrations; the
  connection is a parameter of the state: the schedule of the coming statements that fail, and
  whether a failed one took effect on the server all the same. Every statement runs under the
  retry executor. The lemmas: over a connection whose failed statements have no effect the
  storage keeps the storage contract; over one that reports the failure of a statement that
  took effect, a retried increment counts twice; a counter beyond 64 bits is stored but can
  no longer be read.
\<close>

section \<open>The server\<close>

record pg_row =
  pr_mtype :: gostring
  pr_delta :: "int option"
  pr_value :: "float64 option"

type_synonym pg_table = "pg_row dict"

text \<open>The keys of \<open>pg_rows\<close> are the column \<open>id\<close>. \<open>pg_collate\<close> maps a text to the key the
  collation of the database sorts it by.\<close>

record pg_db =
  pg_rows :: pg_table
  pg_faults :: "(goerror \<times> bool) option list"
  pg_collate :: "gostring \<Rightarrow> gostring"
  pg_closed :: bool

type_synonym 'r statement = "pg_table \<Rightarrow> (goerror \<times> pg_table) + ('r \<times> pg_table)"

definition pg_exec :: "'r statement \<Rightarrow> pg_db \<Rightarrow> (goerror + 'r) \<times> pg_db" where
  "pg_exec stmt db =
     (if pg_closed db then (Inl (Foreign ''closed pool''), db)
      else case pg_faults db of
        Some (err, applied) # rest \<Rightarrow>
          (Inl err, db\<lparr>pg_faults := rest,
             pg_rows := (if applied then (case stmt (pg_rows db) of Inl (e, t) \<Rightarrow> t | Inr (r, t) \<Rightarrow> t) else pg_rows db)\<rparr>)
      | _ \<Rightarrow>
          (case stmt (pg_rows db) of
             Inl (e, t) \<Rightarrow> (Inl e, db\<lparr>pg_faults := tl (pg_faults db), pg_rows := t\<rparr>)
           | Inr (r, t) \<Rightarrow> (Inr r, db\<lparr>pg_faults := tl (pg_faults db), pg_rows := t\<rparr>)))"

text \<open>A value of type TEXT is valid UTF-8 without the NUL character.\<close>

definition pg_text :: "gostring \<Rightarrow> bool" where
  "pg_text s \<longleftrightarrow> valid_utf8 s \<and> CHR 0x00 \<notin> set s"

definition bad_text :: goerror where
  "bad_text = PgError ''22021'' ''ERROR: invalid byte sequence for encoding (SQLSTATE 22021)''"

text \<open>VARCHAR(10): at most 10 characters; a longer value is cut when only blanks are lost.\<close>

fun take_runes :: "nat \<Rightarrow> gostring \<Rightarrow> gostring \<times> gostring" where
  "take_runes n [] = ([], [])"
| "take_runes n (c # s) =
     (if is_cont (char_code c) then (case take_runes n s of (a, b) \<Rightarrow> (c # a, b))
      else (case n of
              0 \<Rightarrow> ([], c # s)
            | Suc k \<Rightarrow> (case take_runes k s of (a, b) \<Rightarrow> (c # a, b))))"

definition varchar10 :: "gostring \<Rightarrow> goerror + gostring" where
  "varchar10 s =
     (if \<not> pg_text s then Inl bad_text
      else case take_runes 10 s of
        (a, b) \<Rightarrow> if list_all (\<lambda>c. c = CHR '' '') b then Inr a
                   else Inl (PgError ''22001'' ''ERROR: value too long for type character varying(10) (SQLSTATE 22001)''))"

definition coalesce0 :: "int option \<Rightarrow> int" where
  "coalesce0 d = (case d of None \<Rightarrow> 0 | Some x \<Rightarrow> x)"

section \<open>The statements\<close>

text \<open>\<open>INSERT INTO metrics (id, mtype, value) VALUES (..) ON CONFLICT (id) DO UPDATE
  SET value = EXCLUDED.value WHERE metrics.mtype = 'gauge'\<close>: the number of rows affected.\<close>

definition upsert_gauge :: "gostring \<Rightarrow> float64 \<Rightarrow> nat statement" where
  "upsert_gauge i v t =
     (if \<not> pg_text i then Inl (bad_text, t)
      else case dict_get t i of
        None \<Rightarrow> Inr (1, dict_put t i \<lparr>pr_mtype = Gauge, pr_delta = None, pr_value = Some v\<rparr>)
      | Some row \<Rightarrow>
          if pr_mtype row = Gauge then Inr (1, dict_put t i (row\<lparr>pr_value := Some v\<rparr>)) else Inr (0, t))"

text \<open>\<open>.. SET delta = COALESCE(metrics.delta, 0) + EXCLUDED.delta WHERE metrics.mtype = 'counter'\<close>;
  the column is DECIMAL and does not wrap.\<close>

definition upsert_counter :: "gostring \<Rightarrow> int64 \<Rightarrow> nat statement" where
  "upsert_counter i d t =
     (if \<not> pg_text i then Inl (bad_text, t)
      else case dict_get t i of
        None \<Rightarrow> Inr (1, dict_put t i \<lparr>pr_mtype = Counter, pr_delta = Some (sint d), pr_value = None\<rparr>)
      | Some row \<Rightarrow>
          if pr_mtype row = Counter
          then Inr (1, dict_put t i (row\<lparr>pr_delta := Some (coalesce0 (pr_delta row) + sint d)\<rparr>)) else Inr (0, t))"

text \<open>The statement of \<open>batchSet\<close>: it overwrites the type and the value, and a NULL delta makes
  the sum NULL.\<close>

definition upsert_metric :: "metrics \<Rightarrow> unit statement" where
  "upsert_metric m t =
     (if \<not> pg_text (m_ID m) then Inl (bad_text, t)
      else case varchar10 (m_MType m) of
        Inl e \<Rightarrow> Inl (e, t)
      | Inr mtype \<Rightarrow>
          (case dict_get t (m_ID m) of
             None \<Rightarrow>
               Inr ((), dict_put t (m_ID m)
                 \<lparr>pr_mtype = mtype, pr_delta = map_option sint (m_Delta m), pr_value = m_Value m\<rparr>)
           | Some row \<Rightarrow>
               Inr ((), dict_put t (m_ID m)
                 \<lparr>pr_mtype = mtype, pr_delta = map_option (\<lambda>d. coalesce0 (pr_delta row) + sint d) (m_Delta m),
                  pr_value = m_Value m\<rparr>)))"

definition select_row :: "gostring \<Rightarrow> pg_row option statement" where
  "select_row i t = (if \<not> pg_text i then Inl (bad_text, t) else Inr (dict_get t i, t))"

definition select_all :: "(gostring \<times> pg_row) list statement" where
  "select_all t = Inr (t, t)"

definition truncate_metrics :: "unit statement" where
  "truncate_metrics t = Inr ((), [])"

section \<open>The storage\<close>

record pg_storage =
  pgs_conn :: pg_db
  pgs_retrier :: executor

fun pg_code :: "goerror \<Rightarrow> gostring option" where
  "pg_code (PgError code t) = Some code"
| "pg_code (Wrapped t e) = pg_code e"
| "pg_code _ = None"

definition isPgErrorRetryable :: "goerror \<Rightarrow> bool" where
  "isPgErrorRetryable err =
     (case pg_code err of None \<Rightarrow> False | Some code \<Rightarrow> code \<in> {''08000'', ''08003'', ''08006''})"

definition NewPostgresDBStorage :: "pg_db \<Rightarrow> policy \<Rightarrow> pg_storage" where
  "NewPostgresDBStorage conn retryPolicy =
     \<lparr>pgs_conn = conn, pgs_retrier = WithRetryablePredicate isPgErrorRetryable (NewExecutorBuilder retryPolicy)\<rparr>"

text \<open>A statement under the executor, with the prefix its error is wrapped in; \<open>scan\<close> is what
  the closure does with the rows. The result is a captured variable.\<close>

definition run_statement ::
    "gostring \<Rightarrow> 'r statement \<Rightarrow> ('r \<Rightarrow> goerror + 'x) \<Rightarrow> pg_storage \<Rightarrow> (goerror + 'x) \<times> pg_storage" where
  "run_statement prefix stmt scan pgs =
     (case Run (pgs_retrier pgs)
         (\<lambda>(res, db). case pg_exec stmt db of
            (Inl err, db') \<Rightarrow> (Some (errorf prefix err []), (res, db'))
          | (Inr r, db') \<Rightarrow>
              (case scan r of Inl err \<Rightarrow> (Some err, (res, db')) | Inr x \<Rightarrow> (None, (Some x, db'))))
         (None, pgs_conn pgs) of
        (Some err, slept, (res, db)) \<Rightarrow> (Inl err, pgs\<lparr>pgs_conn := db\<rparr>)
      | (None, slept, (res, db)) \<Rightarrow> (Inr (the res), pgs\<lparr>pgs_conn := db\<rparr>))"

definition pg_SetGauge :: "gostring \<Rightarrow> float64 \<Rightarrow> pg_storage \<Rightarrow> goerror option \<times> pg_storage" where
  "pg_SetGauge i v pgs =
     (case run_statement ''failed to execute set gauge query: '' (upsert_gauge i v) Inr pgs of
        (Inl err, pgs') \<Rightarrow> (Some err, pgs')
      | (Inr affected, pgs') \<Rightarrow> (if affected = 0 then Some (Sentinel ErrIncorrectAccess) else None, pgs'))"

definition pg_AddCounter :: "gostring \<Rightarrow> int64 \<Rightarrow> pg_storage \<Rightarrow> goerror option \<times> pg_storage" where
  "pg_AddCounter i d pgs =
     (case run_statement ''failed to execute add counter query: '' (upsert_counter i d) Inr pgs of
        (Inl err, pgs') \<Rightarrow> (Some err, pgs')
      | (Inr affected, pgs') \<Rightarrow> (if affected = 0 then Some (Sentinel ErrIncorrectAccess) else None, pgs'))"

text \<open>\<open>Scan\<close> of a DECIMAL into an \<open>*int64\<close> fails outside the 64-bit range.\<close>

definition scan_delta :: "int option \<Rightarrow> goerror + int64 option" where
  "scan_delta d =
     (case d of
        None \<Rightarrow> Inr None
      | Some x \<Rightarrow>
          if - (2 ^ 63) \<le> x \<and> x < 2 ^ 63 then Inr (Some (word_of_int x))
          else Inl (Foreign ''can't scan into dest: value is greater than maximum value for int64''))"

definition scan_metric :: "gostring \<Rightarrow> gostring \<Rightarrow> pg_row \<Rightarrow> goerror + metrics" where
  "scan_metric prefix i row =
     (case scan_delta (pr_delta row) of
        Inl err \<Rightarrow> Inl (errorf prefix err [])
      | Inr delta \<Rightarrow> Inr (NewMetrics i (pr_mtype row) delta (pr_value row)))"

definition pg_GetByID :: "gostring \<Rightarrow> pg_storage \<Rightarrow> (goerror + metrics) \<times> pg_storage" where
  "pg_GetByID i pgs =
     run_statement ''failed to extract metric from DB row: '' (select_row i)
       (\<lambda>row. case row of
          None \<Rightarrow> Inl (Sentinel ErrMetricNotFound)
        | Some row \<Rightarrow> scan_metric ''failed to extract metric from DB row: '' i row) pgs"

fun scan_metrics :: "(gostring \<times> pg_row) list \<Rightarrow> goerror + metrics list" where
  "scan_metrics [] = Inr []"
| "scan_metrics ((i, row) # rows) =
     (case scan_metric ''failed to extract metrics from DB row: '' i row of
        Inl err \<Rightarrow> Inl err
      | Inr m \<Rightarrow> (case scan_metrics rows of Inl err \<Rightarrow> Inl err | Inr ms \<Rightarrow> Inr (m # ms)))"

text \<open>\<open>ORDER BY id ASC\<close> sorts by the collation.\<close>

definition pg_GetAllSorted :: "pg_storage \<Rightarrow> (goerror + metrics list) \<times> pg_storage" where
  "pg_GetAllSorted pgs =
     run_statement ''failed to execute get all metrics query: '' select_all
       (\<lambda>rows. scan_metrics (sort_key (\<lambda>(i, row). pg_collate (pgs_conn pgs) i) rows)) pgs"

text \<open>The types of the table are read, then the batch is compared with them; a nil element is
  dereferenced.\<close>

fun batch_mismatch :: "pg_table \<Rightarrow> metrics option list \<Rightarrow> goerror option outcome" where
  "batch_mismatch mtypes [] = Done None"
| "batch_mismatch mtypes (None # rest) = Panic"
| "batch_mismatch mtypes (Some m # rest) =
     (case dict_get mtypes (m_ID m) of
        Some row \<Rightarrow>
          if m_MType m \<noteq> pr_mtype row then
            Done (Some (errorf [] (Sentinel ErrIncorrectAccess)
              ('': for metric id='' @ m_ID m @ '' expected='' @ pr_mtype row @ '', actual='' @ m_MType m)))
          else batch_mismatch mtypes rest
      | None \<Rightarrow> batch_mismatch mtypes rest)"

definition batchValidate :: "metrics option list \<Rightarrow> pg_db \<Rightarrow> goerror option outcome \<times> pg_db" where
  "batchValidate ps db =
     (case pg_exec select_all db of
        (Inl err, db') \<Rightarrow> (Done (Some (errorf ''failed to get metric types: '' err [])), db')
      | (Inr rows, db') \<Rightarrow> (batch_mismatch rows ps, db'))"

text \<open>The statements of the transaction, each on what the ones before it have left.\<close>

fun tx_sets :: "metrics option list \<Rightarrow> pg_db \<Rightarrow> goerror option outcome \<times> pg_db" where
  "tx_sets [] db = (Done None, db)"
| "tx_sets (None # rest) db = (Panic, db)"
| "tx_sets (Some m # rest) db =
     (case pg_exec (upsert_metric m) db of
        (Inl err, db') \<Rightarrow> (Done (Some (errorf ''failed to set metrics: '' err [])), db')
      | (Inr _, db') \<Rightarrow> tx_sets rest db')"

text \<open>An error or a panic rolls the transaction back; \<open>COMMIT\<close> is a statement of its own.\<close>

definition batchSet :: "metrics option list \<Rightarrow> pg_db \<Rightarrow> goerror option outcome \<times> pg_db" where
  "batchSet ps db =
     (case pg_exec (\<lambda>t. Inr ((), t)) db of
        (Inl err, db1) \<Rightarrow> (Done (Some (errorf ''failed to initialize DB transaction: '' err [])), db1)
      | (Inr _, db1) \<Rightarrow>
          (case tx_sets ps db1 of
             (Done None, db2) \<Rightarrow>
               (case pg_exec (\<lambda>t. Inr ((), pg_rows db2)) (db2\<lparr>pg_rows := pg_rows db1\<rparr>) of
                  (Inl err, db3) \<Rightarrow> (Done (Some err), db3)
                | (Inr _, db3) \<Rightarrow> (Done None, db3))
           | (r, db2) \<Rightarrow> (r, db2\<lparr>pg_rows := pg_rows db1\<rparr>)))"

text \<open>A closure that may panic under the executor: the panic leaves \<open>Run\<close> at once.\<close>

definition run_closure ::
    "(pg_db \<Rightarrow> goerror option outcome \<times> pg_db) \<Rightarrow> pg_storage \<Rightarrow> goerror option outcome \<times> pg_storage" where
  "run_closure f pgs =
     (case Run (pgs_retrier pgs)
         (\<lambda>(panicked, db). case f db of
            (Panic, db') \<Rightarrow> (None, (True, db'))
          | (Done r, db') \<Rightarrow> (r, (panicked, db')))
         (False, pgs_conn pgs) of
        (r, slept, (panicked, db)) \<Rightarrow> (if panicked then Panic else Done r, pgs\<lparr>pgs_conn := db\<rparr>))"

definition pg_BatchUpdate :: "metrics option list \<Rightarrow> pg_storage \<Rightarrow> goerror option outcome \<times> pg_storage" where
  "pg_BatchUpdate ps pgs =
     (case run_closure (batchValidate ps) pgs of
        (Panic, pgs') \<Rightarrow> (Panic, pgs')
      | (Done (Some err), pgs') \<Rightarrow> (Done (Some err), pgs')
      | (Done None, pgs') \<Rightarrow> run_closure (batchSet ps) pgs')"

definition pg_SetAll :: "metrics option list \<Rightarrow> pg_storage \<Rightarrow> goerror option outcome \<times> pg_storage" where
  "pg_SetAll ps pgs = pg_BatchUpdate ps pgs"

definition pg_ResetAll :: "pg_storage \<Rightarrow> goerror option \<times> pg_storage" where
  "pg_ResetAll pgs =
     (case run_statement ''failed to truncate all metrics table: '' truncate_metrics Inr pgs of
        (Inl err, pgs') \<Rightarrow> (Some err, pgs')
      | (Inr _, pgs') \<Rightarrow> (None, pgs'))"

definition pg_Close :: "pg_storage \<Rightarrow> goerror option \<times> pg_storage" where
  "pg_Close pgs = (None, pgs\<lparr>pgs_conn := (pgs_conn pgs)\<lparr>pg_closed := True\<rparr>\<rparr>)"

definition pg_Ping :: "pg_storage \<Rightarrow> goerror option \<times> pg_storage" where
  "pg_Ping pgs =
     (case pg_exec (\<lambda>t. Inr ((), t)) (pgs_conn pgs) of
        (Inl err, db) \<Rightarrow> (Some err, pgs\<lparr>pgs_conn := db\<rparr>)
      | (Inr _, db) \<Rightarrow> (None, pgs\<lparr>pgs_conn := db\<rparr>))"

definition pg_ops :: "pg_storage storage_ops" where
  "pg_ops = \<lparr>
     op_SetGauge = pg_SetGauge, op_AddCounter = pg_AddCounter, op_GetByID = pg_GetByID,
     op_BatchUpdate = pg_BatchUpdate, op_GetAllSorted = pg_GetAllSorted, op_SetAll = pg_SetAll,
     op_ResetAll = pg_ResetAll, op_Ping = pg_Ping, op_Close = pg_Close\<rparr>"

section \<open>Reasoning about retried statements\<close>

text \<open>A rule for \<open>Run\<close>: what every failing call keeps, and what a successful call then gives.\<close>

lemma retry_loop_rule:
  assumes "\<And>s r s'. I s \<Longrightarrow> f s = (r, s') \<Longrightarrow> (case r of None \<Rightarrow> Q s' | Some e \<Rightarrow> I s' \<and> E e)"
    and "I s" and "E err" and "retry_loop ex f attempt delay err s = (r, ds, s')"
  shows "case r of None \<Rightarrow> Q s' | Some e \<Rightarrow> I s' \<and> E e"
  using assms
proof (induction ex f attempt delay err s arbitrary: r ds s' rule: retry_loop.induct)
  case (1 ex f attempt delay err s)
  obtain q u where q: "f s = (q, u)" by fastforce
  note step = 1(2) [OF 1(3) q]
  show ?case
  proof (cases "attempt <s op_MaxAttempts (ex_policy ex)")
    case False
    then show ?thesis using 1(3-5) by (subst (asm) retry_loop.simps) auto
  next
    case True
    show ?thesis
    proof (cases "\<exists>e. q = Some e \<and> ex_isRetryablePredicate ex e")
      case False
      then show ?thesis using 1(5) True q step by (subst (asm) retry_loop.simps) (auto split: option.splits)
    next
      case goes: True
      then obtain e where e: "q = Some e" "ex_isRetryablePredicate ex e" by blast
      obtain r2 d2 s2 where l: "retry_loop ex f (attempt + 1) (op_NextDelay (ex_policy ex) delay) e u = (r2, d2, s2)"
        by (metis prod_cases3)
      have eq: "r2 = r" "s2 = s'" using 1(5) True q e l by (subst (asm) retry_loop.simps, simp)+
      have "I u" "E e" using step e by simp_all
      have "\<not> \<not> ex_isRetryablePredicate ex e" using e(2) by simp
      then have "case r2 of None \<Rightarrow> Q s2 | Some e \<Rightarrow> I s2 \<and> E e"
        by (rule 1(1) [OF True q [symmetric] e(1) _ 1(2) \<open>I u\<close> \<open>E e\<close> l])
      then show ?thesis unfolding eq .
    qed
  qed
qed

lemma Run_rule:
  assumes "\<And>s r s'. I s \<Longrightarrow> f s = (r, s') \<Longrightarrow> (case r of None \<Rightarrow> Q s' | Some e \<Rightarrow> I s' \<and> E e)"
    and "I s" and "Run ex f s = (r, ds, s')"
  shows "case r of None \<Rightarrow> Q s' | Some e \<Rightarrow> I s' \<and> E e"
proof -
  obtain q u where q: "f s = (q, u)" by fastforce
  note step = assms(1) [OF assms(2) q]
  show ?thesis
  proof (cases "\<exists>e. q = Some e \<and> ex_isRetryablePredicate ex e")
    case False
    then show ?thesis using assms(3) q step by (auto simp: Run_def split: option.splits if_splits)
  next
    case True
    then obtain e where e: "q = Some e" "ex_isRetryablePredicate ex e" by blast
    then have l: "retry_loop ex f 0 (op_NextDelay (ex_policy ex) 0) e u = (r, ds, s')"
      using assms(3) q by (simp add: Run_def)
    have "I u" "E e" using step e by simp_all
    from retry_loop_rule [where I = I and E = E and Q = Q, OF assms(1) this l] show ?thesis by simp
  qed
qed

text \<open>A connection on which a failed statement has no effect, and whose errors are not mistaken for
  errors of the repository.\<close>

definition clean_faults :: "(goerror \<times> bool) option list \<Rightarrow> bool" where
  "clean_faults fs \<longleftrightarrow>
     list_all (\<lambda>q. case q of None \<Rightarrow> True | Some (e, applied) \<Rightarrow> \<not> applied \<and> (\<forall>s. \<not> errors_is e s)) fs"

lemma clean_faults_simps [simp]:
  "clean_faults []" "clean_faults (None # fs) = clean_faults fs"
  "clean_faults (Some (e, applied) # fs) \<longleftrightarrow> \<not> applied \<and> (\<forall>s. \<not> errors_is e s) \<and> clean_faults fs"
  by (auto simp: clean_faults_def)

text \<open>Only the schedule differs.\<close>

definition same_server :: "pg_db \<Rightarrow> pg_db \<Rightarrow> bool" where
  "same_server db db' \<longleftrightarrow> pg_collate db' = pg_collate db \<and> pg_closed db' = pg_closed db \<and>
     (clean_faults (pg_faults db) \<longrightarrow> clean_faults (pg_faults db'))"

lemma same_server_refl [simp]: "same_server db db"
  by (simp add: same_server_def)

lemma same_server_trans: "same_server a b \<Longrightarrow> same_server b c \<Longrightarrow> same_server a c"
  by (simp add: same_server_def)

text \<open>A statement that keeps the table when it fails.\<close>

definition atomic :: "'r statement \<Rightarrow> bool" where
  "atomic stmt \<longleftrightarrow> (\<forall>t e t'. stmt t = Inl (e, t') \<longrightarrow> t' = t \<and> (\<forall>s. \<not> errors_is e s))"

lemma pg_exec_cases:
  assumes "pg_exec stmt db = (r, db')" and "atomic stmt" and "clean_faults (pg_faults db)"
  shows "same_server db db'"
    "case r of Inl e \<Rightarrow> pg_rows db' = pg_rows db \<and> (\<forall>s. \<not> errors_is e s) | Inr x \<Rightarrow> stmt (pg_rows db) = Inr (x, pg_rows db')"
proof -
  show "same_server db db'"
    using assms(1) by (auto simp: pg_exec_def same_server_def split: if_splits list.splits option.splits sum.splits)
  show "case r of Inl e \<Rightarrow> pg_rows db' = pg_rows db \<and> (\<forall>s. \<not> errors_is e s) | Inr x \<Rightarrow> stmt (pg_rows db) = Inr (x, pg_rows db')"
    using assms by (auto simp: pg_exec_def atomic_def split: if_splits list.splits option.splits sum.splits)
qed

lemma run_statement_cases:
  fixes scan :: "'r \<Rightarrow> goerror + 'x"
  assumes "run_statement prefix stmt scan pgs = (r, pgs')" and "atomic stmt" and "clean_faults (pg_faults (pgs_conn pgs))"
    and "\<And>x t'. stmt (pg_rows (pgs_conn pgs)) = Inr (x, t') \<Longrightarrow> \<exists>e. scan x = Inl e \<Longrightarrow> t' = pg_rows (pgs_conn pgs)"
  shows "same_server (pgs_conn pgs) (pgs_conn pgs')" "pgs_retrier pgs' = pgs_retrier pgs"
    "case r of
       Inl e \<Rightarrow> pg_rows (pgs_conn pgs') = pg_rows (pgs_conn pgs) \<and>
         ((\<forall>s. \<not> errors_is e s) \<or> (\<exists>x t'. stmt (pg_rows (pgs_conn pgs)) = Inr (x, t') \<and> scan x = Inl e))
     | Inr y \<Rightarrow> \<exists>x. stmt (pg_rows (pgs_conn pgs)) = Inr (x, pg_rows (pgs_conn pgs')) \<and> scan x = Inr y"
proof -
  let ?db = "pgs_conn pgs"
  let ?f = "\<lambda>(res, db). case pg_exec stmt db of
      (Inl err, db') \<Rightarrow> (Some (errorf prefix err []), (res, db'))
    | (Inr r, db') \<Rightarrow> (case scan r of Inl err \<Rightarrow> (Some err, (res, db')) | Inr x \<Rightarrow> (None, (Some x, db')))"
  let ?I = "\<lambda>(res :: 'x option, db). same_server ?db db \<and> pg_rows db = pg_rows ?db"
  let ?Q = "\<lambda>(res, db). same_server ?db db \<and>
      (\<exists>x y. stmt (pg_rows ?db) = Inr (x, pg_rows db) \<and> scan x = Inr y \<and> res = Some y)"
  let ?E = "\<lambda>e. (\<forall>s. \<not> errors_is e s) \<or> (\<exists>x t'. stmt (pg_rows ?db) = Inr (x, t') \<and> scan x = Inl e)"
  have step: "case q of None \<Rightarrow> ?Q s' | Some e \<Rightarrow> ?I s' \<and> ?E e" if I: "?I s" and f: "?f s = (q, s')" for s q s'
  proof -
    obtain res db where s: "s = (res, db)" by fastforce
    obtain x db' where x: "pg_exec stmt db = (x, db')" by fastforce
    have c: "clean_faults (pg_faults db)" using I s assms(3) by (simp add: same_server_def)
    note p = pg_exec_cases [OF x assms(2) c]
    have ss: "same_server ?db db'" using same_server_trans [OF _ p(1)] I s by simp
    show ?thesis
    proof (cases x)
      case (Inl e)
      then have q: "q = Some (errorf prefix e [])" "s' = (res, db')" using f s x by simp_all
      then show ?thesis using Inl p(2) I s ss by simp
    next
      case (Inr y)
      then have st: "stmt (pg_rows ?db) = Inr (y, pg_rows db')" using p(2) I s by simp
      show ?thesis
      proof (cases "scan y")
        case (Inl e)
        then have "q = Some e" "s' = (res, db')" using f s x Inr by simp_all
        moreover have "pg_rows db' = pg_rows ?db" using assms(4) [OF st] Inl by blast
        ultimately show ?thesis using st Inl ss by auto
      next
        case (Inr z)
        then have "q = None" "s' = (Some z, db')" using f s x \<open>x = Inr y\<close> by simp_all
        then show ?thesis using st Inr ss by auto
      qed
    qed
  qed
  obtain q ds res db where run: "Run (pgs_retrier pgs) ?f (None, ?db) = (q, ds, (res, db))" by (rule prod_cases4)
  have a: "case q of None \<Rightarrow> ?Q (res, db) | Some e \<Rightarrow> ?I (res, db) \<and> ?E e"
    by (rule Run_rule [where I = ?I and E = ?E and Q = ?Q, OF step _ run]) simp_all
  have r: "run_statement prefix stmt scan pgs =
      (case q of None \<Rightarrow> (Inr (the res), pgs\<lparr>pgs_conn := db\<rparr>) | Some e \<Rightarrow> (Inl e, pgs\<lparr>pgs_conn := db\<rparr>))"
    unfolding run_statement_def run by (simp split: option.split)
  have p: "pgs' = pgs\<lparr>pgs_conn := db\<rparr>" "r = (case q of None \<Rightarrow> Inr (the res) | Some e \<Rightarrow> Inl e)"
    using assms(1) unfolding r by (cases q; simp)+
  have c: "pgs_conn pgs' = db" using p(1) by simp
  show "same_server (pgs_conn pgs) (pgs_conn pgs')" using a unfolding c by (cases q) simp_all
  show "pgs_retrier pgs' = pgs_retrier pgs" using p(1) by simp
  show "case r of
       Inl e \<Rightarrow> pg_rows (pgs_conn pgs') = pg_rows (pgs_conn pgs) \<and>
         ((\<forall>s. \<not> errors_is e s) \<or> (\<exists>x t'. stmt (pg_rows (pgs_conn pgs)) = Inr (x, t') \<and> scan x = Inl e))
     | Inr y \<Rightarrow> \<exists>x. stmt (pg_rows (pgs_conn pgs)) = Inr (x, pg_rows (pgs_conn pgs')) \<and> scan x = Inr y"
  proof (cases q)
    case None
    then obtain x y where "stmt (pg_rows ?db) = Inr (x, pg_rows db)" "scan x = Inr y" "res = Some y" using a by auto
    then show ?thesis using None c p(2) by auto
  next
    case (Some e)
    then show ?thesis using a c p(2) by simp
  qed
qed

lemma run_closure_cases:
  assumes "run_closure f pgs = (r, pgs')"
    and step: "\<And>db q db'. same_server (pgs_conn pgs) db \<Longrightarrow> pg_rows db = pg_rows (pgs_conn pgs) \<Longrightarrow> f db = (q, db') \<Longrightarrow>
        same_server db db' \<and>
        (case q of
           Done None \<Rightarrow> Q (pg_rows db')
         | Done (Some e) \<Rightarrow> pg_rows db' = pg_rows db \<and> E e
         | Panic \<Rightarrow> P \<and> pg_rows db' = pg_rows db)"
  shows "same_server (pgs_conn pgs) (pgs_conn pgs')" "pgs_retrier pgs' = pgs_retrier pgs"
    "case r of
       Done None \<Rightarrow> Q (pg_rows (pgs_conn pgs'))
     | Done (Some e) \<Rightarrow> pg_rows (pgs_conn pgs') = pg_rows (pgs_conn pgs) \<and> E e
     | Panic \<Rightarrow> P \<and> pg_rows (pgs_conn pgs') = pg_rows (pgs_conn pgs)"
proof -
  let ?db = "pgs_conn pgs"
  let ?f = "\<lambda>(panicked, db). case f db of (Panic, db') \<Rightarrow> (None, (True, db')) | (Done r, db') \<Rightarrow> (r, (panicked, db'))"
  let ?I = "\<lambda>(panicked, db). \<not> panicked \<and> same_server ?db db \<and> pg_rows db = pg_rows ?db"
  let ?Q = "\<lambda>(panicked, db). same_server ?db db \<and> (if panicked then P \<and> pg_rows db = pg_rows ?db else Q (pg_rows db))"
  have st: "case q of None \<Rightarrow> ?Q s' | Some e \<Rightarrow> ?I s' \<and> E e" if I: "?I s" and f: "?f s = (q, s')" for s q s'
  proof -
    obtain b db where s: "s = (b, db)" by fastforce
    obtain x db' where x: "f db = (x, db')" by fastforce
    have i: "same_server ?db db" "pg_rows db = pg_rows ?db" "\<not> b" using I s by simp_all
    note p = step [OF i(1,2) x]
    have ss: "same_server ?db db'" using same_server_trans [OF i(1)] p by blast
    show ?thesis
    proof (cases x)
      case (Done y)
      then show ?thesis using f s x p i ss by (cases y) auto
    next
      case Panic
      then show ?thesis using f s x p i ss by auto
    qed
  qed
  obtain q ds b db where run: "Run (pgs_retrier pgs) ?f (False, ?db) = (q, ds, (b, db))" by (rule prod_cases4)
  have a: "case q of None \<Rightarrow> ?Q (b, db) | Some e \<Rightarrow> ?I (b, db) \<and> E e"
    by (rule Run_rule [where I = ?I and E = E and Q = ?Q, OF st _ run]) simp_all
  have "run_closure f pgs = (if b then Panic else Done q, pgs\<lparr>pgs_conn := db\<rparr>)"
    unfolding run_closure_def run by simp
  then have p: "r = (if b then Panic else Done q)" "pgs' = pgs\<lparr>pgs_conn := db\<rparr>" using assms(1) by simp_all
  show "same_server (pgs_conn pgs) (pgs_conn pgs')" "pgs_retrier pgs' = pgs_retrier pgs"
    using a p(2) by (cases q; simp)+
  show "case r of
       Done None \<Rightarrow> Q (pg_rows (pgs_conn pgs'))
     | Done (Some e) \<Rightarrow> pg_rows (pgs_conn pgs') = pg_rows (pgs_conn pgs) \<and> E e
     | Panic \<Rightarrow> P \<and> pg_rows (pgs_conn pgs') = pg_rows (pgs_conn pgs)"
    using a p by (cases q; cases b) simp_all
qed

section \<open>Invariant and abstraction\<close>

definition row_typed :: "pg_row \<Rightarrow> bool" where
  "row_typed row \<longleftrightarrow> (pr_mtype row = Counter \<longrightarrow> pr_value row = None) \<and> (pr_mtype row = Gauge \<longrightarrow> pr_delta row = None)"

definition table_ok :: "pg_table \<Rightarrow> bool" where
  "table_ok t \<longleftrightarrow> dict_ok t \<and> (\<forall>i row. dict_get t i = Some row \<longrightarrow> row_typed row)"

definition row_metric :: "gostring \<Rightarrow> pg_row \<Rightarrow> metrics" where
  "row_metric i row = NewMetrics i (pr_mtype row) (map_option word_of_int (pr_delta row)) (pr_value row)"

definition table_view :: "pg_table \<Rightarrow> view" where
  "table_view t i = map_option (row_metric i) (dict_get t i)"

text \<open>The invariant speaks of the connection too: a failed statement has no effect, and texts are
  sorted bytewise (the collation \<open>C\<close>).\<close>

definition pg_ok :: "pg_storage \<Rightarrow> bool" where
  "pg_ok pgs \<longleftrightarrow> table_ok (pg_rows (pgs_conn pgs)) \<and> clean_faults (pg_faults (pgs_conn pgs)) \<and> pg_collate (pgs_conn pgs) = id"

definition pg_view :: "pg_storage \<Rightarrow> view" where
  "pg_view pgs = table_view (pg_rows (pgs_conn pgs))"

lemma table_view_put [simp]: "table_view (dict_put t i row) = (table_view t)(i \<mapsto> row_metric i row)"
  by (auto simp: table_view_def fun_eq_iff)

lemma table_ok_put: "table_ok t \<Longrightarrow> row_typed row \<Longrightarrow> table_ok (dict_put t i row)"
  by (auto simp: table_ok_def split: if_splits)

lemma row_metric_fields [simp]:
  "m_ID (row_metric i row) = i" "m_MType (row_metric i row) = pr_mtype row" "hash_ok (row_metric i row)"
  "m_Value (row_metric i row) = pr_value row" "m_Delta (row_metric i row) = map_option word_of_int (pr_delta row)"
  by (simp_all add: row_metric_def)

lemma type_free_table: "type_free t i (table_view tb) \<longleftrightarrow> (case dict_get tb i of None \<Rightarrow> True | Some row \<Rightarrow> pr_mtype row = t)"
  by (simp add: type_free_def table_view_def split: option.split)

lemma bad_text_not [simp]: "\<not> errors_is bad_text s"
  by (simp add: bad_text_def)

lemma varchar10_not: "varchar10 s = Inl e \<Longrightarrow> \<not> errors_is e x"
  by (auto simp: varchar10_def split: if_splits prod.splits)

lemma atomic_statements [simp]:
  "atomic (upsert_gauge i v)" "atomic (upsert_counter i d)" "atomic (upsert_metric m)" "atomic (select_row i)"
  "atomic select_all" "atomic truncate_metrics" "atomic (\<lambda>t. Inr (x, u t))"
  by (auto simp: atomic_def upsert_gauge_def upsert_counter_def upsert_metric_def select_row_def select_all_def
      truncate_metrics_def varchar10_not split: if_splits option.splits sum.splits)

lemma upsert_gauge_view:
  assumes "upsert_gauge i v t = Inr (n, t')"
  shows "if n = 0 then t' = t \<and> \<not> type_free Gauge i (table_view t)
    else type_free Gauge i (table_view t) \<and> table_view t' = (table_view t)(i \<mapsto> after_gauge i v (table_view t i))"
    "table_ok t \<Longrightarrow> table_ok t'"
proof -
  show "if n = 0 then t' = t \<and> \<not> type_free Gauge i (table_view t)
    else type_free Gauge i (table_view t) \<and> table_view t' = (table_view t)(i \<mapsto> after_gauge i v (table_view t i))"
    using assms
    by (auto simp: upsert_gauge_def type_free_table after_gauge_def table_view_def [of t i] split: if_splits option.splits
        intro!: arg_cong [of _ _ "\<lambda>m. (table_view t)(i \<mapsto> m)"] metrics_eqI)
  show "table_ok t \<Longrightarrow> table_ok t'" using assms
    by (auto simp: upsert_gauge_def row_typed_def table_ok_def split: if_splits option.splits)
qed

lemma upsert_counter_view:
  assumes "upsert_counter i d t = Inr (n, t')"
  shows "if n = 0 then t' = t \<and> \<not> type_free Counter i (table_view t)
    else type_free Counter i (table_view t) \<and> table_view t' = (table_view t)(i \<mapsto> after_counter i d (table_view t i))"
    "table_ok t \<Longrightarrow> table_ok t'"
proof -
  show "if n = 0 then t' = t \<and> \<not> type_free Counter i (table_view t)
    else type_free Counter i (table_view t) \<and> table_view t' = (table_view t)(i \<mapsto> after_counter i d (table_view t i))"
    using assms
    by (auto simp: upsert_counter_def type_free_table after_counter_def table_view_def [of t i] coalesce0_def
        split: if_splits option.splits intro!: arg_cong [of _ _ "\<lambda>m. (table_view t)(i \<mapsto> m)"] metrics_eqI)
  show "table_ok t \<Longrightarrow> table_ok t'" using assms
    by (auto simp: upsert_counter_def row_typed_def table_ok_def split: if_splits option.splits)
qed

section \<open>Batches\<close>

text \<open>What the statement for a well-formed metric does to the table.\<close>

definition row_update :: "metrics \<Rightarrow> pg_table \<Rightarrow> pg_table" where
  "row_update m t =
     dict_put t (m_ID m)
       \<lparr>pr_mtype = m_MType m,
        pr_delta = map_option (\<lambda>d. (case dict_get t (m_ID m) of None \<Rightarrow> 0 | Some row \<Rightarrow> coalesce0 (pr_delta row)) + sint d) (m_Delta m),
        pr_value = m_Value m\<rparr>"

lemma take_all_runes: "length s \<le> n \<Longrightarrow> take_runes n s = (s, [])"
  by (induction n s rule: take_runes.induct) (auto split: nat.split)

lemma varchar10_types [simp]: "varchar10 Counter = Inr Counter" "varchar10 Gauge = Inr Gauge"
proof -
  have "pg_text s" if "list_all (\<lambda>c. 0 < char_code c \<and> char_code c < 0x80) s" for s
  proof -
    have "valid_utf8 s" using that by (intro valid_utf8_ascii) (auto simp: list_all_iff)
    moreover have "CHR 0x00 \<notin> set s" using that by (auto simp: list_all_iff char_code_def)
    ultimately show ?thesis by (simp add: pg_text_def)
  qed
  then have "pg_text Counter" "pg_text Gauge" by (simp_all add: Counter_def Gauge_def char_code_def)
  then show "varchar10 Counter = Inr Counter" "varchar10 Gauge = Inr Gauge"
    using take_all_runes [of Counter 10] take_all_runes [of Gauge 10]
    by (simp_all add: varchar10_def Counter_def Gauge_def)
qed

lemma upsert_well_formed:
  assumes "well_formed m"
  shows "upsert_metric m t = (if pg_text (m_ID m) then Inr ((), row_update m t) else Inl (bad_text, t))"
proof -
  have "varchar10 (m_MType m) = Inr (m_MType m)" using assms by (auto simp: well_formed_def)
  then show ?thesis by (auto simp: upsert_metric_def row_update_def split: option.split)
qed

lemma row_update_view:
  assumes "well_formed m" and "table_ok t" and "type_free (m_MType m) (m_ID m) (table_view t)"
  shows "table_view (row_update m t) = spec_update m (table_view t)" "table_ok (row_update m t)"
proof -
  have r: "dict_get t i = Some row \<Longrightarrow> row_typed row" for i row using assms(2) by (simp add: table_ok_def)
  show "table_ok (row_update m t)"
    using assms(1,2) unfolding row_update_def
    by (intro table_ok_put) (auto simp: row_typed_def well_formed_def)
  have "row_metric (m_ID m)
      \<lparr>pr_mtype = m_MType m,
       pr_delta = map_option (\<lambda>d. (case dict_get t (m_ID m) of None \<Rightarrow> 0 | Some row \<Rightarrow> coalesce0 (pr_delta row)) + sint d) (m_Delta m),
       pr_value = m_Value m\<rparr> =
    (if m_MType m = Counter then after_counter (m_ID m) (the (m_Delta m)) (table_view t (m_ID m))
     else after_gauge (m_ID m) (the (m_Value m)) (table_view t (m_ID m)))"
    using assms(1,3) r [of "m_ID m"]
    by (intro metrics_eqI)
      (auto simp: well_formed_def type_free_table row_typed_def table_view_def coalesce0_def after_counter_def after_gauge_def
        split: option.splits)
  then show "table_view (row_update m t) = spec_update m (table_view t)"
    using assms(1) unfolding row_update_def table_view_put by (auto simp: spec_update_def well_formed_def)
qed

lemma row_updates_view:
  "clean_batch ms \<Longrightarrow> table_ok t \<Longrightarrow> \<not> batch_conflict ms (table_view t) \<Longrightarrow>
     table_view (fold row_update ms t) = fold spec_update ms (table_view t) \<and> table_ok (fold row_update ms t)"
proof (induction ms arbitrary: t)
  case (Cons m ms)
  have m: "well_formed m" "one_type_per_id (m # ms)" "clean_batch ms"
    using Cons.prems(1) clean_batch_Cons by (auto simp: clean_batch_def)
  have "type_free (m_MType m) (m_ID m) (table_view t)" using Cons.prems(3) by (simp add: batch_conflict_Cons)
  note u = row_update_view [OF m(1) Cons.prems(2) this]
  have "\<not> batch_conflict ms (spec_update m (table_view t))" by (rule no_conflict_step [OF m(2) Cons.prems(3)])
  then show ?case using Cons.IH [OF m(3) u(2)] u by simp
qed simp

lemma batch_mismatch_some:
  "batch_mismatch t (map Some ms) = Done None \<longleftrightarrow> \<not> batch_conflict ms (table_view t)" "batch_mismatch t (map Some ms) \<noteq> Panic"
  by (induction ms) (auto simp: batch_conflict_def type_free_table split: option.splits)

lemma tx_sets_clean:
  assumes "list_all well_formed ms" and "clean_faults (pg_faults db)" and "tx_sets (map Some ms) db = (r, db')"
  shows "same_server db db' \<and>
    (case r of Panic \<Rightarrow> False | Done None \<Rightarrow> pg_rows db' = fold row_update ms (pg_rows db)
     | Done (Some e) \<Rightarrow> \<forall>s. \<not> errors_is e s)"
  using assms
proof (induction ms arbitrary: db)
  case (Cons m ms)
  obtain x db1 where x: "pg_exec (upsert_metric m) db = (x, db1)" by fastforce
  note p = pg_exec_cases [OF x _ Cons.prems(2)]
  have c: "clean_faults (pg_faults db1)" using p(1) Cons.prems(2) by (simp add: same_server_def)
  show ?case
  proof (cases x)
    case (Inl e)
    then show ?thesis using Cons.prems(3) x p by auto
  next
    case (Inr u)
    then have "pg_rows db1 = row_update m (pg_rows db)"
      using p(2) Cons.prems(1) by (auto simp: upsert_well_formed split: if_splits)
    moreover have "tx_sets (map Some ms) db1 = (r, db')" using Cons.prems(3) x Inr by simp
    ultimately show ?thesis
      using Cons.IH [of db1] Cons.prems(1) c same_server_trans [OF p(1), of db']
      by (simp split: outcome.splits option.splits)
  qed
qed auto

lemma batchSet_clean:
  assumes "list_all well_formed ms" and "clean_faults (pg_faults db)" and "batchSet (map Some ms) db = (r, db')"
  shows "same_server db db' \<and>
    (case r of Panic \<Rightarrow> False | Done None \<Rightarrow> pg_rows db' = fold row_update ms (pg_rows db)
     | Done (Some e) \<Rightarrow> pg_rows db' = pg_rows db \<and> (\<forall>s. \<not> errors_is e s))"
proof -
  obtain x db1 where x: "pg_exec (\<lambda>t. Inr ((), t)) db = (x, db1)" by fastforce
  note p = pg_exec_cases [OF x _ assms(2)]
  have c: "clean_faults (pg_faults db1)" using p(1) assms(2) by (simp add: same_server_def)
  show ?thesis
  proof (cases x)
    case (Inl e)
    then show ?thesis using assms(3) x p by (auto simp: batchSet_def)
  next
    case (Inr u)
    then have rows: "pg_rows db1 = pg_rows db" using p(2) by simp
    obtain q db2 where q: "tx_sets (map Some ms) db1 = (q, db2)" by fastforce
    note tx = tx_sets_clean [OF assms(1) c q]
    have s2: "same_server db db2" using same_server_trans [OF p(1)] tx by simp
    show ?thesis
    proof (cases q)
      case Panic
      then show ?thesis using tx by simp
    next
      case (Done y)
      show ?thesis
      proof (cases y)
        case (Some e)
        then show ?thesis using Done assms(3) x Inr q tx rows s2 by (auto simp: batchSet_def same_server_def)
      next
        case None
        let ?db = "db2\<lparr>pg_rows := pg_rows db1\<rparr>"
        obtain z db3 where z: "pg_exec (\<lambda>t. Inr ((), pg_rows db2)) ?db = (z, db3)" by fastforce
        have "clean_faults (pg_faults ?db)" using s2 assms(2) by (simp add: same_server_def)
        note e = pg_exec_cases [OF z _ this]
        have "same_server db db3" using s2 e(1) by (simp add: same_server_def)
        then show ?thesis using None Done assms(3) x Inr q tx rows e(2) z
          by (cases z) (auto simp: batchSet_def)
      qed
    qed
  qed
qed

lemma result_cases:
  obtains "r = Done None" | e where "r = Done (Some e)" | "r = Panic"
  by (cases r; cases "case r of Done q \<Rightarrow> q | Panic \<Rightarrow> None") auto

lemma batchValidate_clean:
  assumes "clean_faults (pg_faults db)" and "batchValidate (map Some ms) db = (r, db')"
  shows "same_server db db' \<and> pg_rows db' = pg_rows db \<and> r \<noteq> Panic \<and>
    (r = Done None \<longrightarrow> \<not> batch_conflict ms (table_view (pg_rows db)))"
proof -
  obtain y db1 where y: "pg_exec select_all db = (y, db1)" by fastforce
  note p = pg_exec_cases [OF y _ assms(1)]
  show ?thesis
  proof (cases y)
    case (Inl e)
    then show ?thesis using assms(2) y p by (auto simp: batchValidate_def)
  next
    case (Inr rows)
    then have "rows = pg_rows db" "pg_rows db1 = pg_rows db" using p(2) by (auto simp: select_all_def)
    moreover have "r = batch_mismatch rows (map Some ms)" "db' = db1" using assms(2) y Inr by (simp_all add: batchValidate_def)
    ultimately show ?thesis using p(1) batch_mismatch_some [of "pg_rows db" ms] by simp
  qed
qed

text \<open>The closures of \<open>BatchUpdate\<close>, run over a storage that is fine.\<close>

lemma run_validate:
  assumes "pg_ok pgs" and "run_closure (batchValidate (map Some ms)) pgs = (r, pgs')"
  shows "pg_ok pgs'" "pg_rows (pgs_conn pgs') = pg_rows (pgs_conn pgs)" "r \<noteq> Panic"
    "r = Done None \<Longrightarrow> \<not> batch_conflict ms (pg_view pgs)"
proof -
  let ?rows = "pg_rows (pgs_conn pgs)"
  have st: "same_server db db' \<and> (case x of Done None \<Rightarrow> pg_rows db' = ?rows \<and> \<not> batch_conflict ms (table_view ?rows)
        | Done (Some e) \<Rightarrow> pg_rows db' = pg_rows db \<and> True | Panic \<Rightarrow> False \<and> pg_rows db' = pg_rows db)"
    if s: "same_server (pgs_conn pgs) db" "pg_rows db = ?rows" and f: "batchValidate (map Some ms) db = (x, db')" for db x db'
  proof -
    have "clean_faults (pg_faults db)" using s(1) assms(1) by (simp add: same_server_def pg_ok_def)
    from batchValidate_clean [OF this f] show ?thesis using s(2) by (simp split: outcome.split option.split)
  qed
  note V = run_closure_cases [where Q = "\<lambda>t. t = ?rows \<and> \<not> batch_conflict ms (table_view ?rows)" and E = "\<lambda>_. True" and P = False,
      OF assms(2)]
  have V1: "same_server (pgs_conn pgs) (pgs_conn pgs')" by (rule V(1)) (rule st; assumption)
  have V3: "r \<noteq> Panic \<and> pg_rows (pgs_conn pgs') = ?rows \<and> (r = Done None \<longrightarrow> \<not> batch_conflict ms (table_view ?rows))"
  proof -
    have "case r of Done None \<Rightarrow> pg_rows (pgs_conn pgs') = ?rows \<and> \<not> batch_conflict ms (table_view ?rows)
        | Done (Some e) \<Rightarrow> pg_rows (pgs_conn pgs') = ?rows \<and> True | Panic \<Rightarrow> False \<and> pg_rows (pgs_conn pgs') = ?rows"
      by (rule V(3)) (rule st; assumption)
    then show ?thesis by (cases r rule: result_cases) simp_all
  qed
  then show "pg_rows (pgs_conn pgs') = ?rows" "r \<noteq> Panic" "r = Done None \<Longrightarrow> \<not> batch_conflict ms (pg_view pgs)"
    by (simp_all add: pg_view_def)
  show "pg_ok pgs'" using V1 V3 assms(1) by (simp add: pg_ok_def same_server_def)
qed

lemma run_batchSet:
  assumes "pg_ok pgs" and "clean_batch ms" and "\<not> batch_conflict ms (pg_view pgs)"
    and "run_closure (batchSet (map Some ms)) pgs = (r, pgs')"
  shows "pg_ok pgs'" "r \<noteq> Panic"
    "r = Done None \<Longrightarrow> pg_view pgs' = fold spec_update ms (pg_view pgs)" "r \<noteq> Done None \<Longrightarrow> pg_view pgs' = pg_view pgs"
proof -
  let ?rows = "pg_rows (pgs_conn pgs)"
  have wf: "list_all well_formed ms" using assms(2) by (simp add: clean_batch_def)
  have ok: "table_ok ?rows" using assms(1) by (simp add: pg_ok_def)
  have st: "same_server db db' \<and> (case x of Done None \<Rightarrow> pg_rows db' = fold row_update ms ?rows
        | Done (Some e) \<Rightarrow> pg_rows db' = pg_rows db \<and> True | Panic \<Rightarrow> False \<and> pg_rows db' = pg_rows db)"
    if s: "same_server (pgs_conn pgs) db" "pg_rows db = ?rows" and f: "batchSet (map Some ms) db = (x, db')" for db x db'
  proof -
    have "clean_faults (pg_faults db)" using s(1) assms(1) by (simp add: same_server_def pg_ok_def)
    from batchSet_clean [OF wf this f] show ?thesis using s(2) by (simp split: outcome.splits option.splits)
  qed
  note B = run_closure_cases [where Q = "\<lambda>t. t = fold row_update ms ?rows" and E = "\<lambda>_. True" and P = False, OF assms(4)]
  have B1: "same_server (pgs_conn pgs) (pgs_conn pgs')" by (rule B(1)) (rule st; assumption)
  note u = row_updates_view [OF assms(2) ok assms(3) [unfolded pg_view_def]]
  have B3: "r \<noteq> Panic \<and> (if r = Done None then pg_rows (pgs_conn pgs') = fold row_update ms ?rows
      else pg_rows (pgs_conn pgs') = ?rows)"
  proof -
    have "case r of Done None \<Rightarrow> pg_rows (pgs_conn pgs') = fold row_update ms ?rows
        | Done (Some e) \<Rightarrow> pg_rows (pgs_conn pgs') = ?rows \<and> True | Panic \<Rightarrow> False \<and> pg_rows (pgs_conn pgs') = ?rows"
      by (rule B(3)) (rule st; assumption)
    then show ?thesis by (cases r rule: result_cases) simp_all
  qed
  then show "r \<noteq> Panic" "r = Done None \<Longrightarrow> pg_view pgs' = fold spec_update ms (pg_view pgs)"
    "r \<noteq> Done None \<Longrightarrow> pg_view pgs' = pg_view pgs"
    using u by (simp_all add: pg_view_def)
  show "pg_ok pgs'" using B1 B3 u ok assms(1) by (simp add: pg_ok_def same_server_def split: if_splits)
qed

lemma pg_BatchUpdate_cases:
  assumes "pg_ok pgs" and "clean_batch ms" and "pg_BatchUpdate (map Some ms) pgs = (r, pgs')"
  shows "pg_ok pgs'" "r \<noteq> Panic"
    "r = Done None \<Longrightarrow> \<not> batch_conflict ms (pg_view pgs) \<and> pg_view pgs' = fold spec_update ms (pg_view pgs)"
    "r \<noteq> Done None \<Longrightarrow> pg_view pgs' = pg_view pgs"
proof -
  obtain q pgs1 where q: "run_closure (batchValidate (map Some ms)) pgs = (q, pgs1)" by fastforce
  note V = run_validate [OF assms(1) q]
  have v1: "pg_view pgs1 = pg_view pgs" using V(2) by (simp add: pg_view_def)
  have "pg_ok pgs' \<and> r \<noteq> Panic \<and>
    (if r = Done None then \<not> batch_conflict ms (pg_view pgs) \<and> pg_view pgs' = fold spec_update ms (pg_view pgs)
     else pg_view pgs' = pg_view pgs)"
  proof (cases "q = Done None")
    case False
    then have "r = q" "pgs' = pgs1" using assms(3) q by (simp_all add: pg_BatchUpdate_def split: outcome.splits option.splits)
    then show ?thesis using False V v1 by simp
  next
    case True
    then have s: "run_closure (batchSet (map Some ms)) pgs1 = (r, pgs')" using assms(3) q by (simp add: pg_BatchUpdate_def)
    have "\<not> batch_conflict ms (pg_view pgs1)" using V(4) [OF True] v1 by simp
    from run_batchSet [OF V(1) assms(2) this s] show ?thesis using V(4) [OF True] v1 by simp
  qed
  then show "pg_ok pgs'" "r \<noteq> Panic"
    "r = Done None \<Longrightarrow> \<not> batch_conflict ms (pg_view pgs) \<and> pg_view pgs' = fold spec_update ms (pg_view pgs)"
    "r \<noteq> Done None \<Longrightarrow> pg_view pgs' = pg_view pgs"
    by simp_all
qed

section \<open>The contract holds\<close>

lemma scan_metric_cases:
  "scan_metric prefix i row = Inr m \<Longrightarrow> m = row_metric i row" "scan_metric prefix i row = Inl e \<Longrightarrow> \<not> errors_is e s"
  by (auto simp: scan_metric_def scan_delta_def row_metric_def split: option.splits if_splits)

lemma scan_metrics_cases:
  "scan_metrics rows = Inr ms \<Longrightarrow> ms = map (\<lambda>(i, row). row_metric i row) rows"
  by (induction rows arbitrary: ms) (auto dest: scan_metric_cases split: sum.splits)

lemma pg_update_cases:
  assumes "pg_ok pgs" and "run_statement prefix stmt Inr pgs = (r, pgs')" and "atomic stmt"
    and u: "\<And>n t'. stmt (pg_rows (pgs_conn pgs)) = Inr (n, t') \<Longrightarrow> table_ok t'"
  shows "pg_ok pgs'"
    "case r of Inl e \<Rightarrow> pg_view pgs' = pg_view pgs \<and> (\<forall>s. \<not> errors_is e s)
     | Inr n \<Rightarrow> stmt (pg_rows (pgs_conn pgs)) = Inr (n, pg_rows (pgs_conn pgs'))"
proof -
  have c: "clean_faults (pg_faults (pgs_conn pgs))" using assms(1) by (simp add: pg_ok_def)
  note R = run_statement_cases [OF assms(2,3) c]
  show "pg_ok pgs'" using R(1,3) u assms(1) by (cases r) (auto simp: pg_ok_def same_server_def)
  show "case r of Inl e \<Rightarrow> pg_view pgs' = pg_view pgs \<and> (\<forall>s. \<not> errors_is e s)
     | Inr n \<Rightarrow> stmt (pg_rows (pgs_conn pgs)) = Inr (n, pg_rows (pgs_conn pgs'))"
    using R(3) by (cases r) (auto simp: pg_view_def)
qed

lemma pg_SetGauge_cases:
  assumes "pg_ok pgs" and "pg_SetGauge i v pgs = (r, pgs')"
  shows "pg_ok pgs'"
    "case r of
       None \<Rightarrow> type_free Gauge i (pg_view pgs) \<and> pg_view pgs' = (pg_view pgs)(i \<mapsto> after_gauge i v (pg_view pgs i))
     | Some e \<Rightarrow> pg_view pgs' = pg_view pgs \<and> (errors_is e ErrIncorrectAccess \<longrightarrow> \<not> type_free Gauge i (pg_view pgs))"
proof -
  obtain x pgs1 where x: "run_statement ''failed to execute set gauge query: '' (upsert_gauge i v) Inr pgs = (x, pgs1)" by fastforce
  have t: "table_ok (pg_rows (pgs_conn pgs))" using assms(1) by (simp add: pg_ok_def)
  note u = upsert_gauge_view [of i v "pg_rows (pgs_conn pgs)"]
  have tk: "upsert_gauge i v (pg_rows (pgs_conn pgs)) = Inr (n, t') \<Longrightarrow> table_ok t'" for n t' using u(2) t by blast
  note R = pg_update_cases [OF assms(1) x atomic_statements(1) tk]
  show "pg_ok pgs'" using assms(2) x R(1) by (cases x) (auto simp: pg_SetGauge_def)
  show "case r of
       None \<Rightarrow> type_free Gauge i (pg_view pgs) \<and> pg_view pgs' = (pg_view pgs)(i \<mapsto> after_gauge i v (pg_view pgs i))
     | Some e \<Rightarrow> pg_view pgs' = pg_view pgs \<and> (errors_is e ErrIncorrectAccess \<longrightarrow> \<not> type_free Gauge i (pg_view pgs))"
  proof (cases x)
    case (Inl e)
    then show ?thesis using assms(2) x R(2) by (auto simp: pg_SetGauge_def)
  next
    case (Inr n)
    then have "upsert_gauge i v (pg_rows (pgs_conn pgs)) = Inr (n, pg_rows (pgs_conn pgs'))"
      using assms(2) x R(2) by (auto simp: pg_SetGauge_def)
    from u(1) [OF this] show ?thesis using Inr assms(2) x
      by (cases "n = 0") (auto simp: pg_SetGauge_def pg_view_def)
  qed
qed

lemma pg_AddCounter_cases:
  assumes "pg_ok pgs" and "pg_AddCounter i d pgs = (r, pgs')"
  shows "pg_ok pgs'"
    "case r of
       None \<Rightarrow> type_free Counter i (pg_view pgs) \<and> pg_view pgs' = (pg_view pgs)(i \<mapsto> after_counter i d (pg_view pgs i))
     | Some e \<Rightarrow> pg_view pgs' = pg_view pgs \<and> (errors_is e ErrIncorrectAccess \<longrightarrow> \<not> type_free Counter i (pg_view pgs))"
proof -
  obtain x pgs1 where x: "run_statement ''failed to execute add counter query: '' (upsert_counter i d) Inr pgs = (x, pgs1)" by fastforce
  have t: "table_ok (pg_rows (pgs_conn pgs))" using assms(1) by (simp add: pg_ok_def)
  note u = upsert_counter_view [of i d "pg_rows (pgs_conn pgs)"]
  have tk: "upsert_counter i d (pg_rows (pgs_conn pgs)) = Inr (n, t') \<Longrightarrow> table_ok t'" for n t' using u(2) t by blast
  note R = pg_update_cases [OF assms(1) x atomic_statements(2) tk]
  show "pg_ok pgs'" using assms(2) x R(1) by (cases x) (auto simp: pg_AddCounter_def)
  show "case r of
       None \<Rightarrow> type_free Counter i (pg_view pgs) \<and> pg_view pgs' = (pg_view pgs)(i \<mapsto> after_counter i d (pg_view pgs i))
     | Some e \<Rightarrow> pg_view pgs' = pg_view pgs \<and> (errors_is e ErrIncorrectAccess \<longrightarrow> \<not> type_free Counter i (pg_view pgs))"
  proof (cases x)
    case (Inl e)
    then show ?thesis using assms(2) x R(2) by (auto simp: pg_AddCounter_def)
  next
    case (Inr n)
    then have "upsert_counter i d (pg_rows (pgs_conn pgs)) = Inr (n, pg_rows (pgs_conn pgs'))"
      using assms(2) x R(2) by (auto simp: pg_AddCounter_def)
    from u(1) [OF this] show ?thesis using Inr assms(2) x
      by (cases "n = 0") (auto simp: pg_AddCounter_def pg_view_def)
  qed
qed

lemma pg_GetByID_cases:
  assumes "pg_ok pgs" and "pg_GetByID i pgs = (r, pgs')"
  shows "pg_ok pgs'" "pg_view pgs' = pg_view pgs"
    "case r of Inl e \<Rightarrow> errors_is e ErrMetricNotFound \<longrightarrow> pg_view pgs i = None
     | Inr m \<Rightarrow> pg_view pgs i = Some m \<and> (\<forall>row. dict_get (pg_rows (pgs_conn pgs)) i = Some row \<longrightarrow> scan_delta (pr_delta row) = Inr (m_Delta m))"
proof -
  let ?scan = "\<lambda>row. case row of None \<Rightarrow> Inl (Sentinel ErrMetricNotFound)
      | Some row \<Rightarrow> scan_metric ''failed to extract metric from DB row: '' i row"
  have run: "run_statement ''failed to extract metric from DB row: '' (select_row i) ?scan pgs = (r, pgs')"
    using assms(2) by (simp add: pg_GetByID_def)
  have c: "clean_faults (pg_faults (pgs_conn pgs))" using assms(1) by (simp add: pg_ok_def)
  have same: "select_row i t = Inr (x, t') \<Longrightarrow> x = dict_get t i \<and> t' = t" for t x t'
    by (auto simp: select_row_def split: if_splits)
  have R1: "same_server (pgs_conn pgs) (pgs_conn pgs')"
    by (rule run_statement_cases(1) [OF run atomic_statements(4) c]) (use same in blast)
  have R3: "case r of
       Inl e \<Rightarrow> pg_rows (pgs_conn pgs') = pg_rows (pgs_conn pgs) \<and>
         ((\<forall>s. \<not> errors_is e s) \<or> (\<exists>x t'. select_row i (pg_rows (pgs_conn pgs)) = Inr (x, t') \<and> ?scan x = Inl e))
     | Inr y \<Rightarrow> \<exists>x. select_row i (pg_rows (pgs_conn pgs)) = Inr (x, pg_rows (pgs_conn pgs')) \<and> ?scan x = Inr y"
    by (rule run_statement_cases(3) [OF run atomic_statements(4) c]) (use same in blast)
  then have rows: "pg_rows (pgs_conn pgs') = pg_rows (pgs_conn pgs)" using same by (cases r) auto
  then show "pg_view pgs' = pg_view pgs" by (simp add: pg_view_def)
  show "pg_ok pgs'" using R1 rows assms(1) by (simp add: pg_ok_def same_server_def)
  show "case r of Inl e \<Rightarrow> errors_is e ErrMetricNotFound \<longrightarrow> pg_view pgs i = None
     | Inr m \<Rightarrow> pg_view pgs i = Some m \<and> (\<forall>row. dict_get (pg_rows (pgs_conn pgs)) i = Some row \<longrightarrow> scan_delta (pr_delta row) = Inr (m_Delta m))"
  proof (cases r)
    case (Inl e)
    show ?thesis
    proof (cases "\<forall>s. \<not> errors_is e s")
      case False
      then obtain x t' where x: "select_row i (pg_rows (pgs_conn pgs)) = Inr (x, t')" "?scan x = Inl e" using R3 Inl by auto
      then show ?thesis using Inl same [OF x(1)] scan_metric_cases(2)
        by (auto simp: pg_view_def table_view_def split: option.splits)
    qed (use Inl in simp)
  next
    case (Inr m)
    then obtain x where x: "select_row i (pg_rows (pgs_conn pgs)) = Inr (x, pg_rows (pgs_conn pgs'))" "?scan x = Inr m"
      using R3 by auto
    then obtain row where row: "dict_get (pg_rows (pgs_conn pgs)) i = Some row"
        "scan_metric ''failed to extract metric from DB row: '' i row = Inr m"
      using same [OF x(1)] by (auto split: option.splits)
    moreover from this have "scan_delta (pr_delta row) = Inr (m_Delta m)"
      by (auto simp: scan_metric_def split: sum.splits)
    ultimately show ?thesis using Inr scan_metric_cases(1) [OF row(2)] by (simp add: pg_view_def table_view_def)
  qed
qed

lemma scan_metrics_error: "scan_metrics rows = Inl e \<Longrightarrow> \<not> errors_is e s"
  by (induction rows) (auto dest: scan_metric_cases(2) split: sum.splits)

lemma pg_GetAllSorted_cases:
  assumes "pg_ok pgs" and "pg_GetAllSorted pgs = (r, pgs')"
  shows "pg_ok pgs'" "pg_view pgs' = pg_view pgs"
    "r = Inr ms \<Longrightarrow> scan_metrics (sort_key fst (pg_rows (pgs_conn pgs))) = Inr ms"
proof -
  let ?scan = "\<lambda>rows. scan_metrics (sort_key (\<lambda>(i, row). pg_collate (pgs_conn pgs) i) rows)"
  have run: "run_statement ''failed to execute get all metrics query: '' select_all ?scan pgs = (r, pgs')"
    using assms(2) by (simp add: pg_GetAllSorted_def)
  have c: "clean_faults (pg_faults (pgs_conn pgs))" "pg_collate (pgs_conn pgs) = id" using assms(1) by (simp_all add: pg_ok_def)
  have same: "select_all t = Inr (x, t') \<Longrightarrow> x = t \<and> t' = t" for t x t' by (auto simp: select_all_def)
  have R1: "same_server (pgs_conn pgs) (pgs_conn pgs')"
    by (rule run_statement_cases(1) [OF run atomic_statements(5) c(1)]) (use same in blast)
  have R3: "case r of
       Inl e \<Rightarrow> pg_rows (pgs_conn pgs') = pg_rows (pgs_conn pgs) \<and>
         ((\<forall>s. \<not> errors_is e s) \<or> (\<exists>x t'. select_all (pg_rows (pgs_conn pgs)) = Inr (x, t') \<and> ?scan x = Inl e))
     | Inr y \<Rightarrow> \<exists>x. select_all (pg_rows (pgs_conn pgs)) = Inr (x, pg_rows (pgs_conn pgs')) \<and> ?scan x = Inr y"
    by (rule run_statement_cases(3) [OF run atomic_statements(5) c(1)]) (use same in blast)
  then have rows: "pg_rows (pgs_conn pgs') = pg_rows (pgs_conn pgs)" using same by (cases r) auto
  then show "pg_view pgs' = pg_view pgs" by (simp add: pg_view_def)
  show "pg_ok pgs'" using R1 rows assms(1) by (simp add: pg_ok_def same_server_def)
  show "r = Inr ms \<Longrightarrow> scan_metrics (sort_key fst (pg_rows (pgs_conn pgs))) = Inr ms"
    using R3 c(2) by (auto simp: case_prod_unfold select_all_def)
qed

lemma pg_listing:
  assumes "pg_ok pgs" and "ms = map (\<lambda>(i, row). row_metric i row) (sort_key fst (pg_rows (pgs_conn pgs)))"
  shows "sorted (map m_ID ms) \<and> distinct (map m_ID ms) \<and> (\<forall>m. m \<in> set ms \<longleftrightarrow> pg_view pgs (m_ID m) = Some m)"
proof -
  let ?t = "pg_rows (pgs_conn pgs)"
  have i: "map m_ID ms = map fst (sort_key fst ?t)" using assms(2) by (simp add: case_prod_unfold comp_def)
  have d: "dict_ok ?t" using assms(1) by (simp add: pg_ok_def table_ok_def)
  have "distinct (map fst (sort_key fst ?t))"
    using d unfolding dict_ok_def by (metis mset_eq_imp_distinct_iff mset_map mset_sort)
  moreover have "m \<in> set ms \<longleftrightarrow> pg_view pgs (m_ID m) = Some m" for m
  proof -
    have "m \<in> set ms \<longleftrightarrow> (\<exists>i row. (i, row) \<in> set ?t \<and> m = row_metric i row)" using assms(2) by force
    also have "\<dots> \<longleftrightarrow> (\<exists>row. dict_get ?t (m_ID m) = Some row \<and> m = row_metric (m_ID m) row)"
      using dict_set_get [OF d] by (metis row_metric_fields(1))
    finally show ?thesis by (auto simp: pg_view_def table_view_def)
  qed
  ultimately show ?thesis unfolding i by simp
qed

lemma pg_ops_simps [simp]:
  "op_SetGauge pg_ops = pg_SetGauge" "op_AddCounter pg_ops = pg_AddCounter" "op_GetByID pg_ops = pg_GetByID"
  "op_BatchUpdate pg_ops = pg_BatchUpdate" "op_GetAllSorted pg_ops = pg_GetAllSorted"
  by (simp_all add: pg_ops_def)

interpretation pg: storage_contract pg_ops pg_ok pg_view
proof unfold_locales
  fix s s' i v r assume "pg_ok s" "op_SetGauge pg_ops i v s = (r, s')"
  then show "pg_ok s'" using pg_SetGauge_cases(1) by simp
next
  fix s s' i v assume "pg_ok s" "op_SetGauge pg_ops i v s = (None, s')"
  then show "type_free Gauge i (pg_view s) \<and> pg_view s' = (pg_view s)(i \<mapsto> after_gauge i v (pg_view s i))"
    using pg_SetGauge_cases(2) [of s i v None s'] by simp
next
  fix s s' i v e assume "pg_ok s" "op_SetGauge pg_ops i v s = (Some e, s')" "errors_is e ErrIncorrectAccess"
  then show "\<not> type_free Gauge i (pg_view s) \<and> pg_view s' = pg_view s"
    using pg_SetGauge_cases(2) [of s i v "Some e" s'] by simp
next
  fix s s' i d r assume "pg_ok s" "op_AddCounter pg_ops i d s = (r, s')"
  then show "pg_ok s'" using pg_AddCounter_cases(1) by simp
next
  fix s s' i d assume "pg_ok s" "op_AddCounter pg_ops i d s = (None, s')"
  then show "type_free Counter i (pg_view s) \<and> pg_view s' = (pg_view s)(i \<mapsto> after_counter i d (pg_view s i))"
    using pg_AddCounter_cases(2) [of s i d None s'] by simp
next
  fix s s' i d e assume "pg_ok s" "op_AddCounter pg_ops i d s = (Some e, s')" "errors_is e ErrIncorrectAccess"
  then show "\<not> type_free Counter i (pg_view s) \<and> pg_view s' = pg_view s"
    using pg_AddCounter_cases(2) [of s i d "Some e" s'] by simp
next
  fix s s' ms r assume "pg_ok s" "clean_batch ms" "op_BatchUpdate pg_ops (map Some ms) s = (r, s')"
  then show "pg_ok s'" using pg_BatchUpdate_cases(1) by simp
next
  fix s s' ms assume "pg_ok s" "clean_batch ms" "op_BatchUpdate pg_ops (map Some ms) s = (Done None, s')"
  then show "\<not> batch_conflict ms (pg_view s) \<and> pg_view s' = fold spec_update ms (pg_view s)"
    using pg_BatchUpdate_cases(3) [of s ms "Done None" s'] by simp
next
  fix s s' i r assume "pg_ok s" "op_GetByID pg_ops i s = (r, s')"
  then show "pg_ok s' \<and> pg_view s' = pg_view s" using pg_GetByID_cases(1,2) by simp
next
  fix s s' i m assume "pg_ok s" "op_GetByID pg_ops i s = (Inr m, s')"
  then show "pg_view s i = Some m" using pg_GetByID_cases(3) [of s i "Inr m" s'] by simp
next
  fix s s' i e assume "pg_ok s" "op_GetByID pg_ops i s = (Inl e, s')" "errors_is e ErrMetricNotFound"
  then show "pg_view s i = None" using pg_GetByID_cases(3) [of s i "Inl e" s'] by simp
next
  fix s s' r assume "pg_ok s" "op_GetAllSorted pg_ops s = (r, s')"
  then show "pg_ok s' \<and> pg_view s' = pg_view s" using pg_GetAllSorted_cases(1,2) by simp
next
  fix s s' ms assume "pg_ok s" "op_GetAllSorted pg_ops s = (Inr ms, s')"
  then show "sorted (map m_ID ms) \<and> distinct (map m_ID ms) \<and> (\<forall>m. m \<in> set ms \<longleftrightarrow> pg_view s (m_ID m) = Some m)"
    using pg_GetAllSorted_cases(3) [of s "Inr ms" s'] by (intro pg_listing scan_metrics_cases) simp_all
qed (auto simp: pg_view_def table_view_def)

section \<open>Properties of the database storage\<close>


text \<open>A fresh database, one statement of which fails, and a retrying storage over it.\<close>

definition pg_test :: "pg_table \<Rightarrow> (goerror \<times> bool) option list \<Rightarrow> pg_storage" where
  "pg_test rows faults =
     NewPostgresDBStorage \<lparr>pg_rows = rows, pg_faults = faults, pg_collate = id, pg_closed = False\<rparr> (NewLinearPolicy 3 1 2)"

definition connection_failure :: goerror where
  "connection_failure = PgError ''08006'' ''FATAL: connection failure (SQLSTATE 08006)''"

lemma pg_ok_test: "table_ok rows \<Longrightarrow> clean_faults faults \<Longrightarrow> pg_ok (pg_test rows faults)"
  by (simp add: pg_ok_def pg_test_def NewPostgresDBStorage_def)


text \<open>A first call that fails with a retryable error and a second one that succeeds.\<close>

lemma Run_retried:
  assumes "f s = (Some e, s1)" and "ex_isRetryablePredicate ex e" and "f s1 = (None, s2)"
    and "0 <s op_MaxAttempts (ex_policy ex)"
  shows "Run ex f s = (None, [op_NextDelay (ex_policy ex) 0], s2)"
  using assms retry_loop.simps [of ex f 0 "op_NextDelay (ex_policy ex) 0" e s1] by (simp add: Run_def)

lemma run_statement_retried:
  assumes "pg_exec stmt (pgs_conn pgs) = (Inl err, db1)" and "ex_isRetryablePredicate (pgs_retrier pgs) (errorf prefix err [])"
    and "pg_exec stmt db1 = (Inr r, db2)" and "scan r = Inr x" and "0 <s op_MaxAttempts (ex_policy (pgs_retrier pgs))"
  shows "run_statement prefix stmt scan pgs = (Inr x, pgs\<lparr>pgs_conn := db2\<rparr>)"
proof -
  let ?f = "\<lambda>(res, db). case pg_exec stmt db of
      (Inl err, db') \<Rightarrow> (Some (errorf prefix err []), (res, db'))
    | (Inr r, db') \<Rightarrow> (case scan r of Inl err \<Rightarrow> (Some err, (res, db')) | Inr x \<Rightarrow> (None, (Some x, db')))"
  have "Run (pgs_retrier pgs) ?f (None, pgs_conn pgs) =
      (None, [op_NextDelay (ex_policy (pgs_retrier pgs)) 0], (Some x, db2))"
    by (rule Run_retried [of _ _ "errorf prefix err []" "(None, db1)"]) (use assms in simp_all)
  then show ?thesis by (simp add: run_statement_def)
qed

lemma connection_failure_retryable: "isPgErrorRetryable (errorf t connection_failure u)"
  by (simp add: errorf_def isPgErrorRetryable_def connection_failure_def)

lemma pg_test_retrier: "ex_isRetryablePredicate (pgs_retrier (pg_test rows fs)) = isPgErrorRetryable"
    "op_MaxAttempts (ex_policy (pgs_retrier (pg_test rows fs))) = 3"
  by (simp_all add: pg_test_def NewPostgresDBStorage_def WithRetryablePredicate_def NewExecutorBuilder_def NewLinearPolicy_def)



lemma scan_metrics_delta:
  "scan_metrics rows = Inr ms \<Longrightarrow> (i, row) \<in> set rows \<Longrightarrow> \<exists>d. scan_delta (pr_delta row) = Inr d"
  by (induction rows arbitrary: ms) (auto simp: scan_metric_def split: sum.splits)

text \<open>C32. A counter in the database does not wrap: once its sum has left the 64-bit range, reading it
  fails, and with it every listing of the storage, whatever else is stored, while updates of it go on
  to succeed.\<close>

theorem pg_overflow_unreadable:
  assumes "pg_ok pgs" and "dict_get (pg_rows (pgs_conn pgs)) i = Some row" and "pr_delta row = Some x"
    and "x < - (2 ^ 63) \<or> 2 ^ 63 \<le> x"
  shows "(\<exists>e pgs'. pg_GetByID i pgs = (Inl e, pgs') \<and> \<not> errors_is e ErrMetricNotFound) \<and>
    (\<exists>e pgs'. pg_GetAllSorted pgs = (Inl e, pgs'))"
proof
  have s: "scan_delta (pr_delta row) \<noteq> Inr d" for d using assms(3,4) by (auto simp: scan_delta_def)
  obtain r pgs1 where r: "pg_GetByID i pgs = (r, pgs1)" by fastforce
  have "pg_view pgs i \<noteq> None" using assms(2) by (simp add: pg_view_def table_view_def)
  then show "\<exists>e pgs'. pg_GetByID i pgs = (Inl e, pgs') \<and> \<not> errors_is e ErrMetricNotFound"
    using pg_GetByID_cases(3) [OF assms(1) r] r s assms(2) by (cases r) auto
  obtain l pgs2 where l: "pg_GetAllSorted pgs = (l, pgs2)" by fastforce
  have "(i, row) \<in> set (sort_key fst (pg_rows (pgs_conn pgs)))" using assms(2) by (simp add: dict_get_in_set)
  then show "\<exists>e pgs'. pg_GetAllSorted pgs = (Inl e, pgs')"
    using pg_GetAllSorted_cases(3) [OF assms(1) l] scan_metrics_delta s l by (cases l) blast+
qed

lemma pg_overflow_unreadable_witness:
  "\<exists>e pgs'. pg_GetByID ''c'' (pg_test [(''c'', \<lparr>pr_mtype = Counter, pr_delta = Some (2 ^ 63), pr_value = None\<rparr>)] []) = (Inl e, pgs')"
proof -
  let ?row = "\<lparr>pr_mtype = Counter, pr_delta = Some (2 ^ 63), pr_value = None\<rparr>"
  let ?pgs = "pg_test [(''c'', ?row)] []"
  have "pg_ok ?pgs" by (rule pg_ok_test) (auto simp: table_ok_def row_typed_def dict_ok_def split: if_splits)
  moreover have "dict_get (pg_rows (pgs_conn ?pgs)) ''c'' = Some ?row" by (simp add: pg_test_def NewPostgresDBStorage_def)
  ultimately show ?thesis using pg_overflow_unreadable [of ?pgs "''c''" ?row "2 ^ 63"] by auto
qed

end
