(* ===== verification/Server.thy ===== *)
theory Server
  imports Config AuditLog DBStorage
begin

text \<open>
  \<open>internal/server/server.go\<close>: what the server is put together from, with \<open>db.NewPostgresDB\<close> and
  \<open>migrations.MigrateDB\<close>, which it calls. The configuration chooses one of the three storages; a
  value of the interface \<open>Storage\<close> is one of three cases, and its method table dispatches on it.
  \<open>Run\<close> is in two parts, before and after the server listens. The lemmas: whichever storage was
  chosen keeps the contract, what a shutdown stores, and what it loses.
\<close>

section \<open>A value of the interface Storage\<close>

datatype storage = Memory mem_storage | Filed file_storage | Postgres pg_storage

definition rewrap :: "('a \<Rightarrow> storage) \<Rightarrow> 'r \<times> 'a \<Rightarrow> 'r \<times> storage" where
  "rewrap c p = (case p of (r, a) \<Rightarrow> (r, c a))"

definition dispatch ::
    "(mem_storage \<Rightarrow> 'r \<times> mem_storage) \<Rightarrow> (file_storage \<Rightarrow> 'r \<times> file_storage) \<Rightarrow> (pg_storage \<Rightarrow> 'r \<times> pg_storage)
      \<Rightarrow> storage \<Rightarrow> 'r \<times> storage" where
  "dispatch m f p s =
     (case s of
        Memory ms \<Rightarrow> rewrap Memory (m ms)
      | Filed st \<Rightarrow> rewrap Filed (f st)
      | Postgres pgs \<Rightarrow> rewrap Postgres (p pgs))"

definition any_ops :: "storage storage_ops" where
  "any_ops = \<lparr>
     op_SetGauge = (\<lambda>i v. dispatch (op_SetGauge mem_ops i v) (op_SetGauge file_ops i v) (op_SetGauge pg_ops i v)),
     op_AddCounter = (\<lambda>i d. dispatch (op_AddCounter mem_ops i d) (op_AddCounter file_ops i d) (op_AddCounter pg_ops i d)),
     op_GetByID = (\<lambda>i. dispatch (op_GetByID mem_ops i) (op_GetByID file_ops i) (op_GetByID pg_ops i)),
     op_BatchUpdate = (\<lambda>ps. dispatch (op_BatchUpdate mem_ops ps) (op_BatchUpdate file_ops ps) (op_BatchUpdate pg_ops ps)),
     op_GetAllSorted = dispatch (op_GetAllSorted mem_ops) (op_GetAllSorted file_ops) (op_GetAllSorted pg_ops),
     op_SetAll = (\<lambda>ps. dispatch (op_SetAll mem_ops ps) (op_SetAll file_ops ps) (op_SetAll pg_ops ps)),
     op_ResetAll = dispatch (op_ResetAll mem_ops) (op_ResetAll file_ops) (op_ResetAll pg_ops),
     op_Ping = dispatch (op_Ping mem_ops) (op_Ping file_ops) (op_Ping pg_ops),
     op_Close = dispatch (op_Close mem_ops) (op_Close file_ops) (op_Close pg_ops)\<rparr>"

fun any_ok :: "storage \<Rightarrow> bool" where
  "any_ok (Memory ms) \<longleftrightarrow> mem_ok ms"
| "any_ok (Filed st) \<longleftrightarrow> file_ok st"
| "any_ok (Postgres pgs) \<longleftrightarrow> pg_ok pgs"

fun any_view :: "storage \<Rightarrow> view" where
  "any_view (Memory ms) = mem_view ms"
| "any_view (Filed st) = file_view st"
| "any_view (Postgres pgs) = pg_view pgs"

lemma rewrap_eq [simp]: "rewrap c p = (r, s) \<longleftrightarrow> (\<exists>a. p = (r, a) \<and> s = c a)"
  by (auto simp: rewrap_def split: prod.split)

lemma dispatch_simps [simp]:
  "dispatch m f p (Memory ms) = rewrap Memory (m ms)"
  "dispatch m f p (Filed st) = rewrap Filed (f st)"
  "dispatch m f p (Postgres pgs) = rewrap Postgres (p pgs)"
  by (simp_all add: dispatch_def)

lemma any_ops_simps [simp]:
  "op_SetGauge any_ops i v = dispatch (op_SetGauge mem_ops i v) (op_SetGauge file_ops i v) (op_SetGauge pg_ops i v)"
  "op_AddCounter any_ops i d = dispatch (op_AddCounter mem_ops i d) (op_AddCounter file_ops i d) (op_AddCounter pg_ops i d)"
  "op_GetByID any_ops i = dispatch (op_GetByID mem_ops i) (op_GetByID file_ops i) (op_GetByID pg_ops i)"
  "op_BatchUpdate any_ops ps = dispatch (op_BatchUpdate mem_ops ps) (op_BatchUpdate file_ops ps) (op_BatchUpdate pg_ops ps)"
  "op_GetAllSorted any_ops = dispatch (op_GetAllSorted mem_ops) (op_GetAllSorted file_ops) (op_GetAllSorted pg_ops)"
  "op_Close any_ops = dispatch (op_Close mem_ops) (op_Close file_ops) (op_Close pg_ops)"
  by (simp_all add: any_ops_def)

text \<open>Each law of the contract is the law of the case at hand.\<close>

declare mem_ops_simps [simp del] file_ops_simps [simp del] pg_ops_simps [simp del]

interpretation any: storage_contract any_ops any_ok any_view
proof (unfold_locales, goal_cases)
  case (1 s i m)
  then show ?case by (cases s) (auto dest: mem.view_ID filed.view_ID pg.view_ID)
next
  case (2 s i m)
  then show ?case by (cases s) (auto dest: mem.view_hash filed.view_hash pg.view_hash)
next
  case (3 s i v r s')
  then show ?case by (cases s) (auto dest: mem.gauge_ok filed.gauge_ok pg.gauge_ok)
next
  case (4 s i v s')
  then show ?case by (cases s) (auto dest: mem.gauge_done filed.gauge_done pg.gauge_done)
next
  case (5 s i v e s')
  then show ?case by (cases s) (auto dest: mem.gauge_refused filed.gauge_refused pg.gauge_refused)
next
  case (6 s i d r s')
  then show ?case by (cases s) (auto dest: mem.counter_ok filed.counter_ok pg.counter_ok)
next
  case (7 s i d s')
  then show ?case by (cases s) (auto dest: mem.counter_done filed.counter_done pg.counter_done)
next
  case (8 s i d e s')
  then show ?case by (cases s) (auto dest: mem.counter_refused filed.counter_refused pg.counter_refused)
next
  case (9 s ms rb s')
  then show ?case by (cases s) (auto dest: mem.batch_ok filed.batch_ok pg.batch_ok)
next
  case (10 s ms s')
  then show ?case by (cases s) (auto dest: mem.batch_done filed.batch_done pg.batch_done)
next
  case (11 s i rg s')
  then show ?case by (cases s) (auto dest: mem.get_frame filed.get_frame pg.get_frame)
next
  case (12 s i m s')
  then show ?case by (cases s) (auto dest: mem.get_found filed.get_found pg.get_found)
next
  case (13 s i e s')
  then show ?case by (cases s) (auto dest: mem.get_missing filed.get_missing pg.get_missing)
next
  case (14 s rl s')
  then show ?case by (cases s) (auto dest: mem.all_frame filed.all_frame pg.all_frame)
next
  case (15 s ms s')
  then show ?case by (cases s) (auto dest: mem.all_found filed.all_found pg.all_found)
qed

declare mem_ops_simps [simp] file_ops_simps [simp] pg_ops_simps [simp]

section \<open>Making the storage\<close>

text \<open>What is outside: finding the embedded migrations, making a migration for a connection string,
  applying it (whose \<open>migrate.ErrNoChange\<close> is a text), and the connection pool, whose tables the
  connection string leads to.\<close>

record migrate_env =
  me_iofs_New :: "goerror option"
  me_NewWithSourceInstance :: "gostring \<Rightarrow> goerror option"
  me_Up :: "gostring \<Rightarrow> goerror option"
  me_pgxpool_New :: "gostring \<Rightarrow> goerror + pg_db"

definition ErrNoChange :: gostring where
  "ErrNoChange = ''no change''"

fun is_foreign :: "goerror \<Rightarrow> gostring \<Rightarrow> bool" where
  "is_foreign (Foreign t) s \<longleftrightarrow> t = s"
| "is_foreign (Wrapped t e) s \<longleftrightarrow> is_foreign e s"
| "is_foreign _ s \<longleftrightarrow> False"

definition MigrateDB :: "migrate_env \<Rightarrow> database_config \<Rightarrow> goerror option" where
  "MigrateDB env cfg =
     (case me_iofs_New env of
        Some err \<Rightarrow> Some (errorf ''can't find migration files: '' err [])
      | None \<Rightarrow>
          (case me_NewWithSourceInstance env (dc_DBConnString cfg) of
             Some err \<Rightarrow> Some (errorf ''can't initialize database migration: '' err [])
           | None \<Rightarrow>
               (case me_Up env (dc_DBConnString cfg) of
                  Some err \<Rightarrow> if is_foreign err ErrNoChange then None else Some err
                | None \<Rightarrow> None)))"

definition NewPostgresDB :: "migrate_env \<Rightarrow> database_config \<Rightarrow> goerror + pg_db" where
  "NewPostgresDB env cfg =
     (case me_pgxpool_New env (trim_quotes (dc_DBConnString cfg)) of
        Inl err \<Rightarrow> Inl (errorf ''failed to create database connection: '' err [])
      | Inr dbc \<Rightarrow> Inr dbc)"

text \<open>\<open>json_error\<close> is the text of an error of \<open>json.Unmarshal\<close>, and \<open>dk\<close> the disk the file storage
  works on.\<close>

definition InitializeStorage ::
    "migrate_env \<Rightarrow> (gostring \<Rightarrow> gostring) \<Rightarrow> disk \<Rightarrow> server_config \<Rightarrow> (goerror + storage) outcome" where
  "InitializeStorage env json_error dk cfg =
     (if database_IsSetUp (sv_DatabaseConfig cfg) then
        (case MigrateDB env (sv_DatabaseConfig cfg) of
           Some err \<Rightarrow> Done (Inl err)
         | None \<Rightarrow>
             (case NewPostgresDB env (sv_DatabaseConfig cfg) of
                Inl err \<Rightarrow> Done (Inl (errorf ''can't create postgres database connection pool: '' err []))
              | Inr dbconn \<Rightarrow>
                  Done (Inr (Postgres (NewPostgresDBStorage dbconn
                    (NewLinearPolicy (word_of_int (pc_MaxRetryCount (sv_PostgresRetryConfig cfg)))
                      (seconds (pc_InitialRetryDelaySec (sv_PostgresRetryConfig cfg)))
                      (seconds (pc_RetryDelayIncrementSec (sv_PostgresRetryConfig cfg)))))))))
      else if file_IsSetUp (sv_FileStorageConfig cfg) then
        (case NewFileStorage json_error (sv_FileStorageConfig cfg) dk of
           Panic \<Rightarrow> Panic
         | Done st \<Rightarrow> Done (Inr (Filed st)))
      else Done (Inr (Memory NewMemStorage)))"

section \<open>Running the server\<close>

text \<open>The rest of what is outside: the logger, the files, the clock, the client of the HTTP auditor,
  what the audit file holds and which appends to it will fail.\<close>

record ('pub, 'priv, 'e, 'n) server_env =
  se_config :: "server_config config_env"
  se_NewZapLogger :: "gostring \<Rightarrow> goerror option"
  se_migrate :: migrate_env
  se_disk :: disk
  se_crypto :: "('pub, 'priv, 'e) crypto"
  se_clock :: int64
  se_Post :: "gostring \<Rightarrow> gostring \<Rightarrow> gostring \<Rightarrow> 'n \<Rightarrow> goerror option \<times> 'n"
  se_network :: 'n
  se_audit_file :: gostring
  se_audit_faults :: "append_fault option list"

record 'n running_server =
  rn_handlers :: "(storage, 'n auditor) metrics_handlers"
  rn_service :: "(storage, 'n auditor) metrics_service"
  rn_Addr :: gostring

definition close_storage :: "storage \<Rightarrow> storage" where
  "close_storage s = snd (op_Close any_ops s)"

text \<open>The auditors the configuration asks for.\<close>

definition subscribe_auditors ::
    "('pub, 'priv, 'e, 'n) server_env \<Rightarrow> audit_config \<Rightarrow> (storage, 'n auditor) metrics_service
      \<Rightarrow> (storage, 'n auditor) metrics_service outcome" where
  "subscribe_auditors env cfg msrv =
     (case (if au_AuditFilePath cfg \<noteq> [] then
              (case NewFileWriter (au_AuditFilePath cfg) (au_AuditFileWriteIntervalSec cfg)
                      (se_audit_file env) (se_audit_faults env) of
                 Panic \<Rightarrow> Panic
               | Done fw \<Rightarrow> Done (SubscribeAuditor (FileAuditor fw) msrv))
            else Done msrv) of
        Panic \<Rightarrow> Panic
      | Done msrv \<Rightarrow>
          Done (if au_AuditURL cfg \<noteq> []
            then SubscribeAuditor (HTTPAuditor (NewHTTPWriter (au_AuditURL cfg)) (se_network env)) msrv else msrv))"

text \<open>\<open>Run\<close> up to the moment the server listens. When it gives up after the storage was made, the
  storage is closed by the deferred call: it is what the failure leaves.\<close>

definition Run_start ::
    "('pub, 'priv, 'e, 'n) server_env \<Rightarrow> (goerror \<times> storage option + 'n running_server) outcome" where
  "Run_start env =
     (case server_Read (se_config env) of
        Inl err \<Rightarrow> Done (Inl (errorf ''can't read server config: '' err [], None))
      | Inr cfg \<Rightarrow>
          (case se_NewZapLogger env (sv_LogLevel cfg) of
             Some err \<Rightarrow> Done (Inl (errorf ''can't initialize logger: '' err [], None))
           | None \<Rightarrow>
               (case InitializeStorage (se_migrate env) (ce_json_error (se_config env)) (se_disk env) cfg of
                  Panic \<Rightarrow> Panic
                | Done (Inl err) \<Rightarrow> Done (Inl (errorf ''can't initialize storage: '' err [], None))
                | Done (Inr stor) \<Rightarrow>
                    (case subscribe_auditors env (sv_AuditConfig cfg) (NewMetricsService stor) of
                       Panic \<Rightarrow> Panic
                     | Done msrv \<Rightarrow>
                         (case NewMetricsHandlers (se_crypto env) (ce_ReadFile (se_config env)) any_ops
                                 (audit_ops (se_Post env)) (se_clock env) (ce_json_error (se_config env))
                                 (sv_SecurityConfig cfg) of
                            Inl err \<Rightarrow>
                              Done (Inl (errorf ''can't initialize metrics handlers: '' err [], Some (close_storage stor)))
                          | Inr mh \<Rightarrow>
                              Done (Inr \<lparr>rn_handlers = mh, rn_service = msrv, rn_Addr = trim_quotes (sv_Addr cfg)\<rparr>))))))"

text \<open>\<open>Run\<close> after a signal, given what \<open>Shutdown\<close> of the HTTP server answers. The storage is closed
  here and once more by the deferred call, the file auditor only here.\<close>

definition close_writer :: "'n auditor \<Rightarrow> 'n auditor" where
  "close_writer a = (case a of FileAuditor fw \<Rightarrow> FileAuditor (fw_Close fw) | HTTPAuditor hw n \<Rightarrow> HTTPAuditor hw n)"

definition Run_shutdown ::
    "goerror option \<Rightarrow> (storage, 'n auditor) metrics_service \<Rightarrow> goerror option \<times> (storage, 'n auditor) metrics_service" where
  "Run_shutdown answer msrv =
     (case answer of
        Some err \<Rightarrow>
          (Some (errorf ''failed to shutdown server: '' err []), msrv\<lparr>srv_storage := close_storage (srv_storage msrv)\<rparr>)
      | None \<Rightarrow>
          (None, msrv\<lparr>srv_storage := close_storage (close_storage (srv_storage msrv)),
                      srv_auditors := map close_writer (srv_auditors msrv)\<rparr>))"

section \<open>The storage of a server that starts\<close>

lemma load_ok: "file_load json_error st = (r, st') \<Longrightarrow> file_ok st \<Longrightarrow> file_ok st' \<and> fst_filename st' = fst_filename st"
  using mem_ok_SetAll [of "fst_MemStorage st"]
  by (auto simp: file_load_def file_ok_def split: sum.splits option.splits prod.splits outcome.splits)
    (metis snd_conv)+

lemma NewFileStorage_ok:
  assumes "NewFileStorage json_error cfg dk = Done st"
  shows "file_ok st" "fst_filename st = fc_StorageFilePath cfg"
proof -
  let ?st = "\<lparr>fst_MemStorage = NewMemStorage, fst_filename = fc_StorageFilePath cfg, fst_synchronous = False, fst_disk = dk\<rparr>"
  have ok: "file_ok ?st" by (simp add: file_ok_def)
  obtain r st' where l: "(if fc_RestoreOnStartup cfg then file_load json_error ?st else (Done None, ?st)) = (r, st')"
    by fastforce
  then have "file_ok st' \<and> fst_filename st' = fst_filename ?st"
    using load_ok [of json_error ?st r st'] ok by (auto split: if_splits)
  then show "file_ok st" "fst_filename st = fc_StorageFilePath cfg"
    using assms l by (auto simp: NewFileStorage_def Let_def file_ok_def split: outcome.splits if_splits)
qed

text \<open>A database whose table was only written by a server, on a connection whose failed statements
  have no effect.\<close>

definition clean_database :: "migrate_env \<Rightarrow> bool" where
  "clean_database env \<longleftrightarrow> (\<forall>dsn db. me_pgxpool_New env dsn = Inr db \<longrightarrow>
     table_ok (pg_rows db) \<and> clean_faults (pg_faults db) \<and> pg_collate db = id)"

lemma initialized:
  assumes "InitializeStorage env json_error dk cfg = Done (Inr s)" and "clean_database env"
  shows "any_ok s" "case s of
      Postgres pgs \<Rightarrow> database_IsSetUp (sv_DatabaseConfig cfg)
    | Filed st \<Rightarrow> \<not> database_IsSetUp (sv_DatabaseConfig cfg) \<and> file_IsSetUp (sv_FileStorageConfig cfg) \<and>
        fst_filename st = fc_StorageFilePath (sv_FileStorageConfig cfg)
    | Memory ms \<Rightarrow> \<not> database_IsSetUp (sv_DatabaseConfig cfg) \<and> \<not> file_IsSetUp (sv_FileStorageConfig cfg) \<and>
        ms = NewMemStorage"
proof -
  have "any_ok s \<and> (case s of
      Postgres pgs \<Rightarrow> database_IsSetUp (sv_DatabaseConfig cfg)
    | Filed st \<Rightarrow> \<not> database_IsSetUp (sv_DatabaseConfig cfg) \<and> file_IsSetUp (sv_FileStorageConfig cfg) \<and>
        fst_filename st = fc_StorageFilePath (sv_FileStorageConfig cfg)
    | Memory ms \<Rightarrow> \<not> database_IsSetUp (sv_DatabaseConfig cfg) \<and> \<not> file_IsSetUp (sv_FileStorageConfig cfg) \<and>
        ms = NewMemStorage)"
  proof (cases "database_IsSetUp (sv_DatabaseConfig cfg)")
    case True
    then show ?thesis using assms
      by (auto simp: InitializeStorage_def NewPostgresDB_def NewPostgresDBStorage_def pg_ok_def clean_database_def
          split: option.splits sum.splits)
  next
    case False
    then show ?thesis using assms(1) NewFileStorage_ok
      by (auto simp: InitializeStorage_def split: if_splits outcome.splits)
  qed
  then show "any_ok s" "case s of
      Postgres pgs \<Rightarrow> database_IsSetUp (sv_DatabaseConfig cfg)
    | Filed st \<Rightarrow> \<not> database_IsSetUp (sv_DatabaseConfig cfg) \<and> file_IsSetUp (sv_FileStorageConfig cfg) \<and>
        fst_filename st = fc_StorageFilePath (sv_FileStorageConfig cfg)
    | Memory ms \<Rightarrow> \<not> database_IsSetUp (sv_DatabaseConfig cfg) \<and> \<not> file_IsSetUp (sv_FileStorageConfig cfg) \<and>
        ms = NewMemStorage" by blast+
qed

section \<open>An answer of 200 means that it happened\<close>

context storage_contract
begin

lemma update_answered:
  assumes "ok (srv_storage srv)" and "mh_ops mh = ops" and "fresh w"
    and "updateByPath mh r w srv = (Done (), w', srv')" and "status_of w' = 200"
  shows "\<exists>m. buildMetric (rq_URLParam r ''id'') (rq_URLParam r ''mtype'') (rq_URLParam r ''value'') = Inr m \<and>
    type_free (m_MType m) (m_ID m) (view (srv_storage srv)) \<and>
    view (srv_storage srv') = spec_update m (view (srv_storage srv)) \<and> ok (srv_storage srv')"
proof (cases "buildMetric (rq_URLParam r ''id'') (rq_URLParam r ''mtype'') (rq_URLParam r ''value'')")
  case (Inl he)
  then have "he_StatusCode he = 400" by (cases rule: buildMetric_cases) auto
  then show ?thesis using Inl assms(3-5) by (auto simp: updateByPath_def Let_def)
next
  case (Inr m)
  obtain x srv1 where a: "AccumulateMetric ops (mh_aops mh) (mh_clock mh) m (extractRemoteIPAddress r) srv = (x, srv1)"
    by fastforce
  have "x = Done None \<and> srv1 = srv'"
    using assms(2-5) Inr a
    by (auto simp: updateByPath_def Let_def processUpdateMetric_def NewValidationHandlerError_def
        NewInternalServerError_def status_defs split: outcome.splits option.splits if_splits)
  then show ?thesis using Inr a accumulate_done [OF assms(1)] accumulate_ok [OF assms(1)] by blast
qed

lemma update_keeps_ok:
  assumes "ok (srv_storage srv)" and "mh_ops mh = ops"
  shows "ok (srv_storage (snd (snd (updateByPath mh r w srv))))"
proof (cases "buildMetric (rq_URLParam r ''id'') (rq_URLParam r ''mtype'') (rq_URLParam r ''value'')")
  case (Inl he)
  then show ?thesis using assms(1) by (simp add: updateByPath_def Let_def)
next
  case (Inr m)
  obtain x srv1 where a: "AccumulateMetric ops (mh_aops mh) (mh_clock mh) m (extractRemoteIPAddress r) srv = (x, srv1)"
    by fastforce
  then have "srv_storage (snd (snd (updateByPath mh r w srv))) = srv_storage srv1"
    using Inr assms(2)
    by (simp add: updateByPath_def Let_def processUpdateMetric_def split: outcome.split option.split)
  then show ?thesis using accumulate_ok [OF assms(1) a] by simp
qed

end

text \<open>The service after requests by path, one after the other.\<close>

definition after_requests :: "('s, 'a) metrics_handlers \<Rightarrow> request list \<Rightarrow> ('s, 'a) metrics_service \<Rightarrow> ('s, 'a) metrics_service" where
  "after_requests mh rs srv = fold (\<lambda>r srv. snd (snd (updateByPath mh r (ServerWriter new_writer) srv))) rs srv"

lemma after_requests_ok:
  "any_ok (srv_storage srv) \<Longrightarrow> mh_ops mh = any_ops \<Longrightarrow> any_ok (srv_storage (after_requests mh rs srv))"
  unfolding after_requests_def by (induction rs arbitrary: srv) (simp_all add: any.update_keeps_ok)

lemma subscribe_storage: "subscribe_auditors env cfg msrv = Done msrv' \<Longrightarrow> srv_storage msrv' = srv_storage msrv"
  by (auto simp: subscribe_auditors_def SubscribeAuditor_def split: if_splits outcome.splits)

lemma Run_start_cases:
  assumes "Run_start env = Done (Inr rn)"
  obtains cfg stor where "server_Read (se_config env) = Inr cfg"
    "InitializeStorage (se_migrate env) (ce_json_error (se_config env)) (se_disk env) cfg = Done (Inr stor)"
    "subscribe_auditors env (sv_AuditConfig cfg) (NewMetricsService stor) = Done (rn_service rn)"
    "NewMetricsHandlers (se_crypto env) (ce_ReadFile (se_config env)) any_ops (audit_ops (se_Post env)) (se_clock env)
       (ce_json_error (se_config env)) (sv_SecurityConfig cfg) = Inr (rn_handlers rn)"
proof -
  obtain cfg where r: "server_Read (se_config env) = Inr cfg"
    using assms by (cases "server_Read (se_config env)") (simp_all add: Run_start_def)
  have l: "se_NewZapLogger env (sv_LogLevel cfg) = None"
    using assms r by (cases "se_NewZapLogger env (sv_LogLevel cfg)") (simp_all add: Run_start_def)
  let ?init = "InitializeStorage (se_migrate env) (ce_json_error (se_config env)) (se_disk env) cfg"
  obtain x where x: "?init = Done x" using assms r l by (cases ?init) (simp_all add: Run_start_def)
  obtain stor where i: "?init = Done (Inr stor)" using assms r l x by (cases x) (simp_all add: Run_start_def)
  let ?sub = "subscribe_auditors env (sv_AuditConfig cfg) (NewMetricsService stor)"
  obtain msrv where s: "?sub = Done msrv" using assms r l i by (cases ?sub) (simp_all add: Run_start_def)
  let ?new = "NewMetricsHandlers (se_crypto env) (ce_ReadFile (se_config env)) any_ops (audit_ops (se_Post env)) (se_clock env)
       (ce_json_error (se_config env)) (sv_SecurityConfig cfg)"
  obtain mh where m: "?new = Inr mh" using assms r l i s by (cases ?new) (simp_all add: Run_start_def)
  have "rn_service rn = msrv" "rn_handlers rn = mh" using assms r l i s m by (auto simp: Run_start_def)
  then show thesis using that [OF r i] s m by simp
qed

lemma started:
  assumes "Run_start env = Done (Inr rn)" and "clean_database (se_migrate env)"
  shows "any_ok (srv_storage (rn_service rn))" "mh_ops (rn_handlers rn) = any_ops"
proof -
  obtain cfg stor where
    i: "InitializeStorage (se_migrate env) (ce_json_error (se_config env)) (se_disk env) cfg = Done (Inr stor)"
    and s: "subscribe_auditors env (sv_AuditConfig cfg) (NewMetricsService stor) = Done (rn_service rn)"
    and m: "NewMetricsHandlers (se_crypto env) (ce_ReadFile (se_config env)) any_ops (audit_ops (se_Post env)) (se_clock env)
       (ce_json_error (se_config env)) (sv_SecurityConfig cfg) = Inr (rn_handlers rn)"
    using assms(1) by (rule Run_start_cases)
  show "any_ok (srv_storage (rn_service rn))"
    using initialized(1) [OF i assms(2)] subscribe_storage [OF s] by (simp add: NewMetricsService_def)
  show "mh_ops (rn_handlers rn) = any_ops" using m
    by (auto simp: NewMetricsHandlers_def split: sum.splits if_splits) (metis metrics_handlers.select_convs(1))+
qed

section \<open>Closing the file storage\<close>

text \<open>What closing keeps, apart from the file.\<close>

definition saved :: "file_storage \<Rightarrow> file_storage \<Rightarrow> bool" where
  "saved st st1 \<longleftrightarrow> fst_MemStorage st1 = fst_MemStorage st \<and> fst_filename st1 = fst_filename st \<and>
     dk_writes (fst_disk st1) = []"

lemma close_saves:
  assumes "storable st" and "dk_writes (fst_disk st) = []"
  shows "\<exists>st1. close_storage (Filed st) = Filed st1 \<and> file_store st = (None, st1) \<and> saved st st1"
proof -
  obtain b where "serializeMetrics (mem_GetAllSorted (fst_MemStorage st)) = Inr b"
    using assms(1) serialize_read unfolding storable_def by blast
  then show ?thesis using assms(2)
    by (simp add: close_storage_def rewrap_def file_Close_def file_store_def os_WriteFile_def saved_def file_ops_def)
qed

section \<open>Properties of the server\<close>


text \<open>An environment with the default configuration, except for an audit file, and a disk and an audit
  file without faults.\<close>

definition test_config_env :: "server_config config_env" where
  "test_config_env = (plain_env server_slots)\<lparr>
     ce_env_Parse := (\<lambda>c. Inr (c\<lparr>sv_AuditConfig := (sv_AuditConfig c)\<lparr>au_AuditFilePath := ''audit''\<rparr>\<rparr>))\<rparr>"

definition test_env :: "(unit, unit, nat, unit) server_env" where
  "test_env = \<lparr>se_config = test_config_env, se_NewZapLogger = (\<lambda>level. None),
     se_migrate = \<lparr>me_iofs_New = None, me_NewWithSourceInstance = (\<lambda>u. None), me_Up = (\<lambda>u. None),
       me_pgxpool_New = (\<lambda>u. Inl (Foreign ''refused''))\<rparr>,
     se_disk = \<lparr>dk_files = [], dk_writes = []\<rparr>, se_crypto = test_crypto, se_clock = 5,
     se_Post = (\<lambda>u c b n. (None, n)), se_network = (), se_audit_file = ''old'', se_audit_faults = []\<rparr>"

definition test_running :: "unit running_server" where
  "test_running = \<lparr>
     rn_handlers = \<lparr>mh_ops = any_ops, mh_aops = audit_ops (se_Post test_env), mh_clock = 5, mh_SecretKey = [],
       mh_decrypter = engine_decrypter test_crypto (builder_Build (builder_PrivateKey None NewRSAEngineBuilder)),
       mh_json_error = ce_json_error test_config_env\<rparr>,
     rn_service = \<lparr>srv_storage = Memory NewMemStorage,
       srv_auditors = [FileAuditor \<lparr>fw_buf = [], fw_ticking = True, fw_filename = ''audit'', fw_file = ''old'', fw_faults = []\<rparr>]\<rparr>,
     rn_Addr = '':8080''\<rparr>"

lemma test_started: "Run_start test_env = Done (Inr test_running)"
proof -
  let ?given = "zero_server_config\<lparr>sv_AuditConfig := (sv_AuditConfig zero_server_config)\<lparr>au_AuditFilePath := ''audit''\<rparr>\<rparr>"
  let ?cfg = "server_NewDefaultConfig\<lparr>sv_AuditConfig := (sv_AuditConfig server_NewDefaultConfig)\<lparr>au_AuditFilePath := ''audit''\<rparr>\<rparr>"
  have "fill_empty server_slots ?given server_NewDefaultConfig = ?cfg"
    by (simp add: fill_empty_def fill_slot_def server_slots_def zero_server_config_def server_NewDefaultConfig_def)
  then have r: "server_Read (se_config test_env) = Inr ?cfg"
    by (simp add: server_Read_def read_config_def test_env_def test_config_env_def plain_env_def zero_server_config_def)
  have i: "InitializeStorage me je dk ?cfg = Done (Inr (Memory NewMemStorage))" for me je dk
    by (simp add: InitializeStorage_def database_IsSetUp_def file_IsSetUp_def server_NewDefaultConfig_def)
  have a: "sv_AuditConfig ?cfg = \<lparr>au_AuditFilePath = ''audit'', au_AuditFileWriteIntervalSec = 30, au_AuditURL = []\<rparr>"
    and c: "sv_SecurityConfig ?cfg = \<lparr>sc_SecretKey = [], sc_PrivateKeyPath = []\<rparr>" "trim_quotes (sv_Addr ?cfg) = '':8080''"
    by (simp_all add: server_NewDefaultConfig_def trim_quotes_def)
  have s: "subscribe_auditors test_env (sv_AuditConfig ?cfg) (NewMetricsService (Memory NewMemStorage)) =
      Done (rn_service test_running)"
    unfolding a by (simp add: subscribe_auditors_def NewFileWriter_def ticker_panics_def seconds_def SubscribeAuditor_def
        NewMetricsService_def test_env_def test_running_def)
  have m: "NewMetricsHandlers (se_crypto test_env) rf any_ops (audit_ops (se_Post test_env)) (se_clock test_env)
      (ce_json_error (se_config test_env)) (sv_SecurityConfig ?cfg) = Inr (rn_handlers test_running)" for rf
    unfolding c by (simp add: NewMetricsHandlers_def test_env_def test_running_def)
  have l: "se_NewZapLogger test_env level = None" for level by (simp add: test_env_def)
  show ?thesis
    by (simp only: Run_start_def r i s m l sum.case option.case outcome.case c(2)) (simp add: test_running_def)
qed

lemma test_clean: "clean_database (se_migrate test_env)"
  by (simp add: clean_database_def test_env_def)



lemma mem_GetAllSorted_new: "mem_GetAllSorted NewMemStorage = []"
  by (simp add: mem_GetAllSorted_def NewMemStorage_def)


text \<open>C29. The audit is only saved by a clean shutdown. When \<open>Shutdown\<close> succeeds, the file auditor is
  closed and its file has every event; when it fails, because requests are still running at the end of
  the grace period, \<open>Run\<close> returns before that and the events in the buffer are not in the file.\<close>

theorem shutdown_audit:
  assumes "srv_auditors msrv = [FileAuditor fw]" and "no_faults fw"
  shows "\<exists>fw'. srv_auditors (snd (Run_shutdown answer msrv)) = [FileAuditor fw'] \<and>
    (if answer = None then fw_file fw' = trail fw \<and> fw_buf fw' = [] else fw' = fw)"
proof (cases answer)
  case None
  have "no_faults (fw\<lparr>fw_ticking := False\<rparr>)" using assms(2) by (simp add: no_faults_def)
  from trail_flush [OF this] None assms(1) show ?thesis
    by (simp add: Run_shutdown_def close_writer_def fw_Close_def trail_def)
next
  case (Some err)
  then show ?thesis using assms(1) by (simp add: Run_shutdown_def)
qed

lemma shutdown_audit_witness:
  "\<exists>fw'. srv_auditors (snd (Run_shutdown (Some (Foreign ''context deadline exceeded'')) (rn_service test_running))) =
     [FileAuditor fw'] \<and> fw_buf fw' = []"
proof -
  let ?fw = "\<lparr>fw_buf = [], fw_ticking = True, fw_filename = ''audit'', fw_file = ''old'', fw_faults = []\<rparr>"
  have "srv_auditors (rn_service test_running) = [FileAuditor ?fw]" "no_faults ?fw"
    by (simp_all add: test_running_def no_faults_def)
  from shutdown_audit [OF this, of "Some (Foreign ''context deadline exceeded'')"] show ?thesis by simp
qed

text \<open>C13. A batch the database could not store is answered 200: the handler only looks for a type
  mismatch, and what any other error leaves is the answer of success with nothing stored, so that the
  agent drops its increments.\<close>

theorem failed_batch_answered_200:
  assumes "srv_storage srv = Postgres pgs" and "pg_ok pgs" and "mh_ops mh = any_ops" and "fresh w"
    and "rq_body r = Inr body" and "Unmarshal_list body = Some (map Some ms)" and "clean_batch ms"
    and "pg_BatchUpdate (map Some ms) pgs = (Done (Some e), pgs')" and "\<not> errors_is e ErrIncorrectAccess"
  shows "\<exists>w' srv'. updateBatch mh r w srv = (Done (), w', srv') \<and> status_of w' = 200 \<and>
    any_view (srv_storage srv') = any_view (srv_storage srv) \<and> srv_auditors srv' = srv_auditors srv"
  using assms pg_BatchUpdate_cases(4) [OF assms(2,7,8)]
  by (simp add: updateBatch_def BatchAccumulateMetrics_def rewrap_def status_defs)

text \<open>A database that has no connection left.\<close>

definition too_many_connections :: goerror where
  "too_many_connections = PgError ''53300'' ''FATAL: too many connections (SQLSTATE 53300)''"

lemma failed_batch_answered_200_witness:
  "\<exists>body w' srv'. Unmarshal_list body \<noteq> Some [] \<and> updateBatch (rn_handlers test_running)
      \<lparr>rq_header = [], rq_body = Inr body, rq_RemoteAddr = ''ip:1'', rq_URLParam = (\<lambda>p. [])\<rparr> (ServerWriter new_writer)
      \<lparr>srv_storage = Postgres (pg_test [] [Some (too_many_connections, False)]), srv_auditors = []\<rparr> = (Done (), w', srv') \<and>
    status_of w' = 200 \<and> any_view (srv_storage srv') ''c'' = None"
proof -
  let ?pgs = "pg_test [] [Some (too_many_connections, False)]"
  let ?m = "\<lparr>m_ID = ''c'', m_MType = ''counter'', m_Delta = Some 2, m_Value = None, m_Hash = []\<rparr>"
  have "valid_utf8 ''c''" "valid_utf8 ''counter''" by (rule valid_utf8_ascii; simp add: char_code_def)+
  then have en: "list_all encodable [?m]" by (simp add: encodable_def)
  obtain body where "Marshal_list (map Some [?m]) = Inr body"
      and u: "Unmarshal_list body = Some (map Some [?m])"
    using Unmarshal_Marshal_list [OF en] by (auto simp: without_hash_def)
  have "Unmarshal_list body \<noteq> Some []" using u by simp
  have ok: "pg_ok ?pgs" by (rule pg_ok_test) (simp_all add: table_ok_def too_many_connections_def)
  have c: "clean_batch [?m]" by (simp add: clean_batch_def well_formed_def one_type_per_id_def Counter_def)
  have "batchValidate (map Some [?m]) (pgs_conn ?pgs) =
      (Done (Some (errorf ''failed to get metric types: '' too_many_connections [])), (pgs_conn ?pgs)\<lparr>pg_faults := []\<rparr>)"
    by (simp add: batchValidate_def pg_exec_def pg_test_def NewPostgresDBStorage_def)
  then have b: "pg_BatchUpdate (map Some [?m]) ?pgs =
      (Done (Some (errorf ''failed to get metric types: '' too_many_connections [])), ?pgs\<lparr>pgs_conn := (pgs_conn ?pgs)\<lparr>pg_faults := []\<rparr>\<rparr>)"
    by (simp add: pg_BatchUpdate_def run_closure_def Run_def pg_test_retrier isPgErrorRetryable_def too_many_connections_def errorf_def)
  let ?srv = "\<lparr>srv_storage = Postgres ?pgs, srv_auditors = []\<rparr> :: (storage, unit auditor) metrics_service"
  let ?r = "\<lparr>rq_header = [], rq_body = Inr body, rq_RemoteAddr = ''ip:1'', rq_URLParam = (\<lambda>p. [])\<rparr>"
  have P: "fresh (ServerWriter new_writer)" "mh_ops (rn_handlers test_running) = any_ops" "srv_storage ?srv = Postgres ?pgs"
      "rq_body ?r = Inr body" "\<not> errors_is (errorf ''failed to get metric types: '' too_many_connections []) ErrIncorrectAccess"
    by (simp_all add: fresh_def new_writer_def test_running_def too_many_connections_def)
  obtain w' srv' where "updateBatch (rn_handlers test_running) ?r (ServerWriter new_writer) ?srv = (Done (), w', srv')"
      "status_of w' = 200" "any_view (srv_storage srv') = any_view (srv_storage ?srv)"
    using failed_batch_answered_200 [OF P(3) ok P(2,1,4) u c b P(5)] by blast
  moreover have "any_view (srv_storage ?srv) = (\<lambda>_. None)"
    by (simp add: pg_view_def table_view_def pg_test_def NewPostgresDBStorage_def fun_eq_iff)
  ultimately show ?thesis using \<open>Unmarshal_list body \<noteq> Some []\<close> by (intro exI [of _ body]) simp
qed

end
