(* ===== verification/Pipeline.thy ===== *)
theory Pipeline
  imports Sending Handlers
begin

text \<open>
  The two ends of a request together: what \<open>internal/agent/sending/rest.go\<close> encrypts, compresses
  and signs, the middlewares of \<open>internal/handler/handlers.go\<close> verify, decompress and decrypt in
  the opposite order. The lemmas: the secured routes are transparent to a handler that answers
  (the locale \<open>answering\<close>) for every request the sender makes, with the JSON text the sender
  started from as the body.
\<close>

section \<open>The whole chain of middlewares\<close>

lemma base_unwrap [simp]: "base (unwrap w) = base w"
  by (cases w) simp_all

lemma same_base:
  assumes "base v = base w"
  shows "status_of v = status_of w" "decoded_body lib v = decoded_body lib w" "body_of v = body_of w"
proof -
  have "Header v = Header w" using assms by (simp add: Header_base)
  then have "sent_header v = sent_header w" using assms by (cases "w_sent (base w)") (simp_all add: sent_header_def)
  then show "status_of v = status_of w" "decoded_body lib v = decoded_body lib w" "body_of v = body_of w"
    using assms by (simp_all add: status_of_def decoded_body_def body_of_def)
qed

text \<open>A request the authorization lets through: it carries no signature, or that of its body.\<close>

definition authorized :: "gostring \<Rightarrow> request \<Rightarrow> bool" where
  "authorized key r \<longleftrightarrow>
     (case GetSignature (rq_header r) of
        Inl e \<Rightarrow> False | Inr None \<Rightarrow> True
      | Inr (Some sign) \<Rightarrow> (case rq_body r of Inl e \<Rightarrow> False | Inr b \<Rightarrow> sign = calculateHash key b))"

lemma auth_passes: "authorized key r \<Longrightarrow> auth_Middleware (NewAuthorization key) next r w st = next r w st"
  by (cases r) (auto simp: authorized_def auth_Middleware_def NewAuthorization_def CheckSignature_def
      split: sum.splits option.splits)

lemma blank_answer:
  assumes "blank_writer v" and "blank_writer w"
  shows "status_of (respond a v) = status_of (respond a w)" "body_of (respond a v) = body_of (respond a w)"
  using respond_blank [OF assms(1), of a] respond_blank [OF assms(2), of a] by simp_all

lemma plain_transparent:
  assumes "answering h" and "blank_writer w" and "gzip_lawful lib"
    and "ReadRequestBody (cm_decompr (NewCompressing lib)) r = Inr body"
    and "h (r\<lparr>rq_body := Inr body\<rparr>) w st = (Done (), w1, st1)"
  shows "\<exists>w2. plainR lib h r w st = (Done (), w2, st1) \<and>
    status_of w2 = status_of w1 \<and> decoded_body lib w2 = Inr (body_of w1)"
proof -
  obtain x a st' where a: "\<And>w. h (r\<lparr>rq_body := Inr body\<rparr>) w st = (x, if x = Panic then w else respond a w, st')"
    using answering.answers [OF assms(1)] by (metis uniform_def)
  then have x: "x = Done ()" "w1 = respond a w" "st1 = st'" using assms(5) by auto
  let ?ew = "LoggedWriter w 0 0"
  have b: "blank_writer ?ew" using assms(2) by simp
  obtain w2 where w2: "compressing_Middleware (NewCompressing lib) h r ?ew st = (Done (), w2, st1)"
      "status_of w2 = status_of (respond a ?ew)" "decoded_body lib w2 = Inr (body_of (respond a ?ew))"
    using answering.compressing_transparent [OF assms(1) b assms(3,4)] a x by force
  then have "plainR lib h r w st = (Done (), unwrap w2, st1)"
    by (simp add: plainR_def logging_Middleware_def newEnrichedResponseWriter_def)
  then show ?thesis using w2 blank_answer [OF b assms(2), of a] x same_base [of "unwrap w2" w2] by auto
qed

lemma secure_transparent:
  assumes "answering h" and "blank_writer w" and "gzip_lawful lib" and "authorized (mh_SecretKey mh) r"
    and "ReadRequestBody (cm_decompr (NewCompressing lib)) r = Inr body"
    and "if dc_DecryptingEnabled (mh_decrypter mh) then dc_Decrypt (mh_decrypter mh) body = Done (Inr plain) else plain = body"
    and "h (r\<lparr>rq_body := Inr plain\<rparr>) w st = (Done (), w1, st1)"
  shows "\<exists>w2. secureR lib mh h r w st = (Done (), w2, st1) \<and>
    status_of w2 = status_of w1 \<and> decoded_body lib w2 = Inr (body_of w1)"
proof -
  let ?d = "decryption_Middleware (mh_decrypter mh) h"
  have "?d (r\<lparr>rq_body := Inr body\<rparr>) w st = (Done (), w1, st1)"
    using assms(6,7) by (simp add: decryption_Middleware_def split: if_splits)
  from plain_transparent [OF decryption_answering [OF assms(1)] assms(2,3,5) this]
  obtain w2 where "plainR lib ?d r w st = (Done (), w2, st1)"
      "status_of w2 = status_of w1" "decoded_body lib w2 = Inr (body_of w1)" by blast
  moreover have "secureR lib mh h r w st = plainR lib ?d r w st"
    by (simp add: secureR_def plainR_def logging_Middleware_def auth_passes [OF assms(4)])
  ultimately show ?thesis by simp
qed

section \<open>What the sender sends\<close>

text \<open>A server request that carries a client's: the body, and the headers the middlewares look at.\<close>

definition carries :: "client_request \<Rightarrow> request \<Rightarrow> bool" where
  "carries cr r \<longleftrightarrow> rq_body r = Inr (cr_Body cr) \<and>
     header_get (rq_header r) ''Content-Encoding'' = header_get (cr_Header cr) ''Content-Encoding'' \<and>
     header_get (rq_header r) SignHeader = header_get (cr_Header cr) SignHeader"

text \<open>The keys of the two ends: a key pair on both, or on none.\<close>

definition keys_agree :: "('pub, 'priv, 'e) crypto \<Rightarrow> ('pub, 'priv) rest_sender \<Rightarrow> decrypter \<Rightarrow> bool" where
  "keys_agree cp rs dec \<longleftrightarrow>
     (case en_publicKey (sr_encrypter rs) of
        None \<Rightarrow> \<not> dc_DecryptingEnabled dec
      | Some pub \<Rightarrow>
          (\<exists>engine priv. dec = engine_decrypter cp engine \<and> en_privateKey engine = Some priv \<and>
             key_pair cp pub priv \<and> en_label engine = en_label (sr_encrypter rs)))"

text \<open>The two ends are configured alike: gzip and random bytes are lawful, the secret key is the
  same, the sender compresses.\<close>

definition connected ::
    "('pub, 'priv, 'e) crypto \<Rightarrow> gzip_lib \<Rightarrow> ('pub, 'priv) rest_sender \<Rightarrow> ('s, 'a) metrics_handlers \<Rightarrow> bool" where
  "connected cp lib rs mh \<longleftrightarrow> gzip_lawful lib \<and> rand_lawful cp \<and> mh_SecretKey mh = sr_secretKey rs \<and>
     keys_agree cp rs (mh_decrypter mh) \<and> sr_cwe rs = Some (NewGzipWriteEngine lib)"

lemma gzip_WriteFlushed_lawful:
  assumes "gzip_lawful lib"
  shows "\<exists>b. gzip_WriteFlushed lib data 0 = Inr b \<and> gz_NewReader lib b = None \<and> gz_ReadAll lib b = Inr data"
proof -
  have "HuffmanOnly \<le> DefaultCompression" "DefaultCompression \<le> BestCompression"
    by (simp_all add: HuffmanOnly_def DefaultCompression_def BestCompression_def)
  then have "gz_NewReader lib (gzip_stream lib DefaultCompression [data]) = None"
      "gz_ReadAll lib (gzip_stream lib DefaultCompression [data]) = Inr data"
    using assms by (auto simp: gzip_lawful_def)
  moreover have "gzip_WriteFlushed lib data 0 = Inr (gzip_stream lib DefaultCompression [data])"
    by (simp add: gzip_WriteFlushed_def NewWriterLevel_def normalizeGzipLevel_def HuffmanOnly_def DefaultCompression_def
        BestCompression_def gzip_Write_def gzip_Close_def gzip_stream_def)
  ultimately show ?thesis by blast
qed

lemma secured_body_opens:
  assumes "secured_body cp rs prefix plain e = (Done (Inr body), e')" and "sr_cwe rs = Some (NewGzipWriteEngine lib)"
    and "gzip_lawful lib" and "rand_lawful cp" and "keys_agree cp rs dec" and "length plain \<le> gcm_max"
  obtains mid where "gzip_ReadAll lib (Inr body) = Inr mid"
    "if dc_DecryptingEnabled dec then dc_Decrypt dec mid = Done (Inr plain) else plain = mid"
proof -
  obtain mid where m: "(if EncryptingEnabled (sr_encrypter rs) then engine_Encrypt cp (sr_encrypter rs) plain e
      else (Done (Inr plain), e)) = (Done (Inr mid), e')" and z: "gzip_WriteFlushed lib mid 0 = Inr body"
    using assms(1,2) by (auto simp: secured_body_def NewGzipWriteEngine_def split: prod.splits outcome.splits sum.splits)
  have "gzip_ReadAll lib (Inr body) = Inr mid"
    using gzip_WriteFlushed_lawful [OF assms(3), of mid] z by (auto simp: gzip_ReadAll_def)
  moreover have "if dc_DecryptingEnabled dec then dc_Decrypt dec mid = Done (Inr plain) else plain = mid"
  proof (cases "en_publicKey (sr_encrypter rs)")
    case None
    then show ?thesis using m assms(5) by (simp add: EncryptingEnabled_def keys_agree_def)
  next
    case (Some pub)
    then obtain engine priv where k: "dec = engine_decrypter cp engine" "en_privateKey engine = Some priv"
        "key_pair cp pub priv" "en_label engine = en_label (sr_encrypter rs)"
      using assms(5) by (auto simp: keys_agree_def)
    have "engine_Encrypt cp (sr_encrypter rs) plain e = (Done (Inr mid), e')"
      using m Some by (simp add: EncryptingEnabled_def)
    then have "engine_Decrypt cp engine mid = Done (Inr plain)"
      using decrypted [OF assms(4) k(3) assms(6) Some k(2) k(4) [symmetric], of e] by simp
    then show ?thesis using k by (simp add: engine_decrypter_def DecryptingEnabled_def)
  qed
  ultimately show thesis by (rule that)
qed

lemma sent_headers [simp]:
  assumes "sr_cwe rs = Some (NewGzipWriteEngine lib)"
  shows "header_get (content_header rs) ''Content-Encoding'' = gzipEncoding"
    "header_get (AddSignature key body (content_header rs)) ''Content-Encoding'' = gzipEncoding"
    "header_get (content_header rs) SignHeader = []"
    "dict_get (content_header rs) (canonical_key SignHeader) = None"
  using assms
  by (simp_all add: content_header_def NewGzipWriteEngine_def gzip_SetContentEncoding_def Let_def AddSignature_def
      header_get_def header_add_def header_set_def update_conv')

lemma signature_of_header:
  "GetSignature h = GetSignature g" if "header_get h SignHeader = header_get g SignHeader"
  using that by (simp add: GetSignature_def)

text \<open>Both requests with a body pass the authorization, and their body decompresses.\<close>

lemma request_authorized:
  assumes "carries cr r" and "sr_cwe rs = Some (NewGzipWriteEngine lib)"
    and "cr = metric_request rs body \<or> cr = array_request rs body"
  shows "authorized (sr_secretKey rs) r"
    "ReadRequestBody (cm_decompr (NewCompressing lib)) r =
       (case gzip_ReadAll lib (Inr body) of
          Inl err \<Rightarrow> Inl (errorf ''can't decompress request body: '' err []) | Inr b \<Rightarrow> Inr b)"
proof -
  have b: "rq_body r = Inr body" and e: "header_get (rq_header r) ''Content-Encoding'' = gzipEncoding"
    using assms by (auto simp: carries_def metric_request_def array_request_def)
  have "GetSignature (rq_header r) = GetSignature (cr_Header cr)"
    using assms(1) by (intro signature_of_header) (simp add: carries_def)
  moreover have "cr_Header cr \<in> {AddSignature (sr_secretKey rs) body (content_header rs), content_header rs}"
    using assms(3) by (elim disjE) (simp_all add: metric_request_def array_request_def)
  moreover have "GetSignature (content_header rs) = Inr None"
    using sent_headers(3) [OF assms(2)] by (simp add: GetSignature_def)
  moreover have "GetSignature (AddSignature (sr_secretKey rs) body (content_header rs)) =
      (if sr_secretKey rs = [] then GetSignature (content_header rs) else Inr (Some (calculateHash (sr_secretKey rs) body)))"
    using GetSignature_Add [OF _ sent_headers(4) [OF assms(2)], of "sr_secretKey rs" body] by (simp add: AddSignature_def)
  ultimately have "GetSignature (rq_header r) \<in> {Inr None, Inr (Some (calculateHash (sr_secretKey rs) body))}"
    by (auto split: if_splits)
  then show "authorized (sr_secretKey rs) r" using b by (auto simp: authorized_def)
  show "ReadRequestBody (cm_decompr (NewCompressing lib)) r =
       (case gzip_ReadAll lib (Inr body) of
          Inl err \<Rightarrow> Inl (errorf ''can't decompress request body: '' err []) | Inr b \<Rightarrow> Inr b)"
    using b e by (simp add: ReadRequestBody_def NewCompressing_def NewGzipReadEngine_def checkContentEncoding_def)
qed

lemma request_passes:
  assumes "answering h" and "blank_writer w" and "connected cp lib rs mh" and "length plain \<le> gcm_max"
    and "secured_body cp rs prefix plain e = (Done (Inr body), e')"
    and "carries cr r" and "cr = metric_request rs body \<or> cr = array_request rs body"
    and "h (r\<lparr>rq_body := Inr plain\<rparr>) w st = (Done (), w1, st1)"
  shows "\<exists>w2. secureR lib mh h r w st = (Done (), w2, st1) \<and>
    status_of w2 = status_of w1 \<and> decoded_body lib w2 = Inr (body_of w1)"
proof -
  from assms(3) have l: "gzip_lawful lib" "rand_lawful cp" "mh_SecretKey mh = sr_secretKey rs" "keys_agree cp rs (mh_decrypter mh)"
      "sr_cwe rs = Some (NewGzipWriteEngine lib)" by (simp_all add: connected_def)
  obtain mid where m: "gzip_ReadAll lib (Inr body) = Inr mid"
      "if dc_DecryptingEnabled (mh_decrypter mh) then dc_Decrypt (mh_decrypter mh) mid = Done (Inr plain) else plain = mid"
    by (rule secured_body_opens [OF assms(5) l(5,1,2,4) assms(4)])
  note a = request_authorized [OF assms(6) l(5) assms(7)]
  have "authorized (mh_SecretKey mh) r" using a(1) l(3) by simp
  moreover have "ReadRequestBody (cm_decompr (NewCompressing lib)) r = Inr mid" using a(2) m(1) by simp
  ultimately show ?thesis by (rule secure_transparent [OF assms(1,2) l(1) _ _ m(2) assms(8)])
qed

section \<open>A server at the other end of the client\<close>

text \<open>The HTTP client and the server joined: the server's answer is the client's response; a handler
  that panics has its connection closed.\<close>

definition serve ::
    "gzip_lib \<Rightarrow> 't handler \<Rightarrow> gostring \<Rightarrow> client_request \<Rightarrow> 't \<Rightarrow> (goerror + response) \<times> 't" where
  "serve lib route addr cr st =
     (case route \<lparr>rq_header = cr_Header cr, rq_body = Inr (cr_Body cr), rq_RemoteAddr = addr, rq_URLParam = (\<lambda>_. [])\<rparr>
             (ServerWriter new_writer) st of
        (Done _, w, st') \<Rightarrow> (Inr \<lparr>rs_StatusCode = status_of w, rs_Body = decoded_body lib w\<rparr>, st')
      | (Panic, w, st') \<Rightarrow> (Inl (Foreign ''EOF''), st'))"

lemma serve_request:
  assumes "answering h" and "connected cp lib rs mh" and "length plain \<le> gcm_max"
    and "secured_body cp rs prefix plain e = (Done (Inr body), e')"
    and "cr = metric_request rs body \<or> cr = array_request rs body"
    and "h \<lparr>rq_header = cr_Header cr, rq_body = Inr plain, rq_RemoteAddr = addr, rq_URLParam = (\<lambda>_. [])\<rparr>
          (ServerWriter new_writer) st = (Done (), w1, st1)"
  shows "serve lib (secureR lib mh h) addr cr st =
    (Inr \<lparr>rs_StatusCode = status_of w1, rs_Body = Inr (body_of w1)\<rparr>, st1)"
proof -
  let ?r = "\<lparr>rq_header = cr_Header cr, rq_body = Inr (cr_Body cr), rq_RemoteAddr = addr, rq_URLParam = (\<lambda>_. [])\<rparr>"
  have c: "carries cr ?r" by (simp add: carries_def)
  have "h (?r\<lparr>rq_body := Inr plain\<rparr>) (ServerWriter new_writer) st = (Done (), w1, st1)" using assms(6) by simp
  from request_passes [OF assms(1) blank_ServerWriter assms(2-4) c assms(5) this]
  show ?thesis by (auto simp: serve_def)
qed

section \<open>A batch from the sender to the storage\<close>

text \<open>The hash is not sent, and updates do not look at it.\<close>

lemma without_hash_simps [simp]:
  "m_ID (without_hash m) = m_ID m" "m_MType (without_hash m) = m_MType m" "m_Delta (without_hash m) = m_Delta m"
  "m_Value (without_hash m) = m_Value m"
  by (simp_all add: without_hash_def)

lemma spec_update_without_hash [simp]: "spec_update (without_hash m) = spec_update m"
  by (simp add: spec_update_def fun_eq_iff split: option.split)

lemma fold_without_hash: "fold spec_update (map without_hash ms) = fold spec_update ms"
  by (induction ms) simp_all

lemma batch_without_hash [simp]:
  "clean_batch (map without_hash ms) = clean_batch ms" "batch_conflict (map without_hash ms) w = batch_conflict ms w"
  by (auto simp: clean_batch_def well_formed_def one_type_per_id_def list_all_iff batch_conflict_def)

lemma secured_no_panic:
  assumes "rand_lawful cp" and "length plain \<le> gcm_max"
  shows "fst (secured_body cp rs prefix plain e) \<noteq> Panic"
proof -
  have "fst (engine_Encrypt cp (sr_encrypter rs) plain e) \<noteq> Panic"
    by (rule aesEncrypt_cases [OF assms, of e])
      (auto simp: engine_Encrypt_def split: option.split prod.split sum.split)
  then show ?thesis by (auto simp: secured_body_def split: prod.splits outcome.splits sum.splits option.splits)
qed

context reliable_storage
begin

lemma batch_sent:
  assumes "connected cp lib rs mh" and "sr_retrier rs = NewExecutorBuilder p"
    and "ok (srv_storage srv)" and "mh_ops mh = ops" and "auditors_total (mh_aops mh)"
    and "clean_batch ms" and "list_all encodable ms"
    and "Marshal_list (map Some ms) = Inr plain" and "length plain \<le> gcm_max"
    and "secured_body cp rs ''can't write compressed metrics data: '' plain e = (Done (Inr body), e')"
    and "CheckURL (sr_addr rs @ ''/updates'') = None"
  shows "\<exists>x srv'. SendMetricArray cp CheckURL (serve lib (secureR lib mh (updateBatch mh)) addr) rs ms (e, srv) =
      (Done x, (e', srv')) \<and> ok (srv_storage srv') \<and>
    (if batch_conflict ms (view (srv_storage srv))
     then x \<noteq> None \<and> view (srv_storage srv') = view (srv_storage srv)
     else x = None \<and> view (srv_storage srv') = fold spec_update ms (view (srv_storage srv)))"
proof -
  let ?cr = "array_request rs body"
  let ?r = "\<lparr>rq_header = cr_Header ?cr, rq_body = Inr plain, rq_RemoteAddr = addr, rq_URLParam = (\<lambda>_. [])\<rparr>"
  have "Unmarshal_list plain = Some (map Some (map without_hash ms))"
    using Unmarshal_Marshal_list [OF assms(7)] assms(8) by (auto simp: comp_def)
  from update_batch [OF assms(3-5) _ _ this, of "ServerWriter new_writer" ?r]
  obtain w1 srv1 where u: "updateBatch mh ?r (ServerWriter new_writer) srv = (Done (), w1, srv1)"
      "ok (srv_storage srv1)"
      "if batch_conflict ms (view (srv_storage srv))
       then status_of w1 = 400 \<and> view (srv_storage srv1) = view (srv_storage srv)
       else status_of w1 = 200 \<and> view (srv_storage srv1) = fold spec_update ms (view (srv_storage srv))"
    using assms(6) by (auto simp: fresh_def new_writer_def fold_without_hash)
  have s: "serve lib (secureR lib mh (updateBatch mh)) addr ?cr srv =
      (Inr \<lparr>rs_StatusCode = status_of w1, rs_Body = Inr (body_of w1)\<rparr>, srv1)"
    by (rule serve_request [OF by_batch.answering_axioms assms(1,9,10) disjI2 [OF refl] u(1)])
  have "cr_URL ?cr = sr_addr rs @ ''/updates''" by (simp add: array_request_def)
  then show ?thesis using s u(2,3) assms(2,8,10,11)
    by (cases "batch_conflict ms (view (srv_storage srv))")
      (simp_all add: SendMetricArray_def post_def Run_def sendRequest_def status_defs NewExecutorBuilder_def Let_def)
qed

end

section \<open>Properties of the two ends together\<close>

text \<open>C3. The server undoes what the agent did to a body. A request with a body that the sender makes,
  with encryption or without, passes the secured route of a server with the same secret key and
  the private key to the agent's public one, and the route answers what its handler answers to
  the JSON text the sender started from.\<close>

theorem request_reaches_handler:
  assumes "answering h" and "blank_writer w" and "connected cp lib rs mh" and "length plain \<le> gcm_max"
    and "secured_body cp rs prefix plain e = (Done (Inr body), e')"
    and "carries cr r" and "cr = metric_request rs body \<or> cr = array_request rs body"
    and "h (r\<lparr>rq_body := Inr plain\<rparr>) w st = (Done (), w1, st1)"
  shows "\<exists>w2. secureR lib mh h r w st = (Done (), w2, st1) \<and>
    status_of w2 = status_of w1 \<and> decoded_body lib w2 = Inr (body_of w1)"
  by (rule request_passes [OF assms])

text \<open>A gzip that stores, a sender with a public key and a server with its private key.\<close>

lemma gzip_lawful_stored [simp]: "gzip_lawful stored_gzip"
proof -
  have "gzip_emitted stored_gzip level before bs = concat bs" for level before bs
    by (induction bs arbitrary: before) (simp_all add: stored_gzip_def)
  then show ?thesis by (simp add: gzip_lawful_def gzip_stream_def) (simp add: stored_gzip_def)
qed

definition test_sender :: "(unit, unit) rest_sender" where
  "test_sender = \<lparr>sr_addr = ''http://localhost:8080'', sr_secretKey = ''secret'',
     sr_encrypter = builder_Build (builder_PublicKey (Some ()) NewRSAEngineBuilder),
     sr_cwe = Some (NewGzipWriteEngine stored_gzip), sr_retrier = NewExecutorBuilder (NewLinearPolicy 3 1 2)\<rparr>"

definition test_server :: "(mem_storage, unit) metrics_handlers" where
  "test_server = \<lparr>mh_ops = mem_ops, mh_aops = null_auditor, mh_clock = 0, mh_SecretKey = ''secret'',
     mh_decrypter = engine_decrypter test_crypto (builder_Build (builder_PrivateKey (Some ()) NewRSAEngineBuilder)),
     mh_json_error = (\<lambda>_. ''bad JSON'')\<rparr>"

lemma test_ends [simp]:
  "connected test_crypto stored_gzip test_sender test_server" "sr_cwe test_sender = Some (NewGzipWriteEngine stored_gzip)"
  "mh_ops test_server = mem_ops" "mh_aops test_server = null_auditor"
  "sr_retrier test_sender = NewExecutorBuilder (NewLinearPolicy 3 1 2)"
  by (auto simp: connected_def test_sender_def test_server_def keys_agree_def builder_Build_def builder_PublicKey_def
      builder_PrivateKey_def NewRSAEngineBuilder_def)

lemma test_secured:
  assumes "length plain \<le> gcm_max"
  shows "\<exists>body e'. secured_body test_crypto test_sender prefix plain e = (Done (Inr body), e')"
proof -
  have "\<exists>mid e'. engine_Encrypt test_crypto (sr_encrypter test_sender) plain e = (Done (Inr mid), e')"
    using assms by (simp add: engine_Encrypt_def aesEncrypt_def generateRandomBytes_def test_crypto_def NewCipher_size
        gcm_Seal_def NonceSize_def aesKeySize_def Let_def test_sender_def builder_Build_def builder_PublicKey_def
        NewRSAEngineBuilder_def)
  then obtain mid e' where "engine_Encrypt test_crypto (sr_encrypter test_sender) plain e = (Done (Inr mid), e')" by blast
  moreover obtain b where "gzip_WriteFlushed stored_gzip mid 0 = Inr b"
    using gzip_WriteFlushed_lawful [OF gzip_lawful_stored] by blast
  moreover have "EncryptingEnabled (sr_encrypter test_sender)"
    by (simp add: EncryptingEnabled_def test_sender_def builder_Build_def builder_PublicKey_def)
  ultimately show ?thesis by (simp add: secured_body_def NewGzipWriteEngine_def)
qed

lemma request_reaches_handler_witness:
  "\<exists>body w2 srv2. secureR stored_gzip test_server (pingStorage test_server)
      \<lparr>rq_header = cr_Header (metric_request test_sender body), rq_body = Inr body, rq_RemoteAddr = [], rq_URLParam = (\<lambda>_. [])\<rparr>
      (ServerWriter new_writer) (NewMetricsService NewMemStorage) = (Done (), w2, srv2) \<and> status_of w2 = 200"
proof -
  have l: "length ''{}'' \<le> gcm_max" by (simp add: gcm_max_def)
  obtain body e' where b: "secured_body test_crypto test_sender [] ''{}'' 1 = (Done (Inr body), e')"
    using test_secured [OF l] by blast
  let ?r = "\<lparr>rq_header = cr_Header (metric_request test_sender body), rq_body = Inr body, rq_RemoteAddr = [], rq_URLParam = (\<lambda>_. [])\<rparr>"
  have c: "carries (metric_request test_sender body) ?r" by (simp add: carries_def metric_request_def)
  have "pingStorage test_server (?r\<lparr>rq_body := Inr ''{}''\<rparr>) (ServerWriter new_writer) (NewMetricsService NewMemStorage) =
      (Done (), WriteHeader 200 (ServerWriter new_writer), NewMetricsService NewMemStorage)"
    by (simp add: pingStorage_def PingStorage_def mem_Ping_def status_defs NewMetricsService_def)
  moreover have "status_of (WriteHeader 200 (ServerWriter new_writer)) = 200"
    by (rule status_of_WriteHeader) (simp add: fresh_def new_writer_def)
  ultimately show ?thesis
    using request_reaches_handler [OF ping.answering_axioms blank_ServerWriter test_ends(1) l b c disjI1 [OF refl]] by metis
qed

text \<open>C2. A batch is applied exactly once. When the agent sends a clean batch of metrics that JSON can
  carry, the request is made once whatever the retry policy: without a type conflict the server
  answers 200 and its storage is updated by the whole batch, otherwise it answers 400, which
  is not retried, the send fails and the storage is as before.\<close>

theorem batch_applied_once:
  assumes "connected cp lib rs mh" and "sr_retrier rs = NewExecutorBuilder p"
    and "mem_ok (srv_storage srv)" and "mh_ops mh = mem_ops" and "auditors_total (mh_aops mh)"
    and "clean_batch ms" and "list_all encodable ms"
    and "Marshal_list (map Some ms) = Inr plain" and "length plain \<le> gcm_max"
    and "secured_body cp rs ''can't write compressed metrics data: '' plain e = (Done (Inr body), e')"
    and "CheckURL (sr_addr rs @ ''/updates'') = None"
  shows "\<exists>x srv'. SendMetricArray cp CheckURL (serve lib (secureR lib mh (updateBatch mh)) addr) rs ms (e, srv) =
      (Done x, (e', srv')) \<and> mem_ok (srv_storage srv') \<and>
    (if batch_conflict ms (mem_view (srv_storage srv))
     then x \<noteq> None \<and> mem_view (srv_storage srv') = mem_view (srv_storage srv)
     else x = None \<and> mem_view (srv_storage srv') = fold spec_update ms (mem_view (srv_storage srv)))"
  by (rule mem.batch_sent) (fact assms)+

lemma batch_applied_once_witness:
  "\<exists>e' srv'. SendMetricArray test_crypto (\<lambda>_. None) (serve stored_gzip (secureR stored_gzip test_server (updateBatch test_server)) ''10.0.0.1:99'')
      test_sender [\<lparr>m_ID = ''c'', m_MType = Counter, m_Delta = Some 2, m_Value = None, m_Hash = []\<rparr>]
      (1, NewMetricsService NewMemStorage) = (Done None, (e', srv')) \<and>
    counter_of (mem_view (srv_storage srv')) ''c'' = 2"
proof -
  let ?ms = "[\<lparr>m_ID = ''c'', m_MType = Counter, m_Delta = Some 2, m_Value = None, m_Hash = []\<rparr>]"
  let ?srv = "NewMetricsService NewMemStorage :: (mem_storage, unit) metrics_service"
  have ok: "mem_ok (srv_storage ?srv)" "clean_batch ?ms" "\<not> batch_conflict ?ms (mem_view (srv_storage ?srv))"
    by (simp_all add: NewMetricsService_def clean_batch_def well_formed_def one_type_per_id_def batch_conflict_def type_free_def)
  have "valid_utf8 ''c''" "valid_utf8 Counter"
    by (rule valid_utf8_ascii; simp add: Counter_def char_code_def)+
  then have en: "list_all encodable ?ms" by (simp add: encodable_def)
  have "case Marshal_list (map Some ?ms) of Inl e \<Rightarrow> False | Inr plain \<Rightarrow> length plain < 100" by code_simp
  then obtain plain where p: "Marshal_list (map Some ?ms) = Inr plain" "length plain \<le> gcm_max"
    by (auto simp: gcm_max_def split: sum.splits)
  obtain body e' where b: "secured_body test_crypto test_sender ''can't write compressed metrics data: '' plain 1 = (Done (Inr body), e')"
    using test_secured [OF p(2)] by blast
  from batch_applied_once [OF test_ends(1) test_ends(5) ok(1) _ _ ok(2) en p b, of "\<lambda>_. None" "''10.0.0.1:99''"] ok(3)
  obtain srv' where "SendMetricArray test_crypto (\<lambda>_. None) (serve stored_gzip (secureR stored_gzip test_server (updateBatch test_server)) ''10.0.0.1:99'')
      test_sender ?ms (1, ?srv) = (Done None, (e', srv'))"
      and v: "mem_view (srv_storage srv') = fold spec_update ?ms (mem_view (srv_storage ?srv))" by auto
  moreover have "counter_of (mem_view (srv_storage srv')) ''c'' = 2"
    unfolding v counter_of_fold by (simp add: batch_sum_def counter_of_def NewMetricsService_def)
  ultimately show ?thesis by blast
qed

end
