(* ===== verification/Tools.thy ===== *)
theory Tools
  imports FileStorage Pipeline Reporting
begin

text \<open>
  \<open>cmd/tools\<close>: the generator of an RSA key pair (\<open>keygen\<close>) and the load generator (\<open>spammer\<close>) with
  its configuration. Making a key and encoding it are parameters; files are written to the disk of the
  file storage's model, and paths are joined as \<open>path/filepath\<close> does. The pseudo-random generator of the spammer
  is written out. The lemmas: generated keys connect an agent and a server, and what a spammer
  sends is a batch the server can apply.
\<close>

section \<open>Joining paths\<close>

text \<open>\<open>filepath.Clean\<close>: empty and dot elements go, a double dot takes the element before it.\<close>

fun clean_elements :: "bool \<Rightarrow> gostring list \<Rightarrow> gostring list \<Rightarrow> gostring list" where
  "clean_elements rooted out [] = out"
| "clean_elements rooted out (x # xs) =
     (if x = [] \<or> x = ''.'' then clean_elements rooted out xs
      else if x = ''..'' then
        (if out \<noteq> [] \<and> hd out \<noteq> ''..'' then clean_elements rooted (tl out) xs
         else if rooted then clean_elements rooted out xs
         else clean_elements rooted (x # out) xs)
      else clean_elements rooted (x # out) xs)"

fun join_slash :: "gostring list \<Rightarrow> gostring" where
  "join_slash [] = []"
| "join_slash [x] = x"
| "join_slash (x # xs) = x @ ''/'' @ join_slash xs"

definition filepath_Clean :: "gostring \<Rightarrow> gostring" where
  "filepath_Clean path =
     (let rooted = (path \<noteq> [] \<and> hd path = CHR ''/'');
          cleaned = (if rooted then ''/'' else []) @ join_slash (rev (clean_elements rooted [] (split_on (CHR ''/'') path)))
      in if cleaned = [] then ''.'' else cleaned)"

definition filepath_Join :: "gostring \<Rightarrow> gostring \<Rightarrow> gostring" where
  "filepath_Join dir name =
     (if dir = [] \<and> name = [] then []
      else if dir = [] then filepath_Clean name
      else if name = [] then filepath_Clean dir
      else filepath_Clean (dir @ ''/'' @ name))"

lemma filepath_Join_nonempty: "dir \<noteq> [] \<Longrightarrow> filepath_Join dir name \<noteq> []"
  by (simp add: filepath_Join_def filepath_Clean_def Let_def)

section \<open>The key generator\<close>

record ('pub, 'priv, 'e) keygen =
  kg_GenerateKey :: "int \<Rightarrow> 'e \<Rightarrow> (goerror + 'priv) \<times> 'e"
  kg_PublicKey :: "'priv \<Rightarrow> 'pub"
  kg_MarshalPKCS1PrivateKey :: "'priv \<Rightarrow> gostring"
  kg_MarshalPKCS1PublicKey :: "'pub \<Rightarrow> gostring"
  kg_pem_Encode :: "gostring \<Rightarrow> gostring \<Rightarrow> goerror + gostring"

definition generateKeyPair ::
    "('pub, 'priv, 'e) keygen \<Rightarrow> gostring \<Rightarrow> gostring \<Rightarrow> gostring \<Rightarrow> int \<Rightarrow> 'e \<times> disk \<Rightarrow> goerror option \<times> ('e \<times> disk)" where
  "generateKeyPair kg baseDir privateKeyName publicKeyName nBits = (\<lambda>(e, dk).
     case kg_GenerateKey kg nBits e of
       (Inl err, e) \<Rightarrow> (Some (errorf ''error generating RSA key pair: '' err []), (e, dk))
     | (Inr privateKey, e) \<Rightarrow>
         (case kg_pem_Encode kg ''RSA PRIVATE KEY'' (kg_MarshalPKCS1PrivateKey kg privateKey) of
            Inl err \<Rightarrow> (Some (errorf ''error encoding RSA private key: '' err []), (e, dk))
          | Inr privateKeyPem \<Rightarrow>
              (case kg_pem_Encode kg ''PUBLIC KEY'' (kg_MarshalPKCS1PublicKey kg (kg_PublicKey kg privateKey)) of
                 Inl err \<Rightarrow> (Some (errorf ''error encoding RSA public key: '' err []), (e, dk))
               | Inr publicKeyPem \<Rightarrow>
                   (case os_WriteFile (filepath_Join baseDir privateKeyName) privateKeyPem dk of
                      (Some err, dk) \<Rightarrow> (Some (errorf ''error writing RSA private key: '' err []), (e, dk))
                    | (None, dk) \<Rightarrow>
                        (case os_WriteFile (filepath_Join baseDir publicKeyName) publicKeyPem dk of
                           (Some err, dk) \<Rightarrow> (Some (errorf ''error writing RSA public key: '' err []), (e, dk))
                         | (None, dk) \<Rightarrow> (None, (e, dk)))))))"

text \<open>\<open>main\<close>: the base directory is the first argument, or the current one.\<close>

definition keygen_main ::
    "('pub, 'priv, 'e) keygen \<Rightarrow> gostring \<Rightarrow> gostring \<Rightarrow> int \<Rightarrow> gostring \<Rightarrow> 'e \<times> disk \<Rightarrow> goerror option \<times> ('e \<times> disk)" where
  "keygen_main kg privKeyName pubKeyName bits arg st =
     generateKeyPair kg (if arg = [] then ''.'' else arg) privKeyName pubKeyName bits st"

text \<open>What is relied on: PEM and PKCS1 read back what they wrote, and a generated key is a pair with
  its public part.\<close>

definition keygen_lawful :: "('pub, 'priv, 'e) crypto \<Rightarrow> ('pub, 'priv, 'e) keygen \<Rightarrow> bool" where
  "keygen_lawful cp kg \<longleftrightarrow>
     (\<forall>t b s. kg_pem_Encode kg t b = Inr s \<longrightarrow> cp_pem_Decode cp s = Some (t, b)) \<and>
     (\<forall>priv. cp_ParsePKCS1PrivateKey cp (kg_MarshalPKCS1PrivateKey kg priv) = Inr priv) \<and>
     (\<forall>pub. cp_ParsePKCS1PublicKey cp (kg_MarshalPKCS1PublicKey kg pub) = Inr pub) \<and>
     (\<forall>n e priv e'. kg_GenerateKey kg n e = (Inr priv, e') \<longrightarrow> key_pair cp (kg_PublicKey kg priv) priv)"

lemma WriteFile_done:
  "os_WriteFile name data dk = (None, dk') \<Longrightarrow> dk_files dk' = dict_put (dk_files dk) name data"
  by (auto simp: os_WriteFile_def split: list.splits option.splits prod.splits)

lemma generated_files:
  assumes "generateKeyPair kg dir privName pubName nBits (e, dk) = (None, (e', dk'))"
    and "filepath_Join dir privName \<noteq> filepath_Join dir pubName"
  obtains priv e1 privPem pubPem where "kg_GenerateKey kg nBits e = (Inr priv, e1)"
    "kg_pem_Encode kg privateKeyBlockType (kg_MarshalPKCS1PrivateKey kg priv) = Inr privPem"
    "kg_pem_Encode kg publicKeyBlockType (kg_MarshalPKCS1PublicKey kg (kg_PublicKey kg priv)) = Inr pubPem"
    "os_ReadFile (filepath_Join dir privName) dk' = Inr privPem"
    "os_ReadFile (filepath_Join dir pubName) dk' = Inr pubPem"
  using assms
  by (auto simp: generateKeyPair_def privateKeyBlockType_def publicKeyBlockType_def os_ReadFile_def dest!: WriteFile_done
      split: prod.splits sum.splits option.splits)

lemma generated_keys_read:
  assumes "keygen_lawful cp kg" and "generateKeyPair kg dir privName pubName nBits (e, dk) = (None, (e', dk'))"
    and "filepath_Join dir privName \<noteq> filepath_Join dir pubName"
  obtains pub priv where "key_pair cp pub priv"
    "ReadRSAPublicKeyFromFile cp (\<lambda>p. os_ReadFile p dk') (filepath_Join dir pubName) = Inr pub"
    "ReadRSAPrivateKeyFromFile cp (\<lambda>p. os_ReadFile p dk') (filepath_Join dir privName) = Inr priv"
proof -
  obtain priv e1 privPem pubPem where g: "kg_GenerateKey kg nBits e = (Inr priv, e1)"
    and p: "kg_pem_Encode kg privateKeyBlockType (kg_MarshalPKCS1PrivateKey kg priv) = Inr privPem"
      "kg_pem_Encode kg publicKeyBlockType (kg_MarshalPKCS1PublicKey kg (kg_PublicKey kg priv)) = Inr pubPem"
    and f: "os_ReadFile (filepath_Join dir privName) dk' = Inr privPem"
      "os_ReadFile (filepath_Join dir pubName) dk' = Inr pubPem"
    using generated_files [OF assms(2,3)] .
  have "cp_pem_Decode cp privPem = Some (privateKeyBlockType, kg_MarshalPKCS1PrivateKey kg priv)"
      "cp_pem_Decode cp pubPem = Some (publicKeyBlockType, kg_MarshalPKCS1PublicKey kg (kg_PublicKey kg priv))"
    and "key_pair cp (kg_PublicKey kg priv) priv"
    and "cp_ParsePKCS1PrivateKey cp (kg_MarshalPKCS1PrivateKey kg priv) = Inr priv"
      "cp_ParsePKCS1PublicKey cp (kg_MarshalPKCS1PublicKey kg (kg_PublicKey kg priv)) = Inr (kg_PublicKey kg priv)"
    using assms(1) p g unfolding keygen_lawful_def by blast+
  then show thesis using that [of "kg_PublicKey kg priv" priv] f
    by (simp add: ReadRSAPublicKeyFromFile_def ReadRSAPrivateKeyFromFile_def)
qed

section \<open>Properties of the tools\<close>

text \<open>C26. An agent and a server that are given the files the key generator wrote, and the same secret
  key, start and are connected: the server decrypts what the agent encrypts.\<close>

theorem generated_keys_connect:
  assumes "keygen_lawful cp kg" and "keygen_main kg privName pubName bits arg (e, dk) = (None, (e', dk'))"
    and "dir = (if arg = [] then ''.'' else arg)" and "filepath_Join dir privName \<noteq> filepath_Join dir pubName"
    and "rand_lawful cp" and "gzip_lawful lib" and "enrichServerAddress addr = Inr enriched"
  shows "\<exists>rs mh. NewRestSender cp (\<lambda>p. os_ReadFile p dk') lib addr retryPolicy key (filepath_Join dir pubName) = Inr rs \<and>
    NewMetricsHandlers cp (\<lambda>p. os_ReadFile p dk') ops aops clock json_error
      \<lparr>sc_SecretKey = key, sc_PrivateKeyPath = filepath_Join dir privName\<rparr> = Inr mh \<and>
    EncryptingEnabled (sr_encrypter rs) \<and> connected cp lib rs mh"
proof -
  have d: "dir \<noteq> []" using assms(3) by simp
  have g: "generateKeyPair kg dir privName pubName bits (e, dk) = (None, (e', dk'))"
    using assms(2,3) by (simp add: keygen_main_def)
  obtain pub priv where k: "key_pair cp pub priv"
    and r: "ReadRSAPublicKeyFromFile cp (\<lambda>p. os_ReadFile p dk') (filepath_Join dir pubName) = Inr pub"
      "ReadRSAPrivateKeyFromFile cp (\<lambda>p. os_ReadFile p dk') (filepath_Join dir privName) = Inr priv"
    using generated_keys_read [OF assms(1) g assms(4)] .
  let ?dec = "builder_Build (builder_PrivateKey (Some priv) NewRSAEngineBuilder)"
  have "keys_agree cp \<lparr>sr_addr = enriched, sr_secretKey = key,
      sr_encrypter = builder_Build (builder_PublicKey (Some pub) NewRSAEngineBuilder),
      sr_cwe = Some (NewGzipWriteEngine lib), sr_retrier = NewExecutorBuilder retryPolicy\<rparr> (engine_decrypter cp ?dec)"
    using k by (auto simp: keys_agree_def builder_Build_def builder_PublicKey_def builder_PrivateKey_def NewRSAEngineBuilder_def
        intro!: exI [of _ ?dec] exI [of _ priv])
  then show ?thesis using r assms(5-7) filepath_Join_nonempty [OF d]
    by (simp add: NewRestSender_def NewMetricsHandlers_def connected_def EncryptingEnabled_def builder_Build_def
        builder_PublicKey_def NewRSAEngineBuilder_def)
qed

text \<open>An encoding that writes the type, a bar and the bytes, for the witness.\<close>

definition bar_crypto :: "(unit, unit, nat) crypto" where
  "bar_crypto = test_crypto\<lparr>cp_pem_Decode := (\<lambda>s.
     case dropWhile (\<lambda>c. c \<noteq> CHR ''|'') s of [] \<Rightarrow> None | c # rest \<Rightarrow> Some (takeWhile (\<lambda>c. c \<noteq> CHR ''|'') s, rest))\<rparr>"

definition bar_keygen :: "(unit, unit, nat) keygen" where
  "bar_keygen = \<lparr>kg_GenerateKey = (\<lambda>n e. (Inr (), e)), kg_PublicKey = id,
     kg_MarshalPKCS1PrivateKey = (\<lambda>_. ''key''), kg_MarshalPKCS1PublicKey = (\<lambda>_. ''key''),
     kg_pem_Encode = (\<lambda>t b. if CHR ''|'' \<in> set t then Inl (Foreign ''pem'') else Inr (t @ CHR ''|'' # b))\<rparr>"

lemma bar_keygen_lawful: "keygen_lawful bar_crypto bar_keygen" "rand_lawful bar_crypto"
proof -
  have "key_pair bar_crypto () ()" using test_crypto_laws(2) by (simp add: key_pair_def bar_crypto_def)
  moreover have "dropWhile (\<lambda>c. c \<noteq> CHR ''|'') (t @ CHR ''|'' # b) = CHR ''|'' # b"
      "takeWhile (\<lambda>c. c \<noteq> CHR ''|'') (t @ CHR ''|'' # b) = t" if "CHR ''|'' \<notin> set t" for t b
    using that by (induction t) auto
  ultimately show "keygen_lawful bar_crypto bar_keygen"
    by (auto simp: keygen_lawful_def bar_keygen_def bar_crypto_def test_crypto_def split: if_splits)
  show "rand_lawful bar_crypto" using test_crypto_laws(1) by (simp add: rand_lawful_def bar_crypto_def)
qed

lemma generated_keys_connect_witness:
  "\<exists>dk' rs mh. keygen_main bar_keygen ''private.pem'' ''public.pem'' 2048 [] (0, \<lparr>dk_files = [], dk_writes = []\<rparr>) = (None, (0, dk')) \<and>
     NewRestSender bar_crypto (\<lambda>p. os_ReadFile p dk') stored_gzip '':8080'' NoRetryPolicy ''k'' ''public.pem'' = Inr rs \<and>
     NewMetricsHandlers bar_crypto (\<lambda>p. os_ReadFile p dk') mem_ops null_auditor 0 (\<lambda>_. [])
       \<lparr>sc_SecretKey = ''k'', sc_PrivateKeyPath = ''private.pem''\<rparr> = Inr mh \<and> connected bar_crypto stored_gzip rs mh"
proof -
  have j: "filepath_Join ''.'' ''private.pem'' = ''private.pem''" "filepath_Join ''.'' ''public.pem'' = ''public.pem''"
    by code_simp+
  obtain dk' where g: "keygen_main bar_keygen ''private.pem'' ''public.pem'' 2048 [] (0, \<lparr>dk_files = [], dk_writes = []\<rparr>) = (None, (0, dk'))"
    by (simp add: keygen_main_def generateKeyPair_def bar_keygen_def os_WriteFile_def)
  have a: "enrichServerAddress '':8080'' = Inr ''http://localhost:8080''" by code_simp
  have d: "''.'' = (if [] = [] then ''.'' else [])" by simp
  show ?thesis
    using generated_keys_connect [OF bar_keygen_lawful(1) g d _ bar_keygen_lawful(2) gzip_lawful_stored a,
        of NoRetryPolicy "''k''" mem_ops null_auditor 0 "\<lambda>_. []"] g
    unfolding j by auto
qed

section \<open>The spammer\<close>

text \<open>\<open>rand.PCG\<close> of \<open>math/rand/v2\<close>: a 128-bit linear congruential generator with the output
  permutation DXSM.\<close>

record pcg =
  pcg_hi :: "64 word"
  pcg_lo :: "64 word"

definition NewPCG :: "64 word \<Rightarrow> 64 word \<Rightarrow> pcg" where
  "NewPCG seed1 seed2 = \<lparr>pcg_hi = seed1, pcg_lo = seed2\<rparr>"

definition pcg_next :: "pcg \<Rightarrow> pcg" where
  "pcg_next p =
     (let state = (ucast (pcg_hi p) :: 128 word) * 2 ^ 64 + ucast (pcg_lo p);
          new = state * (2549297995355413924 * 2 ^ 64 + 4865540595714422341) +
                (6364136223846793005 * 2 ^ 64 + 1442695040888963407)
      in \<lparr>pcg_hi = ucast (drop_bit 64 new), pcg_lo = ucast new\<rparr>)"

definition pcg_Uint64 :: "pcg \<Rightarrow> 64 word \<times> pcg" where
  "pcg_Uint64 p =
     (let q = pcg_next p; hi = pcg_hi q; lo = pcg_lo q;
          hi = xor hi (drop_bit 32 hi);
          hi = hi * 0xda942042e4dd58b5;
          hi = xor hi (drop_bit 48 hi);
          hi = hi * (or lo 1)
      in (hi, q))"

record spammer_config =
  sp_URL :: gostring
  sp_NumWorkers :: int
  sp_BatchSize :: int
  sp_SendMetricsIntervalMs :: int
  sp_GetMetricsPageIntervalMs :: int

text \<open>The flags with their defaults.\<close>

definition spammer_bindFlags :: spammer_config where
  "spammer_bindFlags = \<lparr>sp_URL = ''http://localhost:8080'', sp_NumWorkers = 10, sp_BatchSize = 10,
     sp_SendMetricsIntervalMs = 500, sp_GetMetricsPageIntervalMs = 0\<rparr>"

definition generateMetric :: "pcg \<Rightarrow> metrics \<times> pcg" where
  "generateMetric rnd =
     (case pcg_Uint64 rnd of (n, rnd) \<Rightarrow>
        (case pcg_Uint64 rnd of (d, rnd) \<Rightarrow>
           (NewCounterMetricsWithDelta (''cnt_'' @ dec_string (unat n)) (d mod 100), rnd)))"

fun generate_metrics :: "nat \<Rightarrow> pcg \<Rightarrow> metrics list \<times> pcg" where
  "generate_metrics 0 rnd = ([], rnd)"
| "generate_metrics (Suc n) rnd =
     (case generateMetric rnd of (m, rnd) \<Rightarrow> (case generate_metrics n rnd of (ms, rnd) \<Rightarrow> (m # ms, rnd)))"

definition sendBatch :: "'n sender_ops \<Rightarrow> int \<Rightarrow> pcg \<times> 'n \<Rightarrow> goerror option \<times> (pcg \<times> 'n)" where
  "sendBatch sender batchSize = (\<lambda>(rnd, n).
     case generate_metrics (nat batchSize) rnd of (ms, rnd) \<Rightarrow>
       (case op_SendMetricArray sender ms n of (err, n) \<Rightarrow> (err, (rnd, n))))"

definition sendSingle :: "'n sender_ops \<Rightarrow> pcg \<times> 'n \<Rightarrow> goerror option \<times> (pcg \<times> 'n)" where
  "sendSingle sender = (\<lambda>(rnd, n).
     case generateMetric rnd of (m, rnd) \<Rightarrow> (case op_SendMetric sender m n of (err, n) \<Rightarrow> (err, (rnd, n))))"

text \<open>A worker until the context is done, which it looks at before each of its rounds; an error is
  only logged.\<close>

fun spam_worker :: "'n sender_ops \<Rightarrow> spammer_config \<Rightarrow> nat \<Rightarrow> pcg \<times> 'n \<Rightarrow> pcg \<times> 'n" where
  "spam_worker sender cfg 0 st = st"
| "spam_worker sender cfg (Suc rounds) st =
     spam_worker sender cfg rounds
       (snd (if 1 < sp_BatchSize cfg then sendBatch sender (sp_BatchSize cfg) st else sendSingle sender st))"

text \<open>What is spammed: counters with a delta below 100.\<close>

definition spam :: "metrics \<Rightarrow> bool" where
  "spam m \<longleftrightarrow> m_MType m = Counter \<and> m_Value m = None \<and> (\<exists>d. m_Delta m = Some d \<and> 0 \<le> sint d \<and> sint d < 100)"

lemma generateMetric_spec:
  "generateMetric rnd = (m, rnd') \<Longrightarrow> spam m"
proof -
  assume g: "generateMetric rnd = (m, rnd')"
  then obtain i d where m: "m = NewCounterMetricsWithDelta i (d mod 100)"
    by (auto simp: generateMetric_def split: prod.splits)
  have u: "uint (d mod 100) < 100" by (simp add: uint_mod)
  have "signed_take_bit (LENGTH(64) - Suc 0) (uint (d mod 100)) = uint (d mod 100)"
    by (rule signed_take_bit_int_eq_self, rule order_trans [of _ 0]) (use u in simp_all)
  then have "sint (d mod 100) = uint (d mod 100)" by (simp only: sint_uint)
  then show ?thesis using m u by (simp add: spam_def)
qed

lemma generate_metrics_spec:
  "generate_metrics n rnd = (ms, rnd') \<Longrightarrow> length ms = n \<and> list_all spam ms"
  by (induction n arbitrary: rnd ms rnd') (auto split: prod.splits dest: generateMetric_spec)

lemma spam_clean: "list_all spam ms \<Longrightarrow> clean_batch ms"
  by (simp add: clean_batch_def one_type_per_id_def well_formed_def list_all_iff spam_def) blast

text \<open>What a spammer sends is as many counters as configured, each with a delta from 0 to 99, and a
  batch that a storage without other types under its ids applies as a whole.\<close>

theorem spam_batch_bounds:
  assumes "generate_metrics (nat (sp_BatchSize cfg)) rnd = (ms, rnd')" and "0 \<le> sp_BatchSize cfg"
  shows "int (length ms) = sp_BatchSize cfg \<and> clean_batch ms \<and>
    list_all (\<lambda>m. m_MType m = Counter \<and> (\<exists>d. m_Delta m = Some d \<and> 0 \<le> sint d \<and> sint d < 100)) ms"
  using generate_metrics_spec [OF assms(1)] spam_clean assms(2) by (auto simp: list_all_iff spam_def)

lemma spam_batch_bounds_witness:
  "int (length (fst (generate_metrics 10 (NewPCG 1 2)))) = 10"
  using spam_batch_bounds [of spammer_bindFlags "NewPCG 1 2" "fst (generate_metrics 10 (NewPCG 1 2))"
      "snd (generate_metrics 10 (NewPCG 1 2))"] by (simp add: spammer_bindFlags_def del: generate_metrics.simps)

end
