(* ===== verification/Linter.thy ===== *)
theory Linter
  imports Compress
begin

text \<open>
  \<open>cmd/linter/noragequit\<close>: the analyzer that reports \<open>panic\<close> anywhere and \<open>os.Exit\<close>,
  \<open>log.Fatal\<close>, \<open>log.Fatalf\<close> outside the function \<open>main\<close> of the package \<open>main\<close>. \<open>visitor.go\<close> walks the
  syntax tree with a stack of its own, driven by \<open>ast.Inspect\<close>. The tree is modelled as far as the
  visitor looks at it. The lemmas: the walk with the stack reports exactly what a recursion over the
  declarations does, and which calls make the visitor panic.
\<close>

section \<open>The syntax tree\<close>

text \<open>The callee of a call: an identifier (with the import path where \<open>Uses\<close> resolves it to a
  package), a selector, a call, or anything else.\<close>

datatype callee =
    Ident gostring "gostring option"
  | SelectorExpr callee gostring
  | CallExpr callee
  | OtherExpr

text \<open>A node with its children in the order \<open>ast.Inspect\<close> visits them. A call has its position,
  a function declaration its name and whether it has a receiver.\<close>

datatype node =
    FileNode "node list"
  | FuncDecl gostring bool "node list"
  | CallNode callee nat "node list"
  | OtherNode "node list"

record go_file =
  gf_package :: gostring
  gf_children :: "node list"

record diagnostic =
  dg_Pos :: nat
  dg_Message :: gostring

section \<open>The visitor\<close>

record visitor =
  vs_nodeStack :: "node list"
  vs_isInMainPackage :: bool
  vs_isInMainFunc :: bool
  vs_issues :: "diagnostic list"

definition NewRageQuitVisitor :: visitor where
  "NewRageQuitVisitor = \<lparr>vs_nodeStack = [], vs_isInMainPackage = False, vs_isInMainFunc = False, vs_issues = []\<rparr>"

definition ProcessNextFile :: "go_file \<Rightarrow> visitor \<Rightarrow> visitor" where
  "ProcessNextFile f v = v\<lparr>vs_nodeStack := [], vs_isInMainPackage := (gf_package f = ''main''), vs_isInMainFunc := False\<rparr>"

text \<open>The stack, its newest node last.\<close>

definition pushNode :: "node \<Rightarrow> visitor \<Rightarrow> visitor" where
  "pushNode n v =
     (case n of
        FileNode ns \<Rightarrow> v
      | _ \<Rightarrow>
          (let v' = v\<lparr>vs_nodeStack := vs_nodeStack v @ [n]\<rparr>
           in if length (vs_nodeStack v') = 1 then
                (if \<not> vs_isInMainPackage v' then v'
                 else case n of
                   FuncDecl name recv ns \<Rightarrow>
                     if name = ''main'' \<and> \<not> recv then v'\<lparr>vs_isInMainFunc := True\<rparr> else v'
                 | _ \<Rightarrow> v')
              else v'))"

definition popNode :: "visitor \<Rightarrow> visitor" where
  "popNode v =
     (if length (vs_nodeStack v) = 0 then v
      else let v' = v\<lparr>vs_nodeStack := butlast (vs_nodeStack v)\<rparr>
           in if length (vs_nodeStack v') = 0 then v'\<lparr>vs_isInMainFunc := False\<rparr> else v')"

text \<open>A call whose callee is not a selector panics: the type assertion is not checked.\<close>

fun getResolvedSelectorName :: "callee \<Rightarrow> gostring \<Rightarrow> gostring outcome" where
  "getResolvedSelectorName (Ident name path) sel =
     Done ((case path of None \<Rightarrow> name | Some p \<Rightarrow> p) @ ''.'' @ sel)"
| "getResolvedSelectorName (SelectorExpr x s) sel =
     (case getResolvedSelectorName x s of Panic \<Rightarrow> Panic | Done q \<Rightarrow> Done (q @ ''.'' @ sel))"
| "getResolvedSelectorName (CallExpr (SelectorExpr x s)) sel =
     (case getResolvedSelectorName x s of Panic \<Rightarrow> Panic | Done q \<Rightarrow> Done (q @ ''.'' @ sel))"
| "getResolvedSelectorName (CallExpr _) sel = Panic"
| "getResolvedSelectorName OtherExpr sel = Done []"

definition rage_quits :: "gostring list" where
  "rage_quits = [''os.Exit'', ''log.Fatal'', ''log.Fatalf'']"

definition checkRageQuitSelector :: "callee \<Rightarrow> gostring \<Rightarrow> nat \<Rightarrow> visitor \<Rightarrow> unit outcome \<times> visitor" where
  "checkRageQuitSelector x sel pos v =
     (if vs_isInMainFunc v then (Done (), v)
      else case getResolvedSelectorName x sel of
        Panic \<Rightarrow> (Panic, v)
      | Done sname \<Rightarrow>
          (Done (),
           if sname \<in> set rage_quits
           then v\<lparr>vs_issues := vs_issues v @ [\<lparr>dg_Pos = pos, dg_Message = sname @ '' should not be called outside main function''\<rparr>]\<rparr>
           else v))"

definition checkPanic :: "gostring \<Rightarrow> nat \<Rightarrow> visitor \<Rightarrow> visitor" where
  "checkPanic name pos v =
     (if name = ''panic'' then v\<lparr>vs_issues := vs_issues v @ [\<lparr>dg_Pos = pos, dg_Message = ''panic should not be used''\<rparr>]\<rparr>
      else v)"

definition checkRageQuitCall :: "callee \<Rightarrow> nat \<Rightarrow> visitor \<Rightarrow> unit outcome \<times> visitor" where
  "checkRageQuitCall c pos v =
     (case c of
        SelectorExpr x sel \<Rightarrow> checkRageQuitSelector x sel pos v
      | Ident name path \<Rightarrow> (Done (), checkPanic name pos v)
      | _ \<Rightarrow> (Done (), v))"

text \<open>\<open>None\<close> is the nil node that ends the visit of a subtree.\<close>

definition InspectNode :: "node option \<Rightarrow> visitor \<Rightarrow> unit outcome \<times> visitor" where
  "InspectNode n v =
     (case n of
        None \<Rightarrow> (Done (), popNode v)
      | Some n \<Rightarrow>
          (case (case n of CallNode c pos ns \<Rightarrow> checkRageQuitCall c pos v | _ \<Rightarrow> (Done (), v)) of
             (Panic, v') \<Rightarrow> (Panic, v')
           | (Done _, v') \<Rightarrow> (Done (), pushNode n v')))"

text \<open>\<open>ast.Inspect\<close>: the node, its children, nil.\<close>

fun children :: "node \<Rightarrow> node list" where
  "children (FileNode ns) = ns"
| "children (FuncDecl name recv ns) = ns"
| "children (CallNode c pos ns) = ns"
| "children (OtherNode ns) = ns"

lemma size_list_children [termination_simp]: "size_list size (children n) < size n"
  by (cases n) auto

fun inspect :: "node \<Rightarrow> visitor \<Rightarrow> unit outcome \<times> visitor"
  and inspect_all :: "node list \<Rightarrow> visitor \<Rightarrow> unit outcome \<times> visitor" where
  "inspect n v =
     (case InspectNode (Some n) v of
        (Panic, v') \<Rightarrow> (Panic, v')
      | (Done _, v') \<Rightarrow>
          (case inspect_all (children n) v' of
             (Panic, v'') \<Rightarrow> (Panic, v'')
           | (Done _, v'') \<Rightarrow> InspectNode None v''))"
| "inspect_all [] v = (Done (), v)"
| "inspect_all (n # ns) v =
     (case inspect n v of (Panic, v') \<Rightarrow> (Panic, v') | (Done _, v') \<Rightarrow> inspect_all ns v')"

declare inspect.simps [simp del]

text \<open>The analyzer on the files of a package.\<close>

fun inspect_files :: "go_file list \<Rightarrow> visitor \<Rightarrow> unit outcome \<times> visitor" where
  "inspect_files [] v = (Done (), v)"
| "inspect_files (f # fs) v =
     (case inspect (FileNode (gf_children f)) (ProcessNextFile f v) of
        (Panic, v') \<Rightarrow> (Panic, v') | (Done _, v') \<Rightarrow> inspect_files fs v')"

definition nrqRun :: "gostring \<Rightarrow> go_file list \<Rightarrow> gostring \<Rightarrow> diagnostic list outcome" where
  "nrqRun pkgName files excludedPkgs =
     (if pkgName \<in> set (split_on (CHR '','') excludedPkgs) then Done []
      else case inspect_files files NewRageQuitVisitor of
        (Panic, v) \<Rightarrow> Panic | (Done _, v) \<Rightarrow> Done (vs_issues v))"

section \<open>What is reported\<close>

text \<open>The reference: the diagnostics of one call, of the calls of a tree in source order, and of a file
  declaration by declaration. \<open>in_main\<close> is whether the declaration is the function \<open>main\<close>.\<close>

definition call_issues :: "bool \<Rightarrow> callee \<Rightarrow> nat \<Rightarrow> diagnostic list outcome" where
  "call_issues in_main c pos =
     (case c of
        Ident name path \<Rightarrow>
          Done (if name = ''panic'' then [\<lparr>dg_Pos = pos, dg_Message = ''panic should not be used''\<rparr>] else [])
      | SelectorExpr x sel \<Rightarrow>
          if in_main then Done []
          else (case getResolvedSelectorName x sel of
                  Panic \<Rightarrow> Panic
                | Done q \<Rightarrow> Done (if q \<in> set rage_quits
                    then [\<lparr>dg_Pos = pos, dg_Message = q @ '' should not be called outside main function''\<rparr>] else []))
      | _ \<Rightarrow> Done [])"

definition then_issues :: "diagnostic list outcome \<Rightarrow> diagnostic list outcome \<Rightarrow> diagnostic list outcome" where
  "then_issues a b = (case a of Panic \<Rightarrow> Panic | Done xs \<Rightarrow> (case b of Panic \<Rightarrow> Panic | Done ys \<Rightarrow> Done (xs @ ys)))"

fun node_issues :: "bool \<Rightarrow> node \<Rightarrow> diagnostic list outcome"
  and nodes_issues :: "bool \<Rightarrow> node list \<Rightarrow> diagnostic list outcome" where
  "node_issues in_main n =
     then_issues (case n of CallNode c pos ns \<Rightarrow> call_issues in_main c pos | _ \<Rightarrow> Done [])
       (nodes_issues in_main (children n))"
| "nodes_issues in_main [] = Done []"
| "nodes_issues in_main (n # ns) = then_issues (node_issues in_main n) (nodes_issues in_main ns)"

declare node_issues.simps [simp del]

definition is_main_func :: "go_file \<Rightarrow> node \<Rightarrow> bool" where
  "is_main_func f n \<longleftrightarrow> gf_package f = ''main'' \<and>
     (case n of FuncDecl name recv ns \<Rightarrow> name = ''main'' \<and> \<not> recv | _ \<Rightarrow> False)"

text \<open>A declaration that is itself a call cannot be the function \<open>main\<close>.\<close>

fun decls_issues :: "go_file \<Rightarrow> node list \<Rightarrow> diagnostic list outcome" where
  "decls_issues f [] = Done []"
| "decls_issues f (n # ns) = then_issues (node_issues (is_main_func f n) n) (decls_issues f ns)"

fun files_issues :: "go_file list \<Rightarrow> diagnostic list outcome" where
  "files_issues [] = Done []"
| "files_issues (f # fs) = then_issues (decls_issues f (gf_children f)) (files_issues fs)"

text \<open>No file node below the root, as the parser makes trees.\<close>

fun no_file :: "node \<Rightarrow> bool" where
  "no_file (FileNode ns) \<longleftrightarrow> False"
| "no_file (FuncDecl name recv ns) \<longleftrightarrow> list_all no_file ns"
| "no_file (CallNode c pos ns) \<longleftrightarrow> list_all no_file ns"
| "no_file (OtherNode ns) \<longleftrightarrow> list_all no_file ns"

section \<open>The walk and the recursion agree\<close>

definition add_issues :: "diagnostic list \<Rightarrow> visitor \<Rightarrow> visitor" where
  "add_issues xs v = v\<lparr>vs_issues := vs_issues v @ xs\<rparr>"

lemma add_issues_simps [simp]:
  "vs_nodeStack (add_issues xs v) = vs_nodeStack v" "vs_isInMainFunc (add_issues xs v) = vs_isInMainFunc v"
  "vs_isInMainPackage (add_issues xs v) = vs_isInMainPackage v" "vs_issues (add_issues xs v) = vs_issues v @ xs"
  "add_issues [] v = v" "add_issues ys (add_issues xs v) = add_issues (xs @ ys) v"
  by (simp_all add: add_issues_def)

text \<open>\<open>reports f v xs\<close>: the step adds what the reference gives, or panics with it.\<close>

definition reports :: "(visitor \<Rightarrow> unit outcome \<times> visitor) \<Rightarrow> visitor \<Rightarrow> diagnostic list outcome \<Rightarrow> bool" where
  "reports f v r \<longleftrightarrow> (case r of Panic \<Rightarrow> fst (f v) = Panic | Done xs \<Rightarrow> f v = (Done (), add_issues xs v))"

lemma reports_call: "reports (checkRageQuitCall c pos) v (call_issues (vs_isInMainFunc v) c pos)"
  by (auto simp: reports_def checkRageQuitCall_def call_issues_def checkRageQuitSelector_def checkPanic_def add_issues_def
      split: callee.split outcome.split)

lemma reports_node_call:
  "reports (\<lambda>v. case n of CallNode c pos ns \<Rightarrow> checkRageQuitCall c pos v | _ \<Rightarrow> (Done (), v)) v
     (case n of CallNode c pos ns \<Rightarrow> call_issues (vs_isInMainFunc v) c pos | _ \<Rightarrow> Done [])"
  using reports_call by (auto simp: reports_def split: node.split)

lemma push_below:
  "vs_nodeStack v \<noteq> [] \<Longrightarrow> no_file n \<Longrightarrow> pushNode n v = v\<lparr>vs_nodeStack := vs_nodeStack v @ [n]\<rparr>"
  by (cases n) (simp_all add: pushNode_def Let_def)

lemma pop_below:
  "vs_nodeStack v \<noteq> [] \<Longrightarrow> popNode (add_issues xs (v\<lparr>vs_nodeStack := vs_nodeStack v @ [n]\<rparr>)) = add_issues xs v"
  by (simp add: popNode_def Let_def add_issues_def)

text \<open>A subtree: \<open>enter\<close> is the state its children are visited in, \<open>leave\<close> what popping restores.\<close>

lemma reports_subtree:
  assumes "\<And>w xs. w = pushNode n (add_issues xs v) \<Longrightarrow> reports (inspect_all (children n)) w (nodes_issues b (children n))"
    and "\<And>xs ys. popNode (add_issues ys (pushNode n (add_issues xs v))) = add_issues (xs @ ys) v"
    and "b = vs_isInMainFunc v \<or> (\<forall>c pos ns. n \<noteq> CallNode c pos ns)"
  shows "reports (inspect n) v (node_issues b n)"
proof -
  define r where "r = (case n of CallNode c pos ns \<Rightarrow> call_issues b c pos | _ \<Rightarrow> Done [])"
  have "r = (case n of CallNode c pos ns \<Rightarrow> call_issues (vs_isInMainFunc v) c pos | _ \<Rightarrow> Done [])"
    using assms(3) by (auto simp: r_def split: node.split)
  then have c: "reports (\<lambda>v. case n of CallNode c pos ns \<Rightarrow> checkRageQuitCall c pos v | _ \<Rightarrow> (Done (), v)) v r"
    using reports_node_call [of n v] by simp
  have n: "node_issues b n = then_issues r (nodes_issues b (children n))" by (simp add: node_issues.simps r_def)
  show ?thesis
  proof (cases r)
    case Panic
    then have "fst (InspectNode (Some n) v) = Panic" using c
      by (auto simp: reports_def InspectNode_def split: prod.splits outcome.splits)
    then show ?thesis using Panic n
      by (auto simp: reports_def then_issues_def inspect.simps split: prod.splits outcome.splits)
  next
    case (Done xs)
    then have i: "InspectNode (Some n) v = (Done (), pushNode n (add_issues xs v))" using c
      by (simp add: reports_def InspectNode_def)
    from assms(1) [OF refl, of xs] assms(2) [where xs = xs] i n Done show ?thesis
      by (cases "nodes_issues b (children n)")
        (auto simp: reports_def then_issues_def inspect.simps InspectNode_def [of None] split: prod.splits outcome.splits)
  qed
qed

lemma reports_Cons:
  assumes "reports (inspect n) v (node_issues b n)"
    and "\<And>xs. reports (inspect_all ns) (add_issues xs v) q"
  shows "reports (inspect_all (n # ns)) v (then_issues (node_issues b n) q)"
proof (cases "node_issues b n")
  case Panic
  then show ?thesis using assms(1) by (auto simp: reports_def then_issues_def split: prod.split outcome.split)
next
  case (Done xs)
  then show ?thesis using assms(1) assms(2) [of xs] by (cases q) (auto simp: reports_def then_issues_def)
qed

lemma no_file_children: "no_file n \<Longrightarrow> list_all no_file (children n)"
  by (cases n) simp_all

lemma reports_below:
  "vs_nodeStack v \<noteq> [] \<Longrightarrow> no_file n \<Longrightarrow> b = vs_isInMainFunc v \<Longrightarrow> reports (inspect n) v (node_issues b n)"
  "vs_nodeStack v \<noteq> [] \<Longrightarrow> list_all no_file ns \<Longrightarrow> b = vs_isInMainFunc v \<Longrightarrow> reports (inspect_all ns) v (nodes_issues b ns)"
proof (induction b n and b ns arbitrary: v and v rule: node_issues_nodes_issues.induct)
  case (1 b n)
  show ?case
  proof (rule reports_subtree)
    fix w xs
    assume "w = pushNode n (add_issues xs v)"
    then show "reports (inspect_all (children n)) w (nodes_issues b (children n))"
      using 1(2-4) no_file_children [of n] by (intro 1(1)) (simp_all add: push_below)
  qed (use 1 in \<open>simp_all add: push_below pop_below\<close>, simp add: popNode_def Let_def add_issues_def)
next
  case (3 b n ns)
  show ?case unfolding nodes_issues.simps
  proof (rule reports_Cons)
    show "reports (inspect n) v (node_issues b n)" using 3(3-5) by (intro 3(1)) simp_all
    show "reports (inspect_all ns) (add_issues xs v) (nodes_issues b ns)" for xs using 3(3-5) by (intro 3(2)) simp_all
  qed
qed (simp add: reports_def)

lemma push_top:
  assumes "vs_nodeStack v = []" and "no_file n" and "\<not> vs_isInMainFunc v"
    and "vs_isInMainPackage v = (gf_package f = ''main'')"
  shows "pushNode n v = v\<lparr>vs_nodeStack := [n], vs_isInMainFunc := is_main_func f n\<rparr>"
  using assms by (cases n; cases v) (auto simp: pushNode_def is_main_func_def Let_def)

lemma reports_decls:
  "vs_nodeStack v = [] \<Longrightarrow> \<not> vs_isInMainFunc v \<Longrightarrow> vs_isInMainPackage v = (gf_package f = ''main'') \<Longrightarrow>
   list_all no_file ns \<Longrightarrow> reports (inspect_all ns) v (decls_issues f ns)"
proof (induction ns arbitrary: v)
  case (Cons n ns)
  have "reports (inspect n) v (node_issues (is_main_func f n) n)"
  proof (rule reports_subtree)
    fix w xs
    assume "w = pushNode n (add_issues xs v)"
    then show "reports (inspect_all (children n)) w (nodes_issues (is_main_func f n) (children n))"
      using Cons.prems no_file_children [of n] by (intro reports_below(2)) (simp_all add: push_top)
  next
    fix xs ys
    show "popNode (add_issues ys (pushNode n (add_issues xs v))) = add_issues (xs @ ys) v"
      using Cons.prems by (cases v) (simp add: push_top popNode_def Let_def add_issues_def)
  next
    show "is_main_func f n = vs_isInMainFunc v \<or> (\<forall>c pos ns. n \<noteq> CallNode c pos ns)"
      using Cons.prems(2) by (cases n) (simp_all add: is_main_func_def)
  qed
  then have "reports (inspect_all (n # ns)) v (then_issues (node_issues (is_main_func f n) n) (decls_issues f ns))"
    using Cons by (intro reports_Cons) simp_all
  then show ?case by (simp only: decls_issues.simps)
qed (simp add: reports_def)

lemma reports_file:
  assumes "list_all no_file (gf_children f)"
  shows "case decls_issues f (gf_children f) of
      Panic \<Rightarrow> fst (inspect (FileNode (gf_children f)) (ProcessNextFile f v)) = Panic
    | Done xs \<Rightarrow> inspect (FileNode (gf_children f)) (ProcessNextFile f v) = (Done (), add_issues xs (ProcessNextFile f v))"
proof -
  have "reports (inspect_all (gf_children f)) (ProcessNextFile f v) (decls_issues f (gf_children f))"
    using assms by (intro reports_decls) (simp_all add: ProcessNextFile_def)
  moreover have "popNode (add_issues xs (ProcessNextFile f v)) = add_issues xs (ProcessNextFile f v)" for xs
    by (simp add: popNode_def ProcessNextFile_def)
  moreover have "InspectNode (Some (FileNode ns)) w = (Done (), w)" for ns w by (simp add: InspectNode_def pushNode_def)
  ultimately show ?thesis
    by (auto simp: reports_def inspect.simps InspectNode_def [of None] split: prod.splits outcome.splits)
qed

lemma reports_files:
  assumes "list_all (\<lambda>f. list_all no_file (gf_children f)) fs"
  shows "case files_issues fs of
      Panic \<Rightarrow> fst (inspect_files fs v) = Panic
    | Done xs \<Rightarrow> \<exists>v'. inspect_files fs v = (Done (), v') \<and> vs_issues v' = vs_issues v @ xs"
  using assms
proof (induction fs arbitrary: v)
  case (Cons f fs)
  show ?case
  proof (cases "decls_issues f (gf_children f)")
    case Panic
    then show ?thesis using reports_file [of f v] Cons.prems
      by (auto simp: then_issues_def split: prod.split outcome.split)
  next
    case (Done xs)
    then show ?thesis using reports_file [of f v] Cons.prems Cons.IH [of "add_issues xs (ProcessNextFile f v)"]
      by (cases "files_issues fs") (auto simp: then_issues_def ProcessNextFile_def)
  qed
qed simp

section \<open>Properties of the linter\<close>

text \<open>C20. The walk with the visitor's stack reports exactly what a recursion over the declarations of
  the files reports, in source order: every \<open>panic\<close>, and \<open>os.Exit\<close>, \<open>log.Fatal\<close>, \<open>log.Fatalf\<close> unless
  they are in the function \<open>main\<close>, without a receiver, of a package \<open>main\<close>.\<close>

theorem linter_equivalence:
  assumes "list_all (\<lambda>f. list_all no_file (gf_children f)) files" and "pkgName \<notin> set (split_on (CHR '','') excluded)"
  shows "nrqRun pkgName files excluded = files_issues files"
  using reports_files [OF assms(1), of NewRageQuitVisitor] assms(2)
  by (auto simp: nrqRun_def NewRageQuitVisitor_def split: outcome.splits prod.splits)

lemma linter_equivalence_witness:
  "nrqRun ''main'' [\<lparr>gf_package = ''main'', gf_children =
       [FuncDecl ''main'' False [CallNode (SelectorExpr (Ident ''os'' (Some ''os'')) ''Exit'') 10 []],
        FuncDecl ''f'' False [CallNode (SelectorExpr (Ident ''os'' (Some ''os'')) ''Exit'') 20 []]]\<rparr>] [] =
     Done [\<lparr>dg_Pos = 20, dg_Message = ''os.Exit should not be called outside main function''\<rparr>]"
proof -
  let ?fs = "[\<lparr>gf_package = ''main'', gf_children =
       [FuncDecl ''main'' False [CallNode (SelectorExpr (Ident ''os'' (Some ''os'')) ''Exit'') 10 []],
        FuncDecl ''f'' False [CallNode (SelectorExpr (Ident ''os'' (Some ''os'')) ''Exit'') 20 []]]\<rparr>]"
  have "''main'' \<notin> set (split_on (CHR '','') [])" by simp
  then have "nrqRun ''main'' ?fs [] = files_issues ?fs" by (intro linter_equivalence) simp_all
  also have "\<dots> = Done [\<lparr>dg_Pos = 20, dg_Message = ''os.Exit should not be called outside main function''\<rparr>]" by code_simp
  finally show ?thesis .
qed

text \<open>The analyzer itself panics on the call of a method of a function's result, as in
  \<open>newThing().Close()\<close>, wherever it is outside the function \<open>main\<close>: the callee of the inner call is an
  identifier, and the type assertion to a selector is not checked.\<close>

theorem linter_panics_on_chained_call:
  "nrqRun ''lib'' [\<lparr>gf_package = ''lib'', gf_children =
     [FuncDecl f recv [CallNode (SelectorExpr (CallExpr (Ident g path)) sel) pos []]]\<rparr>] [] = Panic"
  by (simp add: nrqRun_def ProcessNextFile_def NewRageQuitVisitor_def inspect.simps InspectNode_def pushNode_def
      checkRageQuitCall_def checkRageQuitSelector_def Let_def)

end
