(* ===== verification/Pool.thy ===== *)
theory Pool
  imports Prelude
begin

text \<open>
  \<open>internal/pool/resettables.go\<close>: a pool of objects that are reset when they are given back. The
  objects are pointers, so the heap is explicit: an address has a value, \<open>Reset\<close> changes the value at
  its address, and \<open>New\<close> allocates. Both operations hold the mutex and are atomic steps. The
  lemmas: while the users follow the discipline of a pool (no write to an object that was given
  back, nothing given back twice) every object that is handed out anew is in the reset state and
  belongs to no one else.
\<close>

section \<open>The heap and the pool\<close>

type_synonym addr = nat

record 'v heap =
  hp_values :: "addr \<Rightarrow> 'v"
  hp_next :: addr

text \<open>What the type \<open>T\<close> provides: its \<open>Reset\<close> and the function \<open>New\<close>, here by their effect on a value.\<close>

record 'v resettable =
  rs_Reset :: "'v \<Rightarrow> 'v"
  rs_New :: 'v

record 'v object_pool =
  op_free :: "addr list"
  op_type :: "'v resettable"

definition NewResettableObjectPool :: "'v resettable \<Rightarrow> 'v object_pool" where
  "NewResettableObjectPool newF = \<lparr>op_free = [], op_type = newF\<rparr>"

definition allocate :: "'v \<Rightarrow> 'v heap \<Rightarrow> addr \<times> 'v heap" where
  "allocate v h = (hp_next h, h\<lparr>hp_values := (hp_values h)(hp_next h := v), hp_next := Suc (hp_next h)\<rparr>)"

definition pool_Get :: "'v object_pool \<times> 'v heap \<Rightarrow> addr \<times> ('v object_pool \<times> 'v heap)" where
  "pool_Get = (\<lambda>(re, h).
     case op_free re of
       ptr # free \<Rightarrow> (ptr, (re\<lparr>op_free := free\<rparr>, h))
     | [] \<Rightarrow> (case allocate (rs_New (op_type re)) h of (ptr, h') \<Rightarrow> (ptr, (re, h'))))"

definition pool_Put :: "addr \<Rightarrow> 'v object_pool \<times> 'v heap \<Rightarrow> 'v object_pool \<times> 'v heap" where
  "pool_Put ptr = (\<lambda>(re, h).
     (re\<lparr>op_free := op_free re @ [ptr]\<rparr>,
      h\<lparr>hp_values := (hp_values h)(ptr := rs_Reset (op_type re) (hp_values h ptr))\<rparr>))"

section \<open>Users of the pool\<close>

text \<open>The users hold objects: they take one, write to one they hold, or give one back.\<close>

record 'v pool_state =
  ps_pool :: "'v object_pool"
  ps_heap :: "'v heap"
  ps_held :: "addr list"

inductive objects_step :: "'v pool_state \<Rightarrow> 'v pool_state \<Rightarrow> bool" where
  take_object: "pool_Get (ps_pool s, ps_heap s) = (ptr, (re, h)) \<Longrightarrow>
     objects_step s \<lparr>ps_pool = re, ps_heap = h, ps_held = ptr # ps_held s\<rparr>"
| write_object: "ptr \<in> set (ps_held s) \<Longrightarrow>
     objects_step s (s\<lparr>ps_heap := (ps_heap s)\<lparr>hp_values := (hp_values (ps_heap s))(ptr := v)\<rparr>\<rparr>)"
| give_back: "ptr \<in> set (ps_held s) \<Longrightarrow> pool_Put ptr (ps_pool s, ps_heap s) = (re, h) \<Longrightarrow>
     objects_step s \<lparr>ps_pool = re, ps_heap = h, ps_held = remove1 ptr (ps_held s)\<rparr>"

inductive objects_reach :: "'v pool_state \<Rightarrow> 'v pool_state \<Rightarrow> bool" where
  here: "objects_reach s s"
| later: "objects_reach s t \<Longrightarrow> objects_step t u \<Longrightarrow> objects_reach s u"

text \<open>A value \<open>Reset\<close> can leave.\<close>

definition is_reset :: "'v resettable \<Rightarrow> 'v \<Rightarrow> bool" where
  "is_reset ty v \<longleftrightarrow> v \<in> range (rs_Reset ty)"

definition objects_inv :: "'v resettable \<Rightarrow> 'v pool_state \<Rightarrow> bool" where
  "objects_inv ty s \<longleftrightarrow> op_type (ps_pool s) = ty \<and>
     distinct (op_free (ps_pool s) @ ps_held s) \<and>
     (\<forall>a \<in> set (op_free (ps_pool s) @ ps_held s). a < hp_next (ps_heap s)) \<and>
     (\<forall>a \<in> set (op_free (ps_pool s)). is_reset ty (hp_values (ps_heap s) a))"

lemma pool_Get_cases:
  assumes "objects_inv ty s" and "pool_Get (ps_pool s, ps_heap s) = (ptr, (re, h))"
  shows "objects_inv ty \<lparr>ps_pool = re, ps_heap = h, ps_held = ptr # ps_held s\<rparr>" "ptr \<notin> set (ps_held s)"
    "is_reset ty (hp_values h ptr) \<or> hp_values h ptr = rs_New ty"
proof -
  have "objects_inv ty \<lparr>ps_pool = re, ps_heap = h, ps_held = ptr # ps_held s\<rparr> \<and> ptr \<notin> set (ps_held s) \<and>
      (is_reset ty (hp_values h ptr) \<or> hp_values h ptr = rs_New ty)"
  proof (cases "op_free (ps_pool s)")
    case Nil
    have "hp_next (ps_heap s) \<notin> set (ps_held s)" using assms(1) by (auto simp: objects_inv_def)
    moreover have "a \<in> set (ps_held s) \<Longrightarrow> a < Suc (hp_next (ps_heap s))" for a
      using assms(1) by (auto simp: objects_inv_def less_Suc_eq)
    ultimately show ?thesis using assms Nil by (auto simp: objects_inv_def pool_Get_def allocate_def)
  next
    case (Cons p free)
    then show ?thesis using assms by (auto simp: objects_inv_def pool_Get_def)
  qed
  then show "objects_inv ty \<lparr>ps_pool = re, ps_heap = h, ps_held = ptr # ps_held s\<rparr>" "ptr \<notin> set (ps_held s)"
    "is_reset ty (hp_values h ptr) \<or> hp_values h ptr = rs_New ty" by blast+
qed

lemma objects_inv_step:
  assumes "objects_step s t" and "objects_inv ty s"
  shows "objects_inv ty t"
  using assms(1)
proof cases
  case (take_object ptr re h)
  then show ?thesis using pool_Get_cases(1) [OF assms(2)] by blast
next
  case (write_object ptr v)
  then have "ptr \<notin> set (op_free (ps_pool s))" using assms(2) by (auto simp: objects_inv_def)
  then show ?thesis using assms(2) write_object by (auto simp: objects_inv_def)
next
  case (give_back ptr re h)
  have d: "distinct (ps_held s)" using assms(2) by (simp add: objects_inv_def)
  have "is_reset ty (rs_Reset ty v)" for v by (simp add: is_reset_def)
  then show ?thesis using assms(2) give_back d by (auto simp: objects_inv_def pool_Put_def)
qed

lemma objects_inv_reach: "objects_reach s t \<Longrightarrow> objects_inv ty s \<Longrightarrow> objects_inv ty t"
  by (induction rule: objects_reach.induct) (auto intro: objects_inv_step)

definition new_pool_state :: "'v resettable \<Rightarrow> 'v heap \<Rightarrow> 'v pool_state" where
  "new_pool_state ty h = \<lparr>ps_pool = NewResettableObjectPool ty, ps_heap = h, ps_held = []\<rparr>"

lemma objects_inv_new: "objects_inv ty (new_pool_state ty h)"
  by (simp add: objects_inv_def new_pool_state_def NewResettableObjectPool_def)

section \<open>The property of the pool\<close>

text \<open>C24. In every reachable state, whatever the users have written to the objects they held, an
  object the pool hands out is held by no one else, and it is a new one or in the state its
  \<open>Reset\<close> left it in.\<close>

theorem pool_hands_out_reset:
  assumes "objects_reach (new_pool_state ty h) s" and "pool_Get (ps_pool s, ps_heap s) = (ptr, (re, h'))"
  shows "ptr \<notin> set (ps_held s) \<and> (is_reset ty (hp_values h' ptr) \<or> hp_values h' ptr = rs_New ty)"
  using pool_Get_cases(2,3) [OF objects_inv_reach [OF assms(1) objects_inv_new] assms(2)] by blast

lemma pool_hands_out_reset_witness:
  "\<exists>s re h'. objects_reach (new_pool_state \<lparr>rs_Reset = (\<lambda>_. 0), rs_New = 7\<rparr> \<lparr>hp_values = (\<lambda>_. 1), hp_next = 0\<rparr>) s \<and>
     pool_Get (ps_pool s, ps_heap s) = (0, (re, h')) \<and> hp_values h' 0 = (0 :: nat)"
proof -
  let ?ty = "\<lparr>rs_Reset = (\<lambda>_. 0), rs_New = 7\<rparr> :: nat resettable"
  let ?h = "\<lparr>hp_values = (\<lambda>_. 1), hp_next = 0\<rparr> :: nat heap"
  let ?s0 = "new_pool_state ?ty ?h"
  have "fst (pool_Get (ps_pool ?s0, ps_heap ?s0)) = 0" "op_free (fst (snd (pool_Get (ps_pool ?s0, ps_heap ?s0)))) = []"
      "op_type (fst (snd (pool_Get (ps_pool ?s0, ps_heap ?s0)))) = ?ty"
    by (simp_all add: new_pool_state_def NewResettableObjectPool_def pool_Get_def allocate_def)
  then obtain re1 h1 where g: "pool_Get (ps_pool ?s0, ps_heap ?s0) = (0, (re1, h1))" "op_free re1 = []" "op_type re1 = ?ty"
    by (metis prod.collapse)
  let ?s1 = "\<lparr>ps_pool = re1, ps_heap = h1, ps_held = [0]\<rparr>"
  have s1: "objects_step ?s0 ?s1" using take_object [OF g(1)] by (simp add: new_pool_state_def)
  obtain re2 h2 where p: "pool_Put 0 (ps_pool ?s1, ps_heap ?s1) = (re2, h2)" by fastforce
  let ?s2 = "\<lparr>ps_pool = re2, ps_heap = h2, ps_held = []\<rparr>"
  have "objects_step ?s1 ?s2" using give_back [of 0 ?s1, OF _ p] by simp
  then have r: "objects_reach ?s0 ?s2" using here later s1 by metis
  obtain re3 h3 where g3: "pool_Get (ps_pool ?s2, ps_heap ?s2) = (0, (re3, h3))" "hp_values h3 0 = 0"
    using p g(2,3) by (auto simp: pool_Put_def pool_Get_def)
  from pool_hands_out_reset [OF r g3(1)] g3(2) r g3(1) show ?thesis by blast
qed

end
