(* ===== verification/ResetTool.thy ===== *)
theory ResetTool
  imports Prelude
begin

text \<open>
  \<open>cmd/reset/visitor.go\<close>: the generator of \<open>Reset\<close> methods. It looks for type declarations with the
  comment \<open>// generate:reset\<close>, writes one statement for each field of the struct, and renders a file
  from a template. The syntax tree and the types are modelled as far as the tool looks at them;
  the formatter of \<open>go/format\<close> and the file system are parameters. The lemmas say what is generated
  for which fields, and which are forgotten.
\<close>

section \<open>Declarations and types\<close>

datatype basic_kind = BoolKind | StringKind | NumericKind

datatype go_type =
    Basic basic_kind
  | SliceType
  | MapType
  | NamedType
  | PointerTo go_type
  | OtherType

text \<open>A field of the syntax tree can declare several names, or none when it is embedded.\<close>

record field =
  fd_Names :: "gostring list"
  fd_Type :: go_type

datatype type_expr = StructType "field list" | OtherTypeExpr

datatype spec = TypeSpec gostring type_expr | OtherSpec

record gen_decl =
  gd_isType :: bool
  gd_Doc :: "gostring list option"
  gd_Specs :: "spec list"

datatype decl = GenDecl gen_decl | OtherDecl

record struct_data =
  sd_Name :: gostring
  sd_FieldResetExprs :: "gostring list"

record package_visitor =
  pv_PkgName :: gostring
  pv_PkgDir :: gostring
  pv_Structs :: "struct_data list"

definition NewPackageVisitor :: "gostring \<Rightarrow> gostring \<Rightarrow> package_visitor" where
  "NewPackageVisitor pkgName pkgDir = \<lparr>pv_PkgName = pkgName, pv_PkgDir = pkgDir, pv_Structs = []\<rparr>"

section \<open>The statements\<close>

definition dq :: gostring where
  "dq = [CHR 0x22]"

definition newline :: gostring where
  "newline = [CHR 0x0A]"

text \<open>The receiver of the generated method is \<open>s\<close>.\<close>

fun generateResetExpr :: "gostring \<Rightarrow> go_type \<Rightarrow> gostring \<Rightarrow> gostring" where
  "generateResetExpr name (Basic k) prefix =
     prefix @ ''s.'' @ name @ '' = '' @ (case k of BoolKind \<Rightarrow> ''false'' | StringKind \<Rightarrow> dq @ dq | NumericKind \<Rightarrow> ''0'')"
| "generateResetExpr name SliceType prefix = prefix @ ''s.'' @ name @ '' = s.'' @ name @ ''[:0]''"
| "generateResetExpr name MapType prefix = ''clear('' @ prefix @ ''s.'' @ name @ '')''"
| "generateResetExpr name NamedType prefix =
     ''if resetter, ok := '' @ prefix @ ''s.'' @ name @ ''.(interface{ Reset() }); ok && '' @ prefix @ ''s.'' @ name @
     '' != nil {'' @ newline @ ''resetter.Reset()'' @ newline @ ''}''"
| "generateResetExpr name (PointerTo t) prefix =
     (let subExpr = generateResetExpr name t (''*'' @ prefix)
      in if subExpr \<noteq> [] then
           ''if '' @ prefix @ ''s.'' @ name @ '' != nil {'' @ newline @ subExpr @ newline @ ''}''
         else [])"
| "generateResetExpr name OtherType prefix = []"

text \<open>\<open>field.Names[0]\<close> of an embedded field is out of range.\<close>

definition generateResetExprForField :: "field \<Rightarrow> gostring outcome" where
  "generateResetExprForField f =
     (case fd_Names f of [] \<Rightarrow> Panic | name # _ \<Rightarrow> Done (generateResetExpr name (fd_Type f) []))"

fun reset_exprs :: "field list \<Rightarrow> gostring list outcome" where
  "reset_exprs [] = Done []"
| "reset_exprs (f # fs) =
     (case generateResetExprForField f of
        Panic \<Rightarrow> Panic
      | Done e \<Rightarrow> (case reset_exprs fs of Panic \<Rightarrow> Panic | Done es \<Rightarrow> Done (e # es)))"

definition resettableStructComment :: gostring where
  "resettableStructComment = ''// generate:reset''"

definition declHasResetComment :: "gen_decl \<Rightarrow> bool" where
  "declHasResetComment d =
     (case gd_Doc d of None \<Rightarrow> False | Some cs \<Rightarrow> list_ex (\<lambda>c. c = resettableStructComment) cs)"

text \<open>The first struct of the declaration is taken.\<close>

fun first_struct :: "spec list \<Rightarrow> struct_data option outcome" where
  "first_struct [] = Done None"
| "first_struct (TypeSpec name (StructType fs) # specs) =
     (case reset_exprs fs of
        Panic \<Rightarrow> Panic
      | Done es \<Rightarrow> Done (Some \<lparr>sd_Name = name, sd_FieldResetExprs = es\<rparr>))"
| "first_struct (_ # specs) = first_struct specs"

definition getResettableStructFromDecl :: "gen_decl \<Rightarrow> struct_data option outcome" where
  "getResettableStructFromDecl d =
     (if \<not> gd_isType d then Done None
      else if \<not> declHasResetComment d then Done None
      else first_struct (gd_Specs d))"

definition InspectDecl :: "decl \<Rightarrow> package_visitor \<Rightarrow> unit outcome \<times> package_visitor" where
  "InspectDecl d v =
     (case d of
        OtherDecl \<Rightarrow> (Done (), v)
      | GenDecl g \<Rightarrow>
          (case getResettableStructFromDecl g of
             Panic \<Rightarrow> (Panic, v)
           | Done None \<Rightarrow> (Done (), v)
           | Done (Some sd) \<Rightarrow> (Done (), v\<lparr>pv_Structs := pv_Structs v @ [sd]\<rparr>)))"

section \<open>The file\<close>

definition indented :: "nat \<Rightarrow> gostring" where
  "indented k = newline @ replicate k (CHR 0x09)"

definition render_struct :: "struct_data \<Rightarrow> gostring" where
  "render_struct sd =
     newline @ ''func (s *'' @ sd_Name sd @ '') Reset() {'' @ indented 1 @ ''if s == nil {'' @ indented 2 @ ''return'' @
     indented 1 @ ''}'' @ indented 1 @ concat (map (\<lambda>e. newline @ ''    '' @ e) (sd_FieldResetExprs sd)) @
     newline @ ''}'' @ newline @ newline"

definition render_resets :: "package_visitor \<Rightarrow> gostring" where
  "render_resets v =
     newline @ ''// Code generated by go generate; DO NOT EDIT.'' @ newline @
     ''// This file was generated by reset tool'' @ newline @ newline @
     ''package '' @ pv_PkgName v @ newline @ newline @ concat (map render_struct (pv_Structs v)) @ newline"

text \<open>\<open>Format\<close> is \<open>format.Source\<close>, \<open>Join\<close> is \<open>filepath.Join\<close>, \<open>WriteFile\<close> works on the state of the disk.\<close>

definition GenerateResetMethodsFile ::
    "(gostring \<Rightarrow> goerror + gostring) \<Rightarrow> (gostring \<Rightarrow> gostring \<Rightarrow> gostring)
      \<Rightarrow> (gostring \<Rightarrow> gostring \<Rightarrow> 'd \<Rightarrow> goerror option \<times> 'd) \<Rightarrow> package_visitor \<Rightarrow> 'd \<Rightarrow> goerror option \<times> 'd" where
  "GenerateResetMethodsFile Format Join WriteFile v d =
     (if length (pv_Structs v) = 0 then (None, d)
      else case Format (render_resets v) of
        Inl err \<Rightarrow> (Some (errorf ''error formatting generated reset package template: '' err []), d)
      | Inr src \<Rightarrow>
          (case WriteFile (Join (pv_PkgDir v) ''reset.gen.go'') src d of
             (Some err, d') \<Rightarrow> (Some (errorf ''error writing reset.gen.go file: '' err []), d')
           | (None, d') \<Rightarrow> (None, d')))"

fun inspect_decls :: "decl list \<Rightarrow> package_visitor \<Rightarrow> unit outcome \<times> package_visitor" where
  "inspect_decls [] v = (Done (), v)"
| "inspect_decls (d # ds) v =
     (case InspectDecl d v of (Panic, v') \<Rightarrow> (Panic, v') | (Done _, v') \<Rightarrow> inspect_decls ds v')"

definition ProcessPackage ::
    "(gostring \<Rightarrow> goerror + gostring) \<Rightarrow> (gostring \<Rightarrow> gostring \<Rightarrow> gostring)
      \<Rightarrow> (gostring \<Rightarrow> gostring \<Rightarrow> 'd \<Rightarrow> goerror option \<times> 'd) \<Rightarrow> gostring \<Rightarrow> gostring \<Rightarrow> decl list list \<Rightarrow> 'd
      \<Rightarrow> goerror option outcome \<times> 'd" where
  "ProcessPackage Format Join WriteFile pkgName pkgDir files d =
     (case inspect_decls (concat files) (NewPackageVisitor pkgName pkgDir) of
        (Panic, v) \<Rightarrow> (Panic, d)
      | (Done _, v) \<Rightarrow> (case GenerateResetMethodsFile Format Join WriteFile v d of (r, d') \<Rightarrow> (Done r, d')))"

section \<open>What is generated\<close>

text \<open>The fields of a struct as the tool sees them: the first name of each.\<close>

definition named_fields :: "field list \<Rightarrow> bool" where
  "named_fields fs \<longleftrightarrow> list_all (\<lambda>f. fd_Names f \<noteq> []) fs"

lemma reset_exprs_cases:
  "reset_exprs fs = (if named_fields fs then Done (map (\<lambda>f. generateResetExpr (hd (fd_Names f)) (fd_Type f) []) fs) else Panic)"
  by (induction fs) (auto simp: named_fields_def generateResetExprForField_def split: list.split)



end
