(* ===== verification/Spec2Isabelle.thy ===== *)
theory Spec2Isabelle
  imports AgentRun Server Tools Linter Pool ResetTool
begin

text \<open>
  A model of metrics-overseer: an agent that polls runtime metrics and reports them over HTTP to
  a server that accumulates them, in Go under \<open>cmd\<close>, \<open>internal\<close> and \<open>migrations\<close>.

  What the code uses of the standard library, executable.
  \<^item> \<open>Prelude\<close>: the errors of the code (sentinels, wrapping by \<open>%w\<close>, \<open>errors.Is\<close>), a Go map with
    string keys as an association list with distinct keys, panics as the value \<open>Panic\<close> of
    \<open>outcome\<close>, durations. \<open>GoFloat\<close> and \<open>GoStrconv\<close>: IEEE doubles as 64-bit patterns and \<open>strconv\<close>.
    \<open>GoDigest\<close>: MD5 and SHA-256. \<open>GoCrypto\<close>: AES and its Galois counter mode. \<open>GoUtf8\<close>, \<open>GoJson\<close>,
    \<open>JsonRoundtrip\<close>: \<open>encoding/json\<close> and the round trip of printing and parsing. \<open>GoHttp\<close>: headers,
    requests and the response writer of the server.

  The server.
  \<^item> \<open>Metrics\<close> and \<open>MetricsJson\<close>: \<open>internal/model/metrics.go\<close> and its JSON. A counter's delta is a
    64-bit word and wraps.
  \<^item> \<open>Storage\<close>: the interface \<open>repository.Storage\<close>, its abstract specification over the map from ids
    to metrics (\<open>spec_update\<close>), and the locales \<open>storage_contract\<close> and \<open>reliable_storage\<close>.
    \<open>MemStorage\<close>, \<open>FileStorage\<close>, \<open>DBStorage\<close>: the three files of \<open>internal/repository\<close>, with the
    interpretations \<open>mem\<close>, \<open>filed\<close> and \<open>pg\<close>. The disk and the database are part of the state, each
    with a schedule of what will fail; the SQL statements are functions of the table.
  \<^item> \<open>Service\<close>: \<open>internal/service\<close> over any storage and any auditors. \<open>AuditLog\<close>: \<open>internal/audit\<close>.
  \<^item> \<open>HashSign\<close> and \<open>Encrypt\<close>: \<open>internal/encrypt\<close>. \<open>Compress\<close>: \<open>internal/compress\<close>. \<open>Middleware\<close>:
    \<open>internal/handler/middleware\<close>, functions from handlers to handlers, and the locale \<open>answering\<close>
    of handlers they are transparent to. \<open>Handlers\<close>: \<open>internal/handler/handlers.go\<close> and the routes.
  \<^item> \<open>Config\<close>: \<open>internal/config/servercfg\<close> and \<open>agentcfg\<close>, a setting being a slot of the record with
    its JSON name. \<open>Server\<close>: \<open>internal/server\<close>, \<open>internal/db\<close> and \<open>migrations\<close>; a storage of any of the
    three kinds keeps the contract (interpretation \<open>any\<close>).

  The agent.
  \<^item> \<open>Accumulator\<close>: \<open>internal/agent/accumulation\<close>. \<open>Reporting\<close>: \<open>internal/agent/reporting\<close>, the
    worker pool as a step relation over its goroutines and channels, the locale
    \<open>report_executor\<close> with its interpretations \<open>batch\<close> and \<open>workers\<close>. \<open>Agent\<close>: the polls, the
    report and their interleaving (\<open>agent_step\<close>). \<open>AgentRun\<close>: what an agent is made of for a
    configuration (interpretation \<open>configured\<close>), and its goroutines until they have returned
    (\<open>process_step\<close>).
  \<^item> \<open>Retrying\<close>: \<open>internal/retrying\<close>. \<open>Sending\<close>: \<open>internal/agent/sending\<close>. \<open>Pipeline\<close>: the sender
    connected to the server's handlers.

  Apart from both: \<open>Pool\<close> (\<open>internal/pool\<close>), \<open>Linter\<close> (\<open>cmd/linter\<close>), \<open>ResetTool\<close> (\<open>cmd/reset\<close>),
  \<open>Tools\<close> (\<open>cmd/tools\<close>). This theory composes the handlers with the in-memory storage, and the agent
  with the server.

  State. A method with a pointer receiver takes the old state and returns the new one. A body
  that runs under a mutex is one step. An error is a value, never an exception: \<open>None\<close> or
  \<open>Inr\<close> where Go returns a nil error; a nil dereference or a failing call of \<open>panic\<close> is \<open>Panic\<close>.

  What the lemmas show. Each storage keeps its invariant and refines the abstract store, a batch is
  applied as a whole or not at all, and what was stored synchronously survives a restart. The
  ledger lemmas account for every polled value in an accumulator; the executor contract carries
  this over to the whole agent with either executor, and with the batch executor to the server. The
  pipeline lemmas say that the server undoes the encryption, compression and signature of the agent, so
  that a report is applied exactly once. The handlers' lemmas give the status code and the effect of
  every branch. Other lemmas show where the code does not do what it means to: increments counted twice by
  a retry or lost behind an answer of 200, panics on a nonce or on a JSON null, audit events and
  polls lost at a shutdown, a synchronous mode that cannot be configured.

  Bounds. The retry loop ends by the distance to the maximal number of attempts. The pool's
  steps decrease a measure (\<open>pool_work\<close>), so that no fuel is needed. Gcm bounds the length of a plain
  text (\<open>gcm_max\<close>), and JSON the nesting of a value.

  Not modelled: logging and build information, which write text only; the generated API description; the
  \<open>main\<close> functions but that of the key generator; listening, signals and the profiling server. A
  ticker's tick is a step that may come at any moment. Parameters with laws as hypotheses are gzip, RSA
  and PEM, the random source, the HTTP transport, flag and environment parsing and the merging of
  configurations, golang-migrate and the connection pool, the readings of \<open>runtime\<close> and \<open>gopsutil\<close>.
\<close>

section \<open>The server: handlers and service over the in-memory storage\<close>


text \<open>A server with one auditor that drops everything, and a request with the given parameters.\<close>

definition plain_server :: "(mem_storage, unit) metrics_handlers" where
  "plain_server = \<lparr>mh_ops = mem_ops, mh_aops = null_auditor, mh_clock = 0, mh_SecretKey = [],
     mh_decrypter = \<lparr>dc_DecryptingEnabled = False, dc_Decrypt = (\<lambda>_. Done (Inl (Foreign ''decrypting disabled'')))\<rparr>,
     mh_json_error = (\<lambda>_. ''bad JSON'')\<rparr>"

definition path_request :: "gostring \<Rightarrow> gostring \<Rightarrow> gostring \<Rightarrow> request" where
  "path_request t i v =
     \<lparr>rq_header = [], rq_body = Inr [], rq_RemoteAddr = ''10.0.0.1:5000'',
      rq_URLParam = (\<lambda>p. if p = ''mtype'' then t else if p = ''id'' then i else if p = ''value'' then v else [])\<rparr>"

lemma plain_server_simps [simp]:
  "mh_ops plain_server = mem_ops" "mh_aops plain_server = null_auditor" "fresh (ServerWriter new_writer)"
  "mem_ok (srv_storage (NewMetricsService NewMemStorage))"
  by (simp_all add: plain_server_def new_writer_def fresh_def NewMetricsService_def)


text \<open>Reading a value by path, on every branch: a blank id or an unknown type is 400, an id that
  is not stored or has another type is 404, and otherwise the answer is 200 with the stored
  value as plain text. Reading changes nothing.\<close>

theorem get_plain_value_branches:
  assumes "mem_ok (srv_storage srv)" and "mh_ops mh = mem_ops" and "blank_writer w"
  shows "\<exists>w' srv'. getPlainValue mh r w srv = (Done (), w', srv') \<and>
    mem_view (srv_storage srv') = mem_view (srv_storage srv) \<and>
    (if is_blank (rq_URLParam r ''id'') \<or> rq_URLParam r ''mtype'' \<notin> {Counter, Gauge} then status_of w' = 400
     else case mem_view (srv_storage srv) (rq_URLParam r ''id'') of
            None \<Rightarrow> status_of w' = 404
          | Some m \<Rightarrow>
              if m_MType m = rq_URLParam r ''mtype'' then status_of w' = 200 \<and> body_of w' = plain_value m
              else status_of w' = 404)"
  by (rule mem.get_plain_value [OF assms])

lemma is_blank_a: "\<not> is_blank ''a''"
  by (simp add: is_blank_def char_code_def)

lemma get_plain_value_branches_witness:
  "\<exists>w' srv'. getPlainValue plain_server (path_request Counter ''a'' []) (ServerWriter new_writer) (NewMetricsService NewMemStorage) =
     (Done (), w', srv') \<and> status_of w' = 404"
  using get_plain_value_branches [of "NewMetricsService NewMemStorage" plain_server "ServerWriter new_writer" "path_request Counter ''a'' []"]
  by (auto simp: path_request_def NewMetricsService_def is_blank_a)



text \<open>The service tells every auditor of an accepted update, once, in the order of subscription,
  whatever errors they return; of an update the storage refused it tells none.\<close>

theorem auditors_told_once:
  fixes aops :: "'a auditor_ops" and srv :: "('s, 'a) metrics_service"
  assumes "auditors_total aops" and "AccumulateMetric ops aops ts m ip srv = (r, srv')"
  shows "if r = Done None
    then srv_auditors srv' = map (\<lambda>a. snd (op_OnMetricsUpdate aops ts ip [Some m] a)) (srv_auditors srv)
    else srv_auditors srv' = srv_auditors srv"
  by (rule accumulate_told [OF assms])

lemma auditors_told_once_witness:
  "srv_auditors (snd (AccumulateMetric mem_ops null_auditor 0 (NewCounterMetricsWithDelta ''c'' 1) ''ip''
     (SubscribeAuditor (7::nat) (NewMetricsService NewMemStorage)))) = [7]"
proof -
  let ?r = "AccumulateMetric mem_ops null_auditor 0 (NewCounterMetricsWithDelta ''c'' 1) ''ip''
    (SubscribeAuditor (7::nat) (NewMetricsService NewMemStorage))"
  obtain r srv' where a: "?r = (r, srv')" by fastforce
  show ?thesis
    using auditors_told_once [OF auditors_total_null a] a
    by (auto simp: null_auditor_def SubscribeAuditor_def NewMetricsService_def split: if_splits)
qed

section \<open>From the agent to the server\<close>

text \<open>The deltas of a clean batch, counted by the sender and by the receiver.\<close>

lemma sent_delta_batch_sum: "list_all well_formed ms \<Longrightarrow> sent_delta ms i = batch_sum ms i"
  by (induction ms) (auto simp: sent_delta_def batch_sum_def well_formed_def)

text \<open>C1. End-to-end conservation. Over a network on which a request that is answered without an
  error was processed by the server's batch update, and one that fails left no trace there,
  the counters of the server and the agent's pending increments together are the increments
  polled: at every moment without a running report, in every run, for every id. Failed
  reports are neither lost nor, when they are repeated later, counted twice.\<close>

theorem server_counts_polls:
  fixes sops :: "(mem_storage, 'a) metrics_service sender_ops"
  assumes delivered: "\<And>ms n n'. op_SendMetricArray sops ms n = (None, n') \<Longrightarrow>
      BatchAccumulateMetrics mem_ops aops ts (map Some ms) ip n = (Done None, n')"
    and failed: "\<And>ms n e n'. op_SendMetricArray sops ms n = (Some e, n') \<Longrightarrow> srv_storage n' = srv_storage n"
    and server: "srv_storage srv = NewMemStorage"
    and run: "agent_reach (batch_executes sops) (NewAgent (NewBatchExecutor srv)) st"
    and quiet: "ag_phase st = Waiting"
  shows "counter_of (mem_view (srv_storage (be_net (ag_exec st)))) i + pending_delta (acc_of (ag_stor st) i) = ag_polled st i"
proof -
  define J where "J = (\<lambda>e :: (mem_storage, 'a) metrics_service batch_executor.
    mem_ok (srv_storage (be_net e)) \<and> (\<forall>i. counter_of (mem_view (srv_storage (be_net e))) i = sent_delta (be_acked e) i))"
  have ok: "agent_ok be_acked (NewAgent (NewBatchExecutor srv)) \<and> True"
    using batch.agent_ok_new [of "NewBatchExecutor srv"] by (simp add: NewBatchExecutor_def)
  have start: "J (ag_exec (NewAgent (NewBatchExecutor srv)))"
    by (simp add: J_def NewAgent_def NewBatchExecutor_def server counter_of_def sent_delta_def)
  have keep: "J e'" if j: "J e" and c: "clean_batch ms" and x: "batch_executes sops e ms r e'" for e ms r e'
  proof (cases "fst (op_SendMetricArray sops ms (be_net e))")
    case (Some err)
    then have "be_acked e' = be_acked e \<and> srv_storage (be_net e') = srv_storage (be_net e)"
      using x failed by (auto simp: batch_executes_def batch_Execute_def Let_def split: prod.splits option.splits)
    then show ?thesis using j by (simp add: J_def)
  next
    case None
    then obtain n' where s: "op_SendMetricArray sops ms (be_net e) = (None, n')" by (metis prod.collapse)
    then have e': "be_net e' = n'" "be_acked e' = be_acked e @ ms"
      using x by (auto simp: batch_executes_def batch_Execute_def Let_def)
    have m: "mem_ok (srv_storage (be_net e))" using j by (simp add: J_def)
    note b = delivered [OF s]
    show ?thesis
      using j c mem.batch_accumulate_done(2) [OF m c b] mem.batch_accumulate_ok [OF m c b]
      by (simp add: J_def e' counter_of_fold sent_delta_append sent_delta_batch_sum clean_batch_def)
  qed
  have "J (ag_exec st)" by (rule batch.agent_reach_executor [where J = J, OF run ok start]) (rule keep)
  moreover have "agent_ok be_acked st" using batch.agent_reach_ok [OF run ok] by blast
  ultimately show ?thesis using quiet by (simp add: J_def agent_ok_def taken_delta_def)
qed

text \<open>The network that delivers every request to the server and passes its answer back.\<close>

definition direct_link :: "(mem_storage, unit) metrics_service sender_ops" where
  "direct_link = \<lparr>op_SendMetric = (\<lambda>m n. (Some (Foreign ''unused''), n)),
     op_SendMetricArray = (\<lambda>ms n.
       case BatchAccumulateMetrics mem_ops null_auditor 0 (map Some ms) ''10.0.0.1'' n of
         (Done None, n') \<Rightarrow> (None, n') | _ \<Rightarrow> (Some (Foreign ''status 400''), n))\<rparr>"

lemma server_counts_polls_witness:
  "\<exists>st :: (mem_storage, unit) metrics_service batch_executor agent. ag_polled st ''PollCount'' = 1 \<and> ag_phase st = Waiting \<and>
     counter_of (mem_view (srv_storage (be_net (ag_exec st)))) ''PollCount'' +
       pending_delta (acc_of (ag_stor st) ''PollCount'') = 1" (is "\<exists>st. ?P st")
proof -
  let ?new = "NewAgent (NewBatchExecutor (NewMetricsService NewMemStorage :: (mem_storage, unit) metrics_service))"
  have a: "fst (AccumulateCounter 1 (acc_of NewAccumulatorStorage ''PollCount'')) = None"
    by (simp add: acc_of_def acc_Get_def NewAccumulatorStorage_def AccumulateCounter_def NewMetricAccumulator_def)
  let ?st = "?new\<lparr>ag_stor := storeCounterMetric ''PollCount'' 1 NewAccumulatorStorage, ag_polled := (\<lambda>_. 0)(''PollCount'' := 1)\<rparr>"
  have "agent_step (batch_executes direct_link) ?new ?st"
    using agent_step.poll_counter [of "batch_executes direct_link" ?new "''PollCount''" 1] a by (simp add: NewAgent_def)
  then have r: "agent_reach (batch_executes direct_link) ?new ?st"
    by (rule agent_reach.one_step [OF agent_reach.at_start])
  have ok: "agent_ok be_acked ?st"
    using batch.agent_reach_ok [OF r] batch.agent_ok_new [of "NewBatchExecutor (NewMetricsService NewMemStorage)"]
    by (simp add: NewBatchExecutor_def)
  obtain stor' e' sv where r2: "agent_reach (batch_executes direct_link) ?st
      (?st\<lparr>ag_stor := stor', ag_exec := e', ag_phase := Waiting, ag_sent_values := sv\<rparr>)"
    using batch.execReport_run [OF ok, of "batch_Execute direct_link" direct_link]
    by (auto simp: NewAgent_def batch_executes_def)
  have d: "BatchAccumulateMetrics mem_ops null_auditor 0 (map Some ms) ''10.0.0.1'' n = (Done None, n')"
    if "op_SendMetricArray direct_link ms n = (None, n')" for ms n n'
    using that by (simp add: direct_link_def split: prod.splits outcome.splits option.splits)
  have f: "srv_storage n' = srv_storage n" if "op_SendMetricArray direct_link ms n = (Some e, n')" for ms n e n'
    using that by (auto simp: direct_link_def split: prod.splits outcome.splits option.splits)
  let ?fin = "?st\<lparr>ag_stor := stor', ag_exec := e', ag_phase := Waiting, ag_sent_values := sv\<rparr>"
  have "counter_of (mem_view (srv_storage (be_net (ag_exec ?fin)))) ''PollCount'' + pending_delta (acc_of (ag_stor ?fin) ''PollCount'')
      = ag_polled ?fin ''PollCount''"
  proof (rule server_counts_polls [where sops = direct_link and aops = null_auditor and ts = 0
        and ip = "''10.0.0.1''" and srv = "NewMetricsService NewMemStorage"])
    show "agent_reach (batch_executes direct_link) ?new ?fin" by (rule agent_reach_trans [OF r2 r])
  qed (auto intro: d f simp: NewMetricsService_def)
  moreover have "ag_polled ?fin ''PollCount'' = 1" "ag_phase ?fin = Waiting" by simp_all
  ultimately have "?P ?fin" by simp
  then show ?thesis by (rule exI [of ?P])
qed

end
